(* ===== verification/Prelude.thy ===== *)
theory Prelude
  imports
    Main
    "HOL-Library.Char_ord"
    "HOL-Library.List_Lexorder"
    "HOL-Library.Sublist"
begin

text \<open>
  The shared base of the development: the collections of simplification rules that the
  component theories extend, and generic facts about lists, options and sums that several
  components need.

  Strings are byte lists, as Go strings are.  The order of \<^theory_text>\<open>List_Lexorder\<close> over
  the byte order of \<^theory_text>\<open>Char_ord\<close> is Go's \<^verbatim>\<open><\<close> on strings, so that the library's
  \<open>sort\<close> is \<^verbatim>\<open>sort.Strings\<close> (equal strings cannot be told apart, so the missing
  stability of Go's sort does not show).
\<close>

named_theorems go_string_simps \<open>evaluation of the modelled Go string functions\<close>
named_theorems path_simps \<open>facts about cleaned and joined paths\<close>
named_theorems prefix_simps \<open>facts about masked addresses and prefixes\<close>
named_theorems world_simps \<open>frame facts of the operations on the world\<close>

section \<open>Lists\<close>

lemma concat_singleton_lists [simp]: "concat (map (\<lambda>x. [x]) xs) = xs"
  by (induction xs) auto

lemma takeWhile_append_stop:
  assumes "\<And>x. x \<in> set xs \<Longrightarrow> P x" and "\<not> P y"
  shows "takeWhile P (xs @ y # ys) = xs" and "dropWhile P (xs @ y # ys) = y # ys"
  using assms by (induction xs) auto

lemma dropWhile_id: "(xs = [] \<or> \<not> P (hd xs)) \<Longrightarrow> dropWhile P xs = xs"
  by (cases xs) auto

lemma set_remdups_sort [simp]: "set (sort (remdups xs)) = set xs"
  by simp

lemma distinct_sort_remdups [simp]: "distinct (sort (remdups (xs :: 'a::linorder list)))"
  by simp

text \<open>The least natural number outside a finite list: what a counting loop
  \<^verbatim>\<open>for n := 0; ; n++ { if !used[n] { return n } }\<close> finds.\<close>

lemma ex_unused_nat: "\<exists>n \<le> length xs. n \<notin> set (xs :: nat list)"
proof (rule ccontr)
  assume "\<not> ?thesis"
  then have "{0..length xs} \<subseteq> set xs" by auto
  then have "card {0..length xs} \<le> card (set xs)" by (intro card_mono) auto
  also have "\<dots> \<le> length xs" by (rule card_length)
  finally show False by simp
qed

section \<open>Sums as fallible results\<close>

text \<open>An early return on error is \<open>sum_bind\<close>: the rest runs on a success only.\<close>

fun sum_bind :: "'e + 'a \<Rightarrow> ('a \<Rightarrow> 'e + 'b) \<Rightarrow> 'e + 'b" where
  "sum_bind (Inl e) f = Inl e"
| "sum_bind (Inr x) f = f x"

lemma sum_bind_eq_Inr: "sum_bind r f = Inr y \<longleftrightarrow> (\<exists>x. r = Inr x \<and> f x = Inr y)"
  by (cases r) auto

lemma sum_bind_eq_Inl: "sum_bind r f = Inl e \<longleftrightarrow> r = Inl e \<or> (\<exists>x. r = Inr x \<and> f x = Inl e)"
  by (cases r) auto

fun is_ok :: "'e + 'a \<Rightarrow> bool" where
  "is_ok (Inl _) = False"
| "is_ok (Inr _) = True"

lemma is_ok_iff: "is_ok r \<longleftrightarrow> (\<exists>x. r = Inr x)"
  by (cases r) auto

lemma not_is_ok_iff: "\<not> is_ok r \<longleftrightarrow> (\<exists>e. r = Inl e)"
  by (cases r) auto

end
