(* ===== verification/GoStrings.thy ===== *)
theory GoStrings
  imports Prelude
begin

text \<open>
  The parts of Go's \<^verbatim>\<open>strings\<close>, \<^verbatim>\<open>strconv\<close>, \<^verbatim>\<open>fmt\<close> and \<^verbatim>\<open>path/filepath\<close> packages that the
  program uses.  Strings are byte lists; case mapping and white space are those of ASCII,
  which is what the program's names, domains, versions and unit files are written in.
\<close>

section \<open>Package strings\<close>

definition has_prefix :: "string \<Rightarrow> string \<Rightarrow> bool" where
  "has_prefix s p = (take (length p) s = p)"

definition has_suffix :: "string \<Rightarrow> string \<Rightarrow> bool" where
  "has_suffix s x = (length x \<le> length s \<and> drop (length s - length x) s = x)"

definition trim_prefix :: "string \<Rightarrow> string \<Rightarrow> string" where
  "trim_prefix s p = (if has_prefix s p then drop (length p) s else s)"

definition trim_suffix :: "string \<Rightarrow> string \<Rightarrow> string" where
  "trim_suffix s x = (if has_suffix s x then take (length s - length x) s else s)"

text \<open>\<^verbatim>\<open>strings.CutPrefix\<close>: the rest after the prefix, if it is there.\<close>

definition cut_prefix :: "string \<Rightarrow> string \<Rightarrow> string option" where
  "cut_prefix s p = (if has_prefix s p then Some (drop (length p) s) else None)"

definition is_space :: "char \<Rightarrow> bool" where
  "is_space c = (c \<in> set [CHR 0x20, CHR 0x09, CHR 0x0A, CHR 0x0B, CHR 0x0C, CHR 0x0D])"

definition trim_space :: "string \<Rightarrow> string" where
  "trim_space s = rev (dropWhile is_space (rev (dropWhile is_space s)))"

definition lower_char :: "char \<Rightarrow> char" where
  "lower_char c =
     (if CHR ''A'' \<le> c \<and> c \<le> CHR ''Z'' then char_of ((of_char c :: nat) + 32) else c)"

definition to_lower :: "string \<Rightarrow> string" where
  "to_lower s = map lower_char s"

text \<open>\<^verbatim>\<open>strings.Split(s, sep)\<close> for a one-byte separator, and the splitting that
  \<^verbatim>\<open>strings.Fields\<close> does at white space.\<close>

fun split_by :: "(char \<Rightarrow> bool) \<Rightarrow> string \<Rightarrow> string list" where
  "split_by P [] = [[]]"
| "split_by P (c # cs) =
     (if P c then [] # split_by P cs
      else let r = split_by P cs in (c # hd r) # tl r)"

declare split_by.simps(2) [simp del]

lemma split_by_Cons [simp]:
  "split_by P (c # cs) =
     (if P c then [] # split_by P cs
      else (c # hd (split_by P cs)) # tl (split_by P cs))"
  by (simp add: split_by.simps(2) Let_def)

lemmas [code] = split_by.simps

definition split_on :: "char \<Rightarrow> string \<Rightarrow> string list" where
  "split_on c s = split_by (\<lambda>x. x = c) s"

definition str_fields :: "string \<Rightarrow> string list" where
  "str_fields s = filter (\<lambda>f. f \<noteq> []) (split_by is_space s)"

fun join :: "string list \<Rightarrow> string \<Rightarrow> string" where
  "join [] sep = []"
| "join [x] sep = x"
| "join (x # y # zs) sep = x @ sep @ join (y # zs) sep"

text \<open>\<^verbatim>\<open>strings.Contains\<close> and \<^verbatim>\<open>strings.Cut\<close> (at the first occurrence of the separator).\<close>

fun str_contains :: "string \<Rightarrow> string \<Rightarrow> bool" where
  "str_contains [] sub = (sub = [])"
| "str_contains (c # cs) sub = (has_prefix (c # cs) sub \<or> str_contains cs sub)"

fun cut :: "string \<Rightarrow> string \<Rightarrow> (string \<times> string) option" where
  "cut [] sep = (if sep = [] then Some ([], []) else None)"
| "cut (c # cs) sep =
     (if has_prefix (c # cs) sep then Some ([], drop (length sep) (c # cs))
      else map_option (\<lambda>(b, a). (c # b, a)) (cut cs sep))"

text \<open>\<^verbatim>\<open>strings.LastIndexByte\<close> as a split: what stands before and after the last occurrence.\<close>

definition cut_last :: "char \<Rightarrow> string \<Rightarrow> (string \<times> string) option" where
  "cut_last c s =
     (if c \<in> set s
      then let after = rev (takeWhile (\<lambda>x. x \<noteq> c) (rev s))
           in Some (take (length s - length after - 1) s, after)
      else None)"

section \<open>Package strconv\<close>

definition digit_char :: "nat \<Rightarrow> char" where
  "digit_char d = char_of (48 + d)"

definition is_digit :: "char \<Rightarrow> bool" where
  "is_digit c = (48 \<le> (of_char c :: nat) \<and> (of_char c :: nat) \<le> 57)"

definition digit_val :: "char \<Rightarrow> nat" where
  "digit_val c = of_char c - 48"

fun utoa :: "nat \<Rightarrow> string" where
  "utoa n = (if n < 10 then [digit_char n] else utoa (n div 10) @ [digit_char (n mod 10)])"

declare utoa.simps [simp del]

text \<open>\<^verbatim>\<open>strconv.Itoa\<close>, also \<^verbatim>\<open>%d\<close> of package fmt.\<close>

definition itoa :: "int \<Rightarrow> string" where
  "itoa i = (if i < 0 then CHR ''-'' # utoa (nat (- i)) else utoa (nat i))"

definition digits_val :: "string \<Rightarrow> nat" where
  "digits_val s = foldl (\<lambda>n c. 10 * n + digit_val c) 0 s"

definition parse_uint :: "string \<Rightarrow> nat option" where
  "parse_uint s = (if s \<noteq> [] \<and> list_all is_digit s then Some (digits_val s) else None)"

text \<open>\<^verbatim>\<open>strconv.Atoi\<close>: an optional sign, decimal digits only, and the range of a 64-bit int.\<close>

definition atoi :: "string \<Rightarrow> int option" where
  "atoi s =
     (case s of
        [] \<Rightarrow> None
      | c # cs \<Rightarrow>
          (case parse_uint (if c = CHR ''-'' \<or> c = CHR ''+'' then cs else s) of
             None \<Rightarrow> None
           | Some n \<Rightarrow>
               (let v = (if c = CHR ''-'' then - int n else int n)
                in if - (2 ^ 63) \<le> v \<and> v < 2 ^ 63 then Some v else None)))"

text \<open>\<^verbatim>\<open>%x\<close> of a nibble.\<close>

definition hex_digit :: "nat \<Rightarrow> char" where
  "hex_digit d = (if d < 10 then char_of (48 + d) else char_of (87 + d))"

section \<open>Facts\<close>

lemma has_prefix_append [simp]: "has_prefix (p @ s) p"
  by (simp add: has_prefix_def)

lemma has_prefix_iff: "has_prefix s p \<longleftrightarrow> (\<exists>t. s = p @ t)"
  unfolding has_prefix_def by (metis append_eq_conv_conj append_take_drop_id)

lemma has_prefix_Cons [simp]: "has_prefix (c # s) (d # p) \<longleftrightarrow> c = d \<and> has_prefix s p"
  by (auto simp: has_prefix_def)

lemma has_prefix_Nil [simp]: "has_prefix s []" "has_prefix [] (c # p) = False"
  by (simp_all add: has_prefix_def)

lemma has_suffix_append [simp]: "has_suffix (s @ x) x"
  by (simp add: has_suffix_def)

lemma has_suffix_iff: "has_suffix s x \<longleftrightarrow> (\<exists>t. s = t @ x)"
  unfolding has_suffix_def
  by (metis append_eq_conv_conj append_take_drop_id diff_diff_cancel length_append
      length_drop add_diff_cancel_right' le_add2)

lemma trim_suffix_append [simp]: "trim_suffix (s @ x) x = s"
  by (simp add: trim_suffix_def)

lemma trim_prefix_append [simp]: "trim_prefix (p @ s) p = s"
  by (simp add: trim_prefix_def)

lemma split_by_ne [simp]: "split_by P s \<noteq> []"
  by (cases s) auto

lemma split_on_ne [simp]: "split_on c s \<noteq> []"
  by (simp add: split_on_def)

lemma split_by_no_sep: "(\<And>x. x \<in> set s \<Longrightarrow> \<not> P x) \<Longrightarrow> split_by P s = [s]"
  by (induction s) auto

lemma split_by_sep: "(\<And>x. x \<in> set s \<Longrightarrow> \<not> P x) \<Longrightarrow> P c \<Longrightarrow>
    split_by P (s @ c # t) = s # split_by P t"
  by (induction s) auto

lemma split_by_append: "P c \<Longrightarrow> split_by P (s @ c # t) = split_by P s @ split_by P t"
  by (induction s) auto

lemma split_on_append: "split_on c (s @ c # t) = split_on c s @ split_on c t"
  unfolding split_on_def by (rule split_by_append) simp

lemma split_on_no_sep: "c \<notin> set s \<Longrightarrow> split_on c s = [s]"
  unfolding split_on_def by (rule split_by_no_sep) auto

lemma set_split_by: "x \<in> set (split_by P s) \<Longrightarrow> y \<in> set x \<Longrightarrow> y \<in> set s \<and> \<not> P y"
proof (induction s arbitrary: x)
  case Nil
  then show ?case by simp
next
  case (Cons c cs)
  show ?case
  proof (cases "P c")
    case True
    with Cons show ?thesis by auto
  next
    case False
    have hd: "hd (split_by P cs) \<in> set (split_by P cs)" by simp
    from False Cons.prems have "x = c # hd (split_by P cs) \<or> x \<in> set (tl (split_by P cs))"
      by auto
    then show ?thesis
    proof
      assume "x = c # hd (split_by P cs)"
      with Cons.prems(2) False Cons.IH [OF hd] show ?thesis by auto
    next
      assume "x \<in> set (tl (split_by P cs))"
      then have "x \<in> set (split_by P cs)" by (metis list.set_sel(2) split_by_ne)
      with Cons.IH Cons.prems(2) show ?thesis by auto
    qed
  qed
qed

lemma join_split_on: "join (split_on c s) [c] = s"
proof (induction s)
  case Nil
  then show ?case by (simp add: split_on_def)
next
  case (Cons x xs)
  then show ?case
    by (cases "split_by (\<lambda>y. y = c) xs"; cases "tl (split_by (\<lambda>y. y = c) xs)")
       (auto simp: split_on_def)
qed

lemma split_on_join:
  "xs \<noteq> [] \<Longrightarrow> (\<And>x. x \<in> set xs \<Longrightarrow> c \<notin> set x) \<Longrightarrow> split_on c (join xs [c]) = xs"
proof (induction xs "[c]" rule: join.induct)
  case (3 x y zs)
  then show ?case
    by (simp add: split_on_append split_on_no_sep)
qed (auto simp: split_on_no_sep)

lemma join_append:
  "xs \<noteq> [] \<Longrightarrow> ys \<noteq> [] \<Longrightarrow> join (xs @ ys) sep = join xs sep @ sep @ join ys sep"
proof (induction xs sep rule: join.induct)
  case (2 x sep)
  then show ?case by (cases ys) auto
qed auto

lemma set_join: "set (join xs sep) \<subseteq> \<Union> (set ` set xs) \<union> set sep"
  by (induction xs sep rule: join.induct) auto

lemma cut_char_no_sep: "c \<notin> set s \<Longrightarrow> cut s [c] = None"
  by (induction s) auto

lemma cut_char_sep: "c \<notin> set s \<Longrightarrow> cut (s @ c # t) [c] = Some (s, t)"
  by (induction s) (auto simp: has_prefix_def)

lemma cut_Some: "cut s sep = Some (b, a) \<Longrightarrow> s = b @ sep @ a"
  by (induction s arbitrary: b) (auto simp: has_prefix_iff split: if_splits)

lemma cut_last_Some: "cut_last c s = Some (b, a) \<Longrightarrow> s = b @ c # a \<and> c \<notin> set a"
proof -
  assume h: "cut_last c s = Some (b, a)"
  then have c: "c \<in> set s" by (auto simp: cut_last_def split: if_splits)
  from split_list_last [OF c] obtain u v where s: "s = u @ c # v" and v: "c \<notin> set v" by blast
  have "takeWhile (\<lambda>x. x \<noteq> c) (rev v @ c # rev u) = rev v"
    using v by (intro takeWhile_append_stop) auto
  with h c s v show ?thesis by (auto simp: cut_last_def)
qed

lemma cut_last_sep: "c \<notin> set a \<Longrightarrow> cut_last c (b @ c # a) = Some (b, a)"
proof -
  assume v: "c \<notin> set a"
  then have "takeWhile (\<lambda>x. x \<noteq> c) (rev a @ c # rev b) = rev a"
    by (intro takeWhile_append_stop) auto
  then show ?thesis by (simp add: cut_last_def)
qed

lemma trim_space_id:
  assumes "s = [] \<or> (\<not> is_space (hd s) \<and> \<not> is_space (last s))"
  shows "trim_space s = s"
proof -
  from assms have "dropWhile is_space s = s" by (intro dropWhile_id) auto
  moreover from assms have "dropWhile is_space (rev s) = rev s"
    by (intro dropWhile_id) (auto simp: hd_rev)
  ultimately show ?thesis by (simp add: trim_space_def)
qed

lemma set_trim_space: "set (trim_space s) \<subseteq> set s"
  unfolding trim_space_def
  by (metis set_dropWhileD set_rev subsetI)

lemma trim_space_hd_last:
  "trim_space s \<noteq> [] \<Longrightarrow> \<not> is_space (hd (trim_space s)) \<and> \<not> is_space (last (trim_space s))"
proof -
  let ?d = "dropWhile is_space s"
  assume ne: "trim_space s \<noteq> []"
  then have d: "dropWhile is_space (rev ?d) \<noteq> []" by (simp add: trim_space_def)
  then have last: "\<not> is_space (last (trim_space s))"
    unfolding trim_space_def using hd_dropWhile [OF d] by (simp add: last_rev)
  from d have "?d \<noteq> []" by (metis dropWhile.simps(1) rev.simps(1))
  then have hd: "\<not> is_space (hd ?d)" by (rule hd_dropWhile)
  obtain pre where pre: "rev ?d = pre @ dropWhile is_space (rev ?d)"
    by (metis takeWhile_dropWhile_id)
  then have "?d = trim_space s @ rev pre"
    unfolding trim_space_def by (metis rev_append rev_rev_ident)
  with ne hd have "\<not> is_space (hd (trim_space s))" by (metis hd_append2)
  with last show ?thesis by simp
qed

lemma trim_space_idem [simp]: "trim_space (trim_space s) = trim_space s"
  by (rule trim_space_id) (use trim_space_hd_last [of s] in auto)

subsection \<open>Numbers\<close>

lemma of_char_digit_char: "d < 10 \<Longrightarrow> (of_char (digit_char d) :: nat) = 48 + d"
  by (simp add: digit_char_def)

lemma digit_char_facts [simp]:
  assumes "d < 10"
  shows "is_digit (digit_char d)" "digit_val (digit_char d) = d"
  using assms by (simp_all add: is_digit_def digit_val_def of_char_digit_char)

lemma utoa_ne [simp]: "utoa n \<noteq> []"
  by (subst utoa.simps) simp

lemma utoa_digits: "list_all is_digit (utoa n)"
proof (induction n rule: utoa.induct)
  case (1 n)
  then show ?case by (subst utoa.simps) auto
qed

lemma utoa_no: "\<not> is_digit c \<Longrightarrow> c \<notin> set (utoa n)"
  using utoa_digits [of n] by (auto simp: list_all_iff)

lemma utoa_length: "0 < k \<Longrightarrow> n < 10 ^ k \<Longrightarrow> length (utoa n) \<le> k"
proof (induction k arbitrary: n)
  case (Suc k)
  show ?case
  proof (cases "n < 10")
    case True
    then show ?thesis by (subst utoa.simps) simp
  next
    case False
    with Suc.prems have "0 < k" "n div 10 < 10 ^ k" by (cases k; simp)+
    with Suc.IH [of "n div 10"] False show ?thesis by (subst utoa.simps) simp
  qed
qed simp

lemma digits_val_snoc: "digits_val (s @ [c]) = 10 * digits_val s + digit_val c"
  by (simp add: digits_val_def)

lemma digits_val_utoa [simp]: "digits_val (utoa n) = n"
proof (induction n rule: utoa.induct)
  case (1 n)
  show ?case
  proof (cases "n < 10")
    case True
    then show ?thesis by (subst utoa.simps) (simp add: digits_val_def)
  next
    case False
    with "1" show ?thesis by (subst utoa.simps) (simp add: digits_val_snoc)
  qed
qed

lemma parse_uint_utoa [simp]: "parse_uint (utoa n) = Some n"
  by (simp add: parse_uint_def utoa_digits)

lemma utoa_inject [simp]: "utoa m = utoa n \<longleftrightarrow> m = n"
  by (metis digits_val_utoa)

lemma digit_not_sign: "is_digit c \<Longrightarrow> c \<noteq> CHR ''-'' \<and> c \<noteq> CHR ''+''"
  by (auto simp: is_digit_def)

lemma digit_not_space: "is_digit c \<Longrightarrow> \<not> is_space c"
  by (auto simp: is_digit_def is_space_def)

lemma utoa_hd: "is_digit (hd (utoa n))"
  using utoa_digits [of n] by (cases "utoa n") auto

lemma atoi_utoa: "int n < 2 ^ 63 \<Longrightarrow> atoi (utoa n) = Some (int n)"
proof -
  assume n: "int n < 2 ^ 63"
  obtain c cs where u: "utoa n = c # cs" by (cases "utoa n") auto
  with utoa_hd [of n] have "c \<noteq> CHR ''-''" "c \<noteq> CHR ''+''"
    by (auto dest: digit_not_sign)
  with u n parse_uint_utoa [of n] show ?thesis by (simp add: atoi_def)
qed

text \<open>Reading back what \<^verbatim>\<open>strconv.Itoa\<close> printed.\<close>

lemma atoi_itoa:
  assumes "- (2 ^ 63) \<le> i" and "i < 2 ^ 63"
  shows "atoi (itoa i) = Some i"
proof (cases "i < 0")
  case True
  with assms show ?thesis by (simp add: itoa_def atoi_def)
next
  case False
  with assms atoi_utoa [of "nat i"] show ?thesis by (simp add: itoa_def)
qed

lemma itoa_ne [simp]: "itoa i \<noteq> []"
  by (simp add: itoa_def)

lemma itoa_no_space: "c \<in> set (itoa i) \<Longrightarrow> \<not> is_space c"
  using utoa_digits [of "nat i"] utoa_digits [of "nat (- i)"]
  by (auto simp: itoa_def list_all_iff dest: digit_not_space split: if_splits)
     (simp add: is_space_def)

lemma trim_space_itoa [simp]: "trim_space (itoa i) = itoa i"
  by (rule trim_space_id) (metis itoa_ne itoa_no_space hd_in_set last_in_set)

lemma itoa_inject:
  assumes "0 \<le> i" and "0 \<le> j"
  shows "itoa i = itoa j \<longleftrightarrow> i = j"
  using assms by (auto simp: itoa_def)

end
