(* ===== verification/Netip.thy ===== *)
theory Netip
  imports GoStrings "HOL-Library.Word"
begin

text \<open>
  Go's \<^verbatim>\<open>net/netip\<close>: addresses and prefixes as machine words, masking, overlap, and the
  parsers \<^verbatim>\<open>ParseAddr\<close> and \<^verbatim>\<open>ParsePrefix\<close>.  An IPv6 address carries its zone (empty for none);
  an IPv4-mapped IPv6 address is a \<open>V6\<close>, as in Go.  The central fact is that two prefixes
  overlap, as the code computes it, exactly when some address lies in both.
\<close>

unbundle bit_operations_syntax

section \<open>Addresses and prefixes\<close>

datatype addr = V4 "32 word" | V6 "128 word" string

datatype prefix = Prefix (pfx_addr: addr) (pfx_bits: nat)

fun is4 :: "addr \<Rightarrow> bool" where
  "is4 (V4 _) = True"
| "is4 (V6 _ _) = False"

definition is6 :: "addr \<Rightarrow> bool" where
  "is6 a = (\<not> is4 a)"

text \<open>\<^verbatim>\<open>Is4In6\<close> (the upper 96 bits are \<^verbatim>\<open>::ffff\<close>) and \<^verbatim>\<open>Unmap\<close>.\<close>

fun is4in6 :: "addr \<Rightarrow> bool" where
  "is4in6 (V4 _) = False"
| "is4in6 (V6 w _) = (drop_bit 32 w = 0xFFFF)"

fun unmap :: "addr \<Rightarrow> addr" where
  "unmap (V4 w) = V4 w"
| "unmap (V6 w z) = (if is4in6 (V6 w z) then V4 (ucast w) else V6 w z)"

definition high_bits :: "nat \<Rightarrow> 'a::len word \<Rightarrow> 'a word" where
  "high_bits n w = w AND NOT (mask (LENGTH('a) - n))"

text \<open>\<^verbatim>\<open>Addr.Prefix(b)\<close> masks the address and drops its zone; it fails when there are not that
  many bits.\<close>

fun addr_prefix :: "addr \<Rightarrow> nat \<Rightarrow> prefix option" where
  "addr_prefix (V4 w) b = (if b \<le> 32 then Some (Prefix (V4 (high_bits b w)) b) else None)"
| "addr_prefix (V6 w z) b = (if b \<le> 128 then Some (Prefix (V6 (high_bits b w) []) b) else None)"

fun valid_prefix :: "prefix \<Rightarrow> bool" where
  "valid_prefix (Prefix (V4 _) b) = (b \<le> 32)"
| "valid_prefix (Prefix (V6 _ z) b) = (b \<le> 128 \<and> z = [])"

text \<open>\<^verbatim>\<open>Prefix.Masked\<close>.  Only valid prefixes are ever constructed, so the zero prefix that Go
  returns otherwise does not occur; an invalid one is left alone.\<close>

definition masked :: "prefix \<Rightarrow> prefix" where
  "masked p = (case addr_prefix (pfx_addr p) (pfx_bits p) of Some q \<Rightarrow> q | None \<Rightarrow> p)"

definition overlaps :: "prefix \<Rightarrow> prefix \<Rightarrow> bool" where
  "overlaps p q =
     (if \<not> valid_prefix p \<or> \<not> valid_prefix q then False
      else if p = q then True
      else if is4 (pfx_addr p) \<noteq> is4 (pfx_addr q) then False
      else let m = min (pfx_bits p) (pfx_bits q)
           in if m = 0 then True
              else (case (addr_prefix (pfx_addr p) m, addr_prefix (pfx_addr q) m) of
                      (Some p', Some q') \<Rightarrow> pfx_addr p' = pfx_addr q'
                    | _ \<Rightarrow> False))"

text \<open>The addresses of a prefix (\<^verbatim>\<open>Prefix.Contains\<close>), which the code itself never asks for:
  the meaning against which overlap is proved.\<close>

fun contains :: "prefix \<Rightarrow> addr \<Rightarrow> bool" where
  "contains (Prefix (V4 x) n) (V4 a) = (high_bits n a = high_bits n x)"
| "contains (Prefix (V6 x _) n) (V6 a z) = (z = [] \<and> high_bits n a = high_bits n x)"
| "contains (Prefix _ _) _ = False"

section \<open>Parsing\<close>

definition octet_ok :: "string \<Rightarrow> bool" where
  "octet_ok f =
     (f \<noteq> [] \<and> list_all is_digit f \<and> (length f > 1 \<longrightarrow> hd f \<noteq> CHR ''0'') \<and> digits_val f \<le> 255)"

definition word_of_octets :: "nat list \<Rightarrow> 32 word" where
  "word_of_octets os = foldl (\<lambda>w k. w * 256 + of_nat k) 0 os"

definition parse_v4_fields :: "string \<Rightarrow> 32 word option" where
  "parse_v4_fields s =
     (let fs = split_on CHR ''.'' s
      in if length fs = 4 \<and> list_all octet_ok fs
         then Some (word_of_octets (map digits_val fs)) else None)"

definition is_hex :: "char \<Rightarrow> bool" where
  "is_hex c = (is_digit c \<or> CHR ''a'' \<le> c \<and> c \<le> CHR ''f'' \<or> CHR ''A'' \<le> c \<and> c \<le> CHR ''F'')"

definition hex_val :: "char \<Rightarrow> nat" where
  "hex_val c =
     (if is_digit c then digit_val c
      else if CHR ''a'' \<le> c then of_char c - 87 else of_char c - 55)"

definition hex_group :: "string \<Rightarrow> nat" where
  "hex_group ds = foldl (\<lambda>n c. 16 * n + hex_val c) 0 ds"

text \<open>
  The loop of \<^verbatim>\<open>parseIPv6\<close>: up to eight 16-bit groups, at most one \<^verbatim>\<open>::\<close>, whose position is
  kept, and possibly a dotted quad at the end.  The counter is the number of groups still
  allowed; the result has what is left of the text.
\<close>

fun parse_groups ::
    "nat \<Rightarrow> string \<Rightarrow> nat list \<Rightarrow> nat option \<Rightarrow> (nat list \<times> nat option \<times> string) option" where
  "parse_groups 0 s gs el = Some (gs, el, s)"
| "parse_groups (Suc k) s gs el =
     (let ds = takeWhile is_hex s; rest = dropWhile is_hex s; gs' = gs @ [hex_group ds]
      in if ds = [] \<or> length ds > 4 then None
         else (case rest of
            [] \<Rightarrow> Some (gs', el, [])
          | c # r \<Rightarrow>
              if c = CHR ''.'' then
                (if el = None \<and> length gs \<noteq> 6 \<or> length gs > 6 then None
                 else (case parse_v4_fields s of
                         None \<Rightarrow> None
                       | Some w \<Rightarrow>
                           Some (gs @ [unat (drop_bit 16 w), unat (w AND 0xFFFF)], el, [])))
              else if c \<noteq> CHR '':'' \<or> r = [] then None
              else if hd r = CHR '':'' then
                (if el \<noteq> None then None
                 else if tl r = [] then Some (gs', Some (length gs'), [])
                 else parse_groups k (tl r) gs' (Some (length gs')))
              else parse_groups k r gs' el))"

definition word_of_groups :: "nat list \<Rightarrow> 128 word" where
  "word_of_groups gs = foldl (\<lambda>w g. w * 65536 + of_nat g) 0 gs"

definition expand_groups :: "nat list \<times> nat option \<times> string \<Rightarrow> nat list option" where
  "expand_groups r =
     (case r of (gs, el, s) \<Rightarrow>
        if s \<noteq> [] then None
        else if length gs < 8 then
          (case el of
             None \<Rightarrow> None
           | Some e \<Rightarrow> Some (take e gs @ replicate (8 - length gs) 0 @ drop e gs))
        else if el \<noteq> None then None else Some gs)"

definition parse_ipv6 :: "string \<Rightarrow> addr option" where
  "parse_ipv6 s =
     (let bz = (case cut s ''%'' of None \<Rightarrow> Some (s, [])
                | Some (b, z) \<Rightarrow> if z = [] then None else Some (b, z))
      in case bz of
           None \<Rightarrow> None
         | Some (b, z) \<Rightarrow>
             (if b = ''::'' then Some (V6 0 z)
              else let r = (if has_prefix b ''::'' then parse_groups 8 (drop 2 b) [] (Some 0)
                            else parse_groups 8 b [] None)
                   in case Option.bind r expand_groups of
                        None \<Rightarrow> None
                      | Some gs \<Rightarrow> Some (V6 (word_of_groups gs) z)))"

text \<open>\<^verbatim>\<open>ParseAddr\<close> looks at the first of \<^verbatim>\<open>.\<close>, \<^verbatim>\<open>:\<close> and \<^verbatim>\<open>%\<close>.\<close>

definition parse_addr :: "string \<Rightarrow> addr option" where
  "parse_addr s =
     (case find (\<lambda>c. c \<in> set [CHR ''.'', CHR '':'', CHR ''%'']) s of
        None \<Rightarrow> None
      | Some c \<Rightarrow>
          if c = CHR ''.'' then map_option V4 (parse_v4_fields s)
          else if c = CHR '':'' then parse_ipv6 s
          else None)"

fun zoned :: "addr \<Rightarrow> bool" where
  "zoned (V4 _) = False"
| "zoned (V6 _ z) = (z \<noteq> [])"

definition parse_prefix :: "string \<Rightarrow> prefix option" where
  "parse_prefix s =
     (case cut_last CHR ''/'' s of
        None \<Rightarrow> None
      | Some (a, bs) \<Rightarrow>
          (case parse_addr a of
             None \<Rightarrow> None
           | Some ip \<Rightarrow>
               if zoned ip then None
               else if length bs > 1 \<and> \<not> (CHR ''1'' \<le> hd bs \<and> hd bs \<le> CHR ''9'') then None
               else (case atoi bs of
                       None \<Rightarrow> None
                     | Some b \<Rightarrow>
                         if b < 0 \<or> b > (if is6 ip then 128 else 32) then None
                         else Some (Prefix ip (nat b)))))"

text \<open>\<^verbatim>\<open>Addr.String\<close> of an IPv4 address.\<close>

definition octet :: "nat \<Rightarrow> 32 word \<Rightarrow> nat" where
  "octet k w = unat (drop_bit (8 * k) w AND 0xFF)"

definition addr4_string :: "32 word \<Rightarrow> string" where
  "addr4_string w =
     join [utoa (octet 3 w), utoa (octet 2 w), utoa (octet 1 w), utoa (octet 0 w)] ''.''"

text \<open>\<^verbatim>\<open>Addr.String\<close>: an IPv6 address in groups, its first longest run of at least two zero groups
  written \<^verbatim>\<open>::\<close>, an IPv4-mapped one with its dotted quad, and the zone after a percent sign.\<close>

definition hex_string :: "nat \<Rightarrow> string" where
  "hex_string n =
     (if n < 16 then [hex_digit n]
      else if n < 256 then map hex_digit [n div 16, n mod 16]
      else if n < 4096 then map hex_digit [n div 256, n div 16 mod 16, n mod 16]
      else map hex_digit [n div 4096, n div 256 mod 16, n div 16 mod 16, n mod 16])"

definition groups_of :: "128 word \<Rightarrow> nat list" where
  "groups_of w = map (\<lambda>i. unat (drop_bit (16 * (7 - i)) w AND 0xFFFF)) [0..<8]"

text \<open>The run to compress: its start and length, \<open>(0, 0)\<close> when there is none.\<close>

definition zero_run :: "nat list \<Rightarrow> nat \<times> nat" where
  "zero_run gs =
     foldl (\<lambda>(st, len) i.
              let l = length (takeWhile (\<lambda>g. g = 0) (drop i gs))
              in if l \<ge> 2 \<and> l > len then (i, l) else (st, len))
       (0, 0) [0..<length gs]"

definition v6_string :: "128 word \<Rightarrow> string" where
  "v6_string w =
     (let gs = groups_of w; hex = (\<lambda>gs. join (map hex_string gs) '':'')
      in case zero_run gs of
           (st, len) \<Rightarrow>
             if len = 0 then hex gs else hex (take st gs) @ ''::'' @ hex (drop (st + len) gs))"

fun addr_string :: "addr \<Rightarrow> string" where
  "addr_string (V4 w) = addr4_string w"
| "addr_string (V6 w z) =
     (if is4in6 (V6 w z) then ''::ffff:'' @ addr4_string (ucast w) else v6_string w) @
     (if z = [] then [] else CHR ''%'' # z)"

definition prefix_string :: "prefix \<Rightarrow> string" where
  "prefix_string p = addr_string (pfx_addr p) @ CHR ''/'' # utoa (pfx_bits p)"

section \<open>Facts\<close>

lemma bit_high_bits:
  "bit (high_bits n (w :: 'a::len word)) k \<longleftrightarrow> bit w k \<and> LENGTH('a) - n \<le> k"
  unfolding high_bits_def
  by (auto simp: bit_simps dest: bit_imp_le_length)

lemma high_bits_comp [prefix_simps]:
  "m \<le> n \<Longrightarrow> high_bits m (high_bits n w) = high_bits m (w :: 'a::len word)"
  by (rule bit_word_eqI) (auto simp: bit_high_bits)

lemma high_bits_idem [simp]: "high_bits n (high_bits n w) = high_bits n w"
  by (simp add: prefix_simps)

lemma high_bits_0 [simp]: "high_bits 0 w = 0"
  by (rule bit_word_eqI) (auto simp: bit_high_bits dest: bit_imp_le_length)

text \<open>Two masked words share a point exactly when they agree on the shorter mask.\<close>

lemma high_bits_meet:
  "(\<exists>a. high_bits n a = high_bits n x \<and> high_bits m a = high_bits m y) \<longleftrightarrow>
   high_bits (min n m) x = high_bits (min n m) (y :: 'a::len word)" (is "?L \<longleftrightarrow> ?R")
proof
  assume ?L
  then obtain a where a: "high_bits n a = high_bits n x" "high_bits m a = high_bits m y" by blast
  have "high_bits (min n m) x = high_bits (min n m) (high_bits n x)"
    by (simp add: prefix_simps)
  also have "\<dots> = high_bits (min n m) (high_bits m y)"
    by (simp add: a [symmetric] prefix_simps)
  finally show ?R by (simp add: prefix_simps)
next
  assume r: ?R
  show ?L
  proof (cases "n \<le> m")
    case True
    with r show ?thesis by (intro exI [of _ y]) (simp add: min_def)
  next
    case False
    with r show ?thesis by (intro exI [of _ x]) (simp add: min_def)
  qed
qed

lemma addr_prefix_Some:
  "addr_prefix a b = Some p \<Longrightarrow> valid_prefix p \<and> pfx_bits p = b \<and> is4 (pfx_addr p) = is4 a"
  by (cases a) (auto split: if_splits)

lemma valid_masked [simp]: "valid_prefix p \<Longrightarrow> valid_prefix (masked p)"
  by (cases p; cases "pfx_addr p") (auto simp: masked_def)

lemma pfx_bits_masked [simp]: "pfx_bits (masked p) = pfx_bits p"
  by (cases p; cases "pfx_addr p") (auto simp: masked_def)

lemma is4_masked [simp]: "is4 (pfx_addr (masked p)) = is4 (pfx_addr p)"
  by (cases p; cases "pfx_addr p") (auto simp: masked_def)

lemma masked_idem [simp]: "valid_prefix p \<Longrightarrow> masked (masked p) = masked p"
  by (cases p; cases "pfx_addr p") (auto simp: masked_def)

lemma contains_masked [simp]: "valid_prefix p \<Longrightarrow> contains (masked p) a = contains p a"
  by (cases p; cases "pfx_addr p"; cases a) (auto simp: masked_def)

lemma contains_own_addr: "valid_prefix p \<Longrightarrow> contains p (pfx_addr p)"
  by (cases p; cases "pfx_addr p") auto

lemma parse_addr_zone: "parse_addr s = Some a \<Longrightarrow> is4 a \<Longrightarrow> \<not> zoned a"
  by (cases a) auto

lemma parse_prefix_valid: "parse_prefix s = Some p \<Longrightarrow> valid_prefix p"
proof -
  assume h: "parse_prefix s = Some p"
  then obtain a bs ip b where
      p: "p = Prefix ip (nat b)" and z: "\<not> zoned ip"
      and b: "\<not> (b < 0 \<or> b > (if is6 ip then 128 else 32))"
    by (auto simp: parse_prefix_def split: option.splits prod.splits if_splits)
  then show ?thesis by (cases ip) (auto simp: is6_def)
qed

lemma overlaps_V4:
  assumes "n \<le> 32" and "m \<le> 32"
  shows "overlaps (Prefix (V4 x) n) (Prefix (V4 y) m) \<longleftrightarrow>
    high_bits (min n m) x = high_bits (min n m) y"
  using assms by (auto simp: overlaps_def Let_def min_def)

lemma overlaps_V6:
  assumes "n \<le> 128" and "m \<le> 128"
  shows "overlaps (Prefix (V6 x []) n) (Prefix (V6 y []) m) \<longleftrightarrow>
    high_bits (min n m) x = high_bits (min n m) y"
  using assms by (auto simp: overlaps_def Let_def min_def)

text \<open>Overlap means a common address.\<close>

lemma ex_addr: "(\<exists>a. P a) \<longleftrightarrow> (\<exists>w. P (V4 w)) \<or> (\<exists>w z. P (V6 w z))"
  by (metis addr.exhaust)

lemma overlaps_iff_common:
  assumes "valid_prefix p" and "valid_prefix q"
  shows "overlaps p q \<longleftrightarrow> (\<exists>a. contains p a \<and> contains q a)"
proof (cases p; cases q)
  fix a n b m
  assume pq: "p = Prefix a n" "q = Prefix b m"
  show ?thesis
  proof (cases "is4 a = is4 b")
    case True
    then show ?thesis
      using assms pq
      by (cases a; cases b) (simp_all add: ex_addr overlaps_V4 overlaps_V6 high_bits_meet)
  next
    case False
    then show ?thesis
      using assms pq by (cases a; cases b) (simp_all add: ex_addr overlaps_def)
  qed
qed

lemma overlaps_sym: "overlaps p q = overlaps q p"
proof (cases "valid_prefix p \<and> valid_prefix q")
  case True
  then show ?thesis by (auto simp: overlaps_iff_common)
next
  case False
  then show ?thesis by (auto simp: overlaps_def)
qed

lemma overlaps_refl: "valid_prefix p \<Longrightarrow> overlaps p p"
  by (simp add: overlaps_def)

lemma overlaps_masked [simp]:
  "valid_prefix p \<Longrightarrow> valid_prefix q \<Longrightarrow> overlaps (masked p) q = overlaps p q"
  "valid_prefix p \<Longrightarrow> valid_prefix q \<Longrightarrow> overlaps p (masked q) = overlaps p q"
  by (simp_all add: overlaps_iff_common)

end
