(* ===== verification/HostDNS.thy ===== *)
theory HostDNS
  imports Netip
begin

text \<open>
  \<^verbatim>\<open>internal/hostdns\<close>: from a daemon's live status to the resolver specification of an
  instance.  The status messages are netbird's generated protobuf types; the records below
  have the fields the program reads, with Go's zero values where a message is absent (the
  generated getters return them for a nil message).

  \<^verbatim>\<open>ReverseZone\<close> indexes a 4-byte array with a count computed from the prefix length.  An index
  out of range is a run-time panic in Go, so it is a result of its own here.
\<close>

section \<open>Status messages\<close>

record local_peer =
  lp_ip :: string
  lp_fqdn :: string
  lp_ipv6 :: string

record ns_group =
  ng_domains :: "string list"
  ng_enabled :: bool

text \<open>A timestamp as it came in, with the protobuf library's verdict on it.\<close>

record timestamp =
  ts_valid :: bool
  ts_seconds :: int
  ts_nanos :: int

record peer_state =
  ps_fqdn :: string
  ps_ip :: string
  ps_ipv6 :: string
  ps_conn_status :: string
  ps_relayed :: bool
  ps_handshake :: timestamp

record full_status =
  fs_local :: local_peer
  fs_peers :: "peer_state list"
  fs_dns_servers :: "ns_group list"

record status_response =
  st_status :: string
  st_daemon_version :: string
  st_full :: full_status

section \<open>Resolver address\<close>

datatype resolver_error = NotCIDR string | NeedsV4 string

type_synonym addr_port = "addr \<times> nat"

definition resolver_word :: "32 word \<Rightarrow> nat \<Rightarrow> 32 word" where
  "resolver_word network bits = (network OR drop_bit bits (NOT 0)) - 1"

definition resolver_addr :: "string \<Rightarrow> resolver_error + addr_port" where
  "resolver_addr ip_cidr =
     (case parse_prefix ip_cidr of
        None \<Rightarrow> Inl (NotCIDR ip_cidr)
      | Some pfx \<Rightarrow>
          (case pfx_addr (masked pfx) of
             V6 _ _ \<Rightarrow> Inl (NeedsV4 ip_cidr)
           | V4 a \<Rightarrow> Inr (V4 (resolver_word a (pfx_bits pfx)), 53)))"

section \<open>Reverse zones\<close>

datatype zone_result = ZonePanic | ZoneErr string | Zone string

definition canon :: "string \<Rightarrow> string" where
  "canon d = trim_suffix (to_lower (trim_space d)) ''.''"

definition zone_prefix :: "string \<Rightarrow> prefix option" where
  "zone_prefix s =
     (case parse_prefix s of
        Some pfx \<Rightarrow> Some pfx
      | None \<Rightarrow>
          (case parse_addr s of
             None \<Rightarrow> None
           | Some a \<Rightarrow> addr_prefix a (if is6 a then 64 else 16)))"

text \<open>Byte \<open>i\<close> of the address from the left, and half-byte \<open>i\<close> from the left.\<close>

definition v4_label :: "32 word \<Rightarrow> nat \<Rightarrow> string" where
  "v4_label w i = utoa (octet (3 - i) w)"

definition nibble :: "128 word \<Rightarrow> nat \<Rightarrow> nat" where
  "nibble w i = unat (drop_bit (4 * (31 - i)) w AND 0xF)"

definition v4_zone :: "32 word \<Rightarrow> nat \<Rightarrow> string" where
  "v4_zone w n = join (map (v4_label w) (rev [0..<n])) ''.'' @ ''.in-addr.arpa''"

definition v6_zone :: "128 word \<Rightarrow> nat \<Rightarrow> string" where
  "v6_zone w n = join (map (\<lambda>i. [hex_digit (nibble w i)]) (rev [0..<n])) ''.'' @ ''.ip6.arpa''"

definition reverse_zone :: "string \<Rightarrow> zone_result" where
  "reverse_zone s =
     (case zone_prefix s of
        None \<Rightarrow> ZoneErr s
      | Some pfx \<Rightarrow>
          (case unmap (pfx_addr (masked pfx)) of
             V4 w \<Rightarrow>
               (let octets = (pfx_bits pfx + 7) div 8
                in if octets > 4 then ZonePanic else Zone (v4_zone w octets))
           | V6 w _ \<Rightarrow> Zone (v6_zone w ((pfx_bits pfx + 3) div 4))))"

section \<open>Derive\<close>

record spec =
  sp_listen :: addr_port
  sp_search :: "string list"
  sp_match :: "string list"

datatype derive_error = DEResolver resolver_error | DEPrimaryClaim | DEPanic

text \<open>\<^verbatim>\<open>addMatch\<close>: the \<^verbatim>\<open>seen\<close> map always holds exactly the domains collected so far.\<close>

definition add_match :: "string list \<Rightarrow> string \<Rightarrow> string list" where
  "add_match acc d = (let d = canon d in if d \<noteq> [] \<and> d \<notin> set acc then acc @ [d] else acc)"

fun add_domains :: "string list \<Rightarrow> string list \<Rightarrow> string list option" where
  "add_domains acc [] = Some acc"
| "add_domains acc (d # ds) =
     (if canon d = [] then None else add_domains (add_match acc d) ds)"

fun add_groups :: "string list \<Rightarrow> ns_group list \<Rightarrow> string list option" where
  "add_groups acc [] = Some acc"
| "add_groups acc (g # gs) =
     (if \<not> ng_enabled g then add_groups acc gs
      else if ng_domains g = [] then None
      else (case add_domains acc (ng_domains g) of
              None \<Rightarrow> None
            | Some acc' \<Rightarrow> add_groups acc' gs))"

fun add_zones :: "string list \<Rightarrow> string list \<Rightarrow> derive_error + string list" where
  "add_zones acc [] = Inr acc"
| "add_zones acc (s # ss) =
     (if s = [] then add_zones acc ss
      else (case reverse_zone s of
              ZonePanic \<Rightarrow> Inl DEPanic
            | ZoneErr _ \<Rightarrow> add_zones acc ss
            | Zone z \<Rightarrow> add_zones (add_match acc z) ss))"

definition peer_domain :: "string \<Rightarrow> string option" where
  "peer_domain fqdn =
     (case cut (canon fqdn) ''.'' of
        None \<Rightarrow> None
      | Some (_, rest) \<Rightarrow> if rest = [] then None else Some rest)"

definition derive :: "status_response \<Rightarrow> derive_error + spec" where
  "derive st =
     (let lp = fs_local (st_full st)
      in case resolver_addr (lp_ip lp) of
           Inl e \<Rightarrow> Inl (DEResolver e)
         | Inr listen \<Rightarrow>
             (let search = (case peer_domain (lp_fqdn lp) of None \<Rightarrow> [] | Some r \<Rightarrow> [r]);
                  acc = foldl add_match [] search
              in case add_groups acc (fs_dns_servers (st_full st)) of
                   None \<Rightarrow> Inl DEPrimaryClaim
                 | Some acc' \<Rightarrow>
                     (case add_zones acc' [lp_ip lp, lp_ipv6 lp] of
                        Inl e \<Rightarrow> Inl e
                      | Inr acc'' \<Rightarrow>
                          Inr \<lparr>sp_listen = listen, sp_search = search,
                               sp_match = sort acc''\<rparr>)))"

section \<open>Facts about the resolver address\<close>

lemma resolver_word_alt:
  "resolver_word (high_bits b a) b = (a OR mask (32 - b)) - 1"
proof -
  have "high_bits b a OR drop_bit b (NOT 0) = a OR mask (32 - b)"
    by (rule bit_word_eqI) (auto simp: bit_high_bits bit_simps)
  then show ?thesis by (simp add: resolver_word_def)
qed

text \<open>The last address of the block, and membership in the block.\<close>

lemma block_member_le:
  assumes "high_bits b x = high_bits b (a :: 32 word)"
  shows "x \<le> a OR mask (32 - b)"
proof -
  have "x OR mask (32 - b) = high_bits b x OR mask (32 - b)"
    by (rule bit_word_eqI) (auto simp: bit_high_bits bit_simps)
  also have "\<dots> = a OR mask (32 - b)"
    unfolding assms by (rule bit_word_eqI) (auto simp: bit_high_bits bit_simps)
  finally have "x OR mask (32 - b) = a OR mask (32 - b)" .
  moreover have "x \<le> x OR mask (32 - b)" by (rule le_word_or2)
  ultimately show ?thesis by simp
qed

lemma block_last_member: "high_bits b (a OR mask (32 - b)) = high_bits b (a :: 32 word)"
  by (rule bit_word_eqI) (auto simp: bit_high_bits bit_simps)

lemma odd_pred: "bit (x :: 32 word) 0 \<Longrightarrow> x - 1 = x AND NOT 1"
  by (rule disjunctive_diff_eq_and_not, rule bit_word_eqI) (auto simp: bit_simps)

lemma block_resolver_member:
  assumes "b < 32"
  shows "high_bits b ((a OR mask (32 - b)) - 1) = high_bits b (a :: 32 word)"
proof -
  from assms have "bit (a OR mask (32 - b)) 0" by (simp add: bit_simps)
  then have "(a OR mask (32 - b)) - 1 = (a OR mask (32 - b)) AND NOT 1" by (rule odd_pred)
  moreover have "high_bits b ((a OR mask (32 - b)) AND NOT 1) = high_bits b a"
    using assms by (intro bit_word_eqI) (auto simp: bit_high_bits bit_simps)
  ultimately show ?thesis by simp
qed

lemma resolver_addr_V4:
  "parse_prefix s = Some (Prefix (V4 a) b) \<Longrightarrow>
   resolver_addr s = Inr (V4 ((a OR mask (32 - b)) - 1), 53)"
  using parse_prefix_valid [of s "Prefix (V4 a) b"]
  by (simp add: resolver_addr_def masked_def resolver_word_alt)

section \<open>Facts about reverse zones\<close>

lemma byte_range:
  "(\<forall>n < (32::nat). (P n \<and> n < 8) = (Q n \<and> n < 8)) \<longleftrightarrow> (\<forall>j < 8. P j = Q j)"
proof
  assume all: "\<forall>n < 32. (P n \<and> n < 8) = (Q n \<and> n < 8)"
  show "\<forall>j < 8. P j = Q j"
  proof (intro allI impI)
    fix j :: nat assume "j < 8"
    with spec [OF all, of j] show "P j = Q j" by simp
  qed
qed auto

lemma bit_octet: "octet k w = octet k v \<longleftrightarrow> (\<forall>j < 8. bit w (8 * k + j) = bit v (8 * k + j))"
proof -
  have "octet k w = octet k v \<longleftrightarrow> drop_bit (8 * k) w AND 0xFF = drop_bit (8 * k) v AND 0xFF"
    by (simp add: octet_def word_unat_eq_iff)
  also have "(0xFF :: 32 word) = mask 8" by (simp add: mask_eq_exp_minus_1)
  also have "drop_bit (8 * k) w AND mask 8 = drop_bit (8 * k) v AND mask 8 \<longleftrightarrow>
      (\<forall>j < 8. bit w (8 * k + j) = bit v (8 * k + j))"
    by (simp add: bit_eq_iff bit_simps byte_range)
  finally show ?thesis .
qed

lemma octets_high_bits:
  assumes "n \<le> 4"
  shows "(\<forall>i < n. octet (3 - i) w = octet (3 - i) v) \<longleftrightarrow> high_bits (8 * n) w = high_bits (8 * n) v"
proof
  assume oct: "\<forall>i < n. octet (3 - i) w = octet (3 - i) v"
  show "high_bits (8 * n) w = high_bits (8 * n) v"
  proof (rule bit_word_eqI)
    fix k :: nat
    assume k: "k < LENGTH(32)"
    show "bit (high_bits (8 * n) w) k = bit (high_bits (8 * n) v) k"
    proof (cases "32 - 8 * n \<le> k")
      case True
      with assms k have i: "3 - k div 8 < n" and e: "3 - (3 - k div 8) = k div 8" by auto
      from oct i have "octet (3 - (3 - k div 8)) w = octet (3 - (3 - k div 8)) v" by blast
      then have "\<forall>j < 8. bit w (8 * (k div 8) + j) = bit v (8 * (k div 8) + j)"
        unfolding e bit_octet .
      then have "bit w (8 * (k div 8) + k mod 8) = bit v (8 * (k div 8) + k mod 8)"
        by (rule allE [of _ "k mod 8"]) simp
      then have "bit w k = bit v k" by simp
      with True show ?thesis by (simp add: bit_high_bits)
    next
      case False
      then show ?thesis by (simp add: bit_high_bits)
    qed
  qed
next
  assume eq: "high_bits (8 * n) w = high_bits (8 * n) v"
  show "\<forall>i < n. octet (3 - i) w = octet (3 - i) v"
  proof (intro allI impI)
    fix i assume "i < n"
    with assms have low: "32 - 8 * n \<le> 8 * (3 - i) + j" for j by auto
    have "bit (high_bits (8 * n) w) (8 * (3 - i) + j) = bit (high_bits (8 * n) v) (8 * (3 - i) + j)"
      for j by (simp add: eq)
    then show "octet (3 - i) w = octet (3 - i) v"
      unfolding bit_octet using low by (simp add: bit_high_bits)
  qed
qed

lemma utoa_no_dot: "CHR ''.'' \<notin> set (utoa n)"
  using utoa_digits [of n] by (auto simp: list_all_iff is_digit_def)

lemma split_v4_zone:
  assumes "0 < n"
  shows "split_on CHR ''.'' (v4_zone w n) = map (v4_label w) (rev [0..<n]) @ [''in-addr'', ''arpa'']"
proof -
  have "split_on CHR ''.'' (join (map (v4_label w) (rev [0..<n])) ''.'') = map (v4_label w) (rev [0..<n])"
    using assms by (intro split_on_join) (auto simp: v4_label_def utoa_no_dot)
  moreover have "v4_zone w n =
      join (map (v4_label w) (rev [0..<n])) ''.'' @ CHR ''.'' # ''in-addr'' @ CHR ''.'' # ''arpa''"
    by (simp add: v4_zone_def)
  ultimately show ?thesis by (simp add: split_on_append split_on_no_sep del: append_Cons)
qed

text \<open>The name a reverse lookup of an address asks for, and lying in a zone.\<close>

definition ptr_name :: "32 word \<Rightarrow> string" where
  "ptr_name w = v4_zone w 4"

definition in_zone :: "string \<Rightarrow> string \<Rightarrow> bool" where
  "in_zone name zone = (name = zone \<or> has_suffix name (CHR ''.'' # zone))"

lemma v4_zone_split:
  assumes "0 < n" and "n < 4"
  shows "v4_zone w 4 = join (map (v4_label w) (rev [n..<4])) ''.'' @ CHR ''.'' # v4_zone w n"
proof -
  have "rev [0..<4] = rev [n..<4] @ rev [0..<n]"
    using assms upt_add_eq_append [of 0 n "4 - n"] by simp
  with assms show ?thesis
    by (simp add: v4_zone_def join_append)
qed

lemma ptr_in_zone:
  assumes "0 < n" and "n \<le> 4"
  shows "in_zone (ptr_name w) (v4_zone v n) \<longleftrightarrow> high_bits (8 * n) w = high_bits (8 * n) v"
proof
  assume "in_zone (ptr_name w) (v4_zone v n)"
  then obtain q where "split_on CHR ''.'' (ptr_name w) = q @ split_on CHR ''.'' (v4_zone v n)"
    unfolding in_zone_def has_suffix_iff by (auto simp: split_on_append)
  with assms have "map (v4_label w) (rev [0..<4]) = q @ map (v4_label v) (rev [0..<n])"
    by (simp add: ptr_name_def split_v4_zone)
  then have "drop (4 - n) (map (v4_label w) (rev [0..<4])) = map (v4_label v) (rev [0..<n])"
    using assms by (metis add_diff_cancel_right' append_eq_conv_conj length_append length_map
        length_rev length_upt diff_zero)
  moreover have "drop (4 - n) (map (v4_label w) (rev [0..<4])) = map (v4_label w) (rev [0..<n])"
    using assms by (simp add: drop_map rev_nth drop_rev take_upt del: upt_rec_numeral)
  ultimately have "\<forall>i < n. v4_label w i = v4_label v i" by auto
  with assms show "high_bits (8 * n) w = high_bits (8 * n) v"
    by (simp add: v4_label_def octets_high_bits [symmetric])
next
  assume "high_bits (8 * n) w = high_bits (8 * n) v"
  with assms have "\<forall>i < n. octet (3 - i) w = octet (3 - i) v"
    by (simp add: octets_high_bits [symmetric])
  then have "map (v4_label w) (rev [0..<n]) = map (v4_label v) (rev [0..<n])"
    by (simp add: v4_label_def)
  then have same: "v4_zone w n = v4_zone v n" by (simp only: v4_zone_def)
  show "in_zone (ptr_name w) (v4_zone v n)"
  proof (cases "n = 4")
    case True
    with same show ?thesis by (simp add: in_zone_def ptr_name_def)
  next
    case False
    with assms v4_zone_split [of n w] show ?thesis
      by (simp add: in_zone_def ptr_name_def same)
  qed
qed

lemma bit_65535_0: "bit (0xFFFF :: 128 word) 0"
  by simp

lemma is4in6_masked:
  assumes "b \<le> 128"
  shows "drop_bit 32 (high_bits b w :: 128 word) = 0xFFFF \<longleftrightarrow> 96 \<le> b \<and> drop_bit 32 w = 0xFFFF"
proof (cases "96 \<le> b")
  case True
  have "drop_bit 32 (high_bits b w) = drop_bit 32 w"
    using True by (intro bit_word_eqI) (auto simp: bit_simps bit_high_bits)
  with True show ?thesis by simp
next
  case False
  then have "\<not> bit (drop_bit 32 (high_bits b w)) 0"
    by (auto simp: bit_simps bit_high_bits)
  then have "drop_bit 32 (high_bits b w) \<noteq> 0xFFFF"
    by (metis bit_65535_0)
  with False show ?thesis by simp
qed

section \<open>Facts about Derive\<close>

lemma set_add_match: "set (add_match acc d) = set acc \<union> ({canon d} - {[]})"
  by (auto simp: add_match_def Let_def)

lemma distinct_add_match [simp]: "distinct acc \<Longrightarrow> distinct (add_match acc d)"
  by (auto simp: add_match_def Let_def)

lemma add_domains_None: "add_domains acc ds = None \<longleftrightarrow> (\<exists>d \<in> set ds. canon d = [])"
  by (induction acc ds rule: add_domains.induct) auto

lemma add_domains_Some:
  "add_domains acc ds = Some acc' \<Longrightarrow>
   set acc' = set acc \<union> canon ` set ds \<and> (distinct acc \<longrightarrow> distinct acc')"
proof (induction acc ds arbitrary: acc' rule: add_domains.induct)
  case (2 acc d ds)
  then show ?case by (fastforce simp: set_add_match split: if_splits)
qed simp

text \<open>An enabled group that claims all DNS: no domains at all, or an empty or root one.\<close>

definition claims_all :: "ns_group \<Rightarrow> bool" where
  "claims_all g = (ng_enabled g \<and> (ng_domains g = [] \<or> (\<exists>d \<in> set (ng_domains g). canon d = [])))"

lemma add_groups_None: "add_groups acc gs = None \<longleftrightarrow> list_ex claims_all gs"
proof (induction acc gs rule: add_groups.induct)
  case (2 acc g gs)
  have "claims_all g \<longleftrightarrow> ng_enabled g \<and> (ng_domains g = [] \<or> add_domains acc (ng_domains g) = None)"
    by (simp add: claims_all_def add_domains_None)
  with "2" show ?case by (auto split: option.splits)
qed simp

definition group_domains :: "ns_group list \<Rightarrow> string set" where
  "group_domains gs = {canon d | d g. g \<in> set gs \<and> ng_enabled g \<and> d \<in> set (ng_domains g)}"

lemma group_domains_simps [simp]:
  "group_domains [] = {}"
  "group_domains (g # gs) =
     (if ng_enabled g then canon ` set (ng_domains g) else {}) \<union> group_domains gs"
  by (auto simp: group_domains_def)

lemma add_groups_Some:
  "add_groups acc gs = Some acc' \<Longrightarrow>
   set acc' = set acc \<union> group_domains gs \<and> (distinct acc \<longrightarrow> distinct acc')"
proof (induction acc gs arbitrary: acc' rule: add_groups.induct)
  case (2 acc g gs)
  then show ?case
    by (auto split: if_splits option.splits dest: add_domains_Some)
qed simp

definition zones_of :: "string list \<Rightarrow> string set" where
  "zones_of ss = {canon z | z s. s \<in> set ss \<and> s \<noteq> [] \<and> reverse_zone s = Zone z} - {[]}"

lemma zones_of_simps [simp]:
  "zones_of [] = {}"
  "zones_of (s # ss) =
     (case reverse_zone s of Zone z \<Rightarrow> if s = [] then {} else {canon z} - {[]} | _ \<Rightarrow> {}) \<union> zones_of ss"
  by (auto simp: zones_of_def split: zone_result.splits)

lemma add_zones_Inr:
  "add_zones acc ss = Inr acc' \<Longrightarrow>
   set acc' = set acc \<union> zones_of ss \<and> (distinct acc \<longrightarrow> distinct acc')"
  by (induction acc ss arbitrary: acc' rule: add_zones.induct)
     (auto simp: set_add_match split: if_splits zone_result.splits)

lemma add_zones_Inl:
  "add_zones acc ss = Inl e \<longleftrightarrow> e = DEPanic \<and> (\<exists>s \<in> set ss. s \<noteq> [] \<and> reverse_zone s = ZonePanic)"
  by (induction acc ss rule: add_zones.induct) (auto split: zone_result.splits)

lemma reverse_zone_Nil: "reverse_zone [] = ZoneErr []"
  by (simp add: reverse_zone_def zone_prefix_def parse_prefix_def parse_addr_def cut_last_def)

lemma reverse_zone_V4:
  assumes "parse_prefix s = Some (Prefix (V4 a) b)"
  shows "reverse_zone s = Zone (v4_zone (high_bits b a) ((b + 7) div 8))"
  using parse_prefix_valid [OF assms] assms
  by (auto simp: reverse_zone_def zone_prefix_def masked_def Let_def)

lemma addr_prefix_64_not_4in6:
  "addr_prefix (V6 w z) 64 = Some p \<Longrightarrow> unmap (pfx_addr (masked p)) = pfx_addr p"
  using is4in6_masked [of 64 w] by (auto simp: masked_def)

lemma reverse_zone_panic_iff:
  "reverse_zone s = ZonePanic \<longleftrightarrow>
   (\<exists>w b. parse_prefix s = Some (Prefix (V6 w []) b) \<and> 96 \<le> b \<and> is4in6 (V6 w []))"
proof (cases "parse_prefix s")
  case None
  show ?thesis
  proof (cases "parse_addr s")
    case None': None
    with None show ?thesis by (simp add: reverse_zone_def zone_prefix_def)
  next
    case (Some a)
    with None addr_prefix_64_not_4in6 show ?thesis
      by (cases a) (auto simp: reverse_zone_def zone_prefix_def masked_def is6_def Let_def
          split: option.splits)
  qed
next
  case (Some p)
  note v = parse_prefix_valid [OF Some]
  obtain a b where p: "p = Prefix a b" by (cases p)
  show ?thesis
  proof (cases a)
    case (V4 w)
    with Some p reverse_zone_V4 show ?thesis by auto
  next
    case (V6 w z)
    with v p have b: "b \<le> 128" and z: "z = []" by auto
    have "4 < (b + 7) div 8" if "96 \<le> b" using that by auto
    with Some p V6 z b is4in6_masked [OF b, of w] show ?thesis
      by (auto simp: reverse_zone_def zone_prefix_def masked_def Let_def)
  qed
qed

lemma resolver_addr_Inr:
  "resolver_addr s = Inr l \<longleftrightarrow>
   (\<exists>a b. parse_prefix s = Some (Prefix (V4 a) b) \<and>
          l = (V4 ((a OR mask (32 - b)) - 1), 53))"
proof
  assume h: "resolver_addr s = Inr l"
  then obtain p where p: "parse_prefix s = Some p"
    by (auto simp: resolver_addr_def split: option.splits)
  with h have "is4 (pfx_addr (masked p))"
    by (cases "pfx_addr (masked p)") (auto simp: resolver_addr_def simp del: is4_masked)
  then have "is4 (pfx_addr p)" by (simp only: is4_masked)
  then obtain a b where "p = Prefix (V4 a) b" by (cases p; cases "pfx_addr p") auto
  with h p resolver_addr_V4 [of s a b] show
    "\<exists>a b. parse_prefix s = Some (Prefix (V4 a) b) \<and> l = (V4 ((a OR mask (32 - b)) - 1), 53)"
    by auto
qed (auto dest: resolver_addr_V4)

section \<open>Properties\<close>

text \<open>The in-tunnel resolver address.  For a local peer address in IPv4 CIDR form with at
  least one host bit, \<^verbatim>\<open>ResolverAddr\<close> returns port 53 of an address inside the mesh network, and
  the address right above it is the last one of the network; only a \<^verbatim>\<open>/32\<close>, which has no such
  address, makes the decrement leave the network.\<close>

theorem resolver_addr_in_network:
  assumes "parse_prefix s = Some (Prefix (V4 a) b)"
  shows "\<exists>w. resolver_addr s = Inr (V4 w, 53) \<and>
           contains (Prefix (V4 a) b) (V4 (w + 1)) \<and>
           (\<forall>x. contains (Prefix (V4 a) b) (V4 x) \<longrightarrow> x \<le> w + 1) \<and>
           (contains (Prefix (V4 a) b) (V4 w) \<longleftrightarrow> b < 32)"
proof -
  let ?w = "(a OR mask (32 - b)) - 1"
  have b: "b \<le> 32" using parse_prefix_valid [OF assms] by simp
  have last: "?w + 1 = a OR mask (32 - b)" by simp
  have "\<not> contains (Prefix (V4 a) 32) (V4 (a - 1))"
    using block_member_le [of 32 "a - 1" a] by (simp add: high_bits_def)
  then have "contains (Prefix (V4 a) b) (V4 ?w) \<longleftrightarrow> b < 32"
    using b block_resolver_member [of b a] by (cases "b = 32") auto
  then show ?thesis
    using resolver_addr_V4 [OF assms] block_last_member [of b a] block_member_le [of b _ a] last
    by (intro exI [of _ ?w]) auto
qed

theorem resolver_addr_in_network_witness:
  "\<exists>w. resolver_addr ''100.96.43.121/16'' = Inr (V4 w, 53) \<and>
     contains (Prefix (V4 0x64602B79) 16) (V4 (w + 1)) \<and>
     (\<forall>x. contains (Prefix (V4 0x64602B79) 16) (V4 x) \<longrightarrow> x \<le> w + 1) \<and>
     (contains (Prefix (V4 0x64602B79) 16) (V4 w) \<longleftrightarrow> (16::nat) < 32)"
proof -
  have "parse_prefix ''100.96.43.121/16'' = Some (Prefix (V4 0x64602B79) 16)" by code_simp
  then show ?thesis by (rule resolver_addr_in_network)
qed

text \<open>C29: What a reverse zone routes.  For a local peer address in IPv4 CIDR form whose prefix has
  at least one bit, the reverse-lookup name of an address lies in the zone of \<^verbatim>\<open>ReverseZone\<close>
  exactly when the address agrees with the masked network on the prefix length rounded up to
  whole octets; for a prefix length that is a multiple of eight these are exactly the addresses
  of the mesh network.\<close>

theorem reverse_zone_covers:
  assumes "parse_prefix s = Some (Prefix (V4 a) b)" and "0 < b"
  shows "\<exists>z. reverse_zone s = Zone z \<and>
    (\<forall>w. in_zone (ptr_name w) z \<longleftrightarrow>
       high_bits (8 * ((b + 7) div 8)) w = high_bits (8 * ((b + 7) div 8)) (high_bits b a)) \<and>
    (8 dvd b \<longrightarrow> (\<forall>w. in_zone (ptr_name w) z \<longleftrightarrow> contains (Prefix (V4 a) b) (V4 w)))"
proof -
  let ?n = "(b + 7) div 8"
  have "b \<le> 32" using parse_prefix_valid [OF assms(1)] by simp
  with assms(2) have n: "0 < ?n" "?n \<le> 4" by auto
  have "8 * ?n = b" if "8 dvd b" using that by auto
  with n show ?thesis
    using reverse_zone_V4 [OF assms(1)] by (auto simp: ptr_in_zone)
qed

theorem reverse_zone_covers_witness:
  "\<exists>z. reverse_zone ''100.96.43.121/16'' = Zone z \<and>
    (\<forall>w. in_zone (ptr_name w) z \<longleftrightarrow>
       high_bits (8 * ((16 + 7) div 8)) w = high_bits (8 * ((16 + 7) div 8)) (high_bits 16 0x64602B79)) \<and>
    (8 dvd (16::nat) \<longrightarrow> (\<forall>w. in_zone (ptr_name w) z \<longleftrightarrow> contains (Prefix (V4 0x64602B79) 16) (V4 w)))"
proof -
  have "parse_prefix ''100.96.43.121/16'' = Some (Prefix (V4 0x64602B79) 16)" by code_simp
  then show ?thesis by (rule reverse_zone_covers) simp
qed

text \<open>C6: The specification \<^verbatim>\<open>Derive\<close> returns.  Its match domains are strictly sorted (so none is
  repeated), none is empty, and they are exactly the peer domain, the domains of the enabled
  nameserver groups and the reverse zones of the mesh, in canonical form; the search domain is
  the peer domain.\<close>

theorem derive_spec_exact:
  assumes "derive st = Inr sp"
  shows "sorted_wrt (<) (sp_match sp) \<and> [] \<notin> set (sp_match sp) \<and>
    set (sp_match sp) =
      ({canon r | r. peer_domain (lp_fqdn (fs_local (st_full st))) = Some r} - {[]}) \<union>
      group_domains (fs_dns_servers (st_full st)) \<union>
      zones_of [lp_ip (fs_local (st_full st)), lp_ipv6 (fs_local (st_full st))] \<and>
    set (sp_search sp) = {r. peer_domain (lp_fqdn (fs_local (st_full st))) = Some r} \<and>
    resolver_addr (lp_ip (fs_local (st_full st))) = Inr (sp_listen sp)"
proof -
  let ?lp = "fs_local (st_full st)" and ?gs = "fs_dns_servers (st_full st)"
  let ?s = "case peer_domain (lp_fqdn ?lp) of None \<Rightarrow> [] | Some r \<Rightarrow> [r]"
  let ?acc = "foldl add_match [] ?s"
  from assms obtain listen acc1 acc2 where
      l: "resolver_addr (lp_ip ?lp) = Inr listen" and
      g: "add_groups ?acc ?gs = Some acc1" and
      z: "add_zones acc1 [lp_ip ?lp, lp_ipv6 ?lp] = Inr acc2" and
      sp: "sp = \<lparr>sp_listen = listen, sp_search = ?s, sp_match = sort acc2\<rparr>"
    unfolding derive_def Let_def by (auto split: sum.splits option.splits)
  have s: "set ?acc = {canon r | r. peer_domain (lp_fqdn ?lp) = Some r} - {[]}" "distinct ?acc"
    by (auto simp: set_add_match split: option.splits)
  from g have "\<not> list_ex claims_all ?gs" using add_groups_None [of ?acc ?gs] by auto
  then have "[] \<notin> group_domains ?gs"
    by (auto simp: group_domains_def claims_all_def list_ex_iff) (metis)
  moreover have "[] \<notin> zones_of xs" for xs by (simp add: zones_of_def)
  moreover have "set ?s = {r. peer_domain (lp_fqdn ?lp) = Some r}" by (auto split: option.splits)
  ultimately show ?thesis
    using add_groups_Some [OF g] add_zones_Inr [OF z] s l
    by (simp add: sp strict_sorted_iff del: zones_of_simps)
qed

definition example_status :: "string \<Rightarrow> string \<Rightarrow> string \<Rightarrow> ns_group list \<Rightarrow> status_response" where
  "example_status fqdn ip ip6 gs =
     \<lparr>st_status = ''Connected'', st_daemon_version = ''0.77.1'',
      st_full = \<lparr>fs_local = \<lparr>lp_ip = ip, lp_fqdn = fqdn, lp_ipv6 = ip6\<rparr>, fs_peers = [],
                 fs_dns_servers = gs\<rparr>\<rparr>"

theorem derive_spec_exact_witness:
  "\<exists>sp. derive (example_status ''mac.mesh.example'' ''100.96.43.121/16'' []
          [\<lparr>ng_domains = [''Corp.Example.''], ng_enabled = True\<rparr>]) = Inr sp \<and>
     sorted_wrt (<) (sp_match sp) \<and>
     sp_match sp = [''96.100.in-addr.arpa'', ''corp.example'', ''mesh.example'']"
proof -
  have "derive (example_status ''mac.mesh.example'' ''100.96.43.121/16'' []
          [\<lparr>ng_domains = [''Corp.Example.''], ng_enabled = True\<rparr>]) =
        Inr \<lparr>sp_listen = (V4 0x6460FFFE, 53), sp_search = [''mesh.example''],
             sp_match = [''96.100.in-addr.arpa'', ''corp.example'', ''mesh.example'']\<rparr>"
    by code_simp
  with derive_spec_exact [OF this, THEN conjunct1] show ?thesis by auto
qed

text \<open>C28: When \<^verbatim>\<open>Derive\<close> fails, on every branch.  It fails on the resolver address exactly when
  that is not an IPv4 CIDR; otherwise it refuses a primary-resolver claim exactly when an
  enabled nameserver group has no match domain or an empty one (disabled groups never count);
  otherwise it fails only by the run-time panic of \<^verbatim>\<open>ReverseZone\<close>, on an IPv4-mapped IPv6 local
  address whose prefix length is at least 96, where a 4-byte array is indexed out of range.\<close>

theorem derive_failures:
  "(case derive st of
      Inl (DEResolver e) \<Rightarrow> resolver_addr (lp_ip (fs_local (st_full st))) = Inl e
    | Inl DEPrimaryClaim \<Rightarrow>
        is_ok (resolver_addr (lp_ip (fs_local (st_full st)))) \<and>
        list_ex claims_all (fs_dns_servers (st_full st))
    | Inl DEPanic \<Rightarrow>
        is_ok (resolver_addr (lp_ip (fs_local (st_full st)))) \<and>
        \<not> list_ex claims_all (fs_dns_servers (st_full st)) \<and>
        (\<exists>w b. parse_prefix (lp_ipv6 (fs_local (st_full st))) = Some (Prefix (V6 w []) b) \<and>
               96 \<le> b \<and> is4in6 (V6 w []))
    | Inr _ \<Rightarrow>
        is_ok (resolver_addr (lp_ip (fs_local (st_full st)))) \<and>
        \<not> list_ex claims_all (fs_dns_servers (st_full st)) \<and>
        \<not> (\<exists>w b. parse_prefix (lp_ipv6 (fs_local (st_full st))) = Some (Prefix (V6 w []) b) \<and>
               96 \<le> b \<and> is4in6 (V6 w [])))"
proof -
  let ?lp = "fs_local (st_full st)" and ?gs = "fs_dns_servers (st_full st)"
  let ?acc = "foldl add_match [] (case peer_domain (lp_fqdn ?lp) of None \<Rightarrow> [] | Some r \<Rightarrow> [r])"
  show ?thesis
  proof (cases "resolver_addr (lp_ip ?lp)")
    case (Inl e)
    then show ?thesis by (simp add: derive_def Let_def)
  next
    case (Inr listen)
    then have v4: "reverse_zone (lp_ip ?lp) \<noteq> ZonePanic"
      by (auto simp: resolver_addr_Inr reverse_zone_V4)
    have panic: "(\<exists>s \<in> set [lp_ip ?lp, lp_ipv6 ?lp]. s \<noteq> [] \<and> reverse_zone s = ZonePanic) \<longleftrightarrow>
        (\<exists>w b. parse_prefix (lp_ipv6 ?lp) = Some (Prefix (V6 w []) b) \<and> 96 \<le> b \<and>
               is4in6 (V6 w []))"
      by (simp only: reverse_zone_panic_iff [symmetric]) (use v4 reverse_zone_Nil in auto)
    show ?thesis
    proof (cases "add_groups ?acc ?gs")
      case None
      with Inr add_groups_None [of ?acc ?gs] show ?thesis by (simp add: derive_def Let_def)
    next
      case (Some acc1)
      then have "\<not> list_ex claims_all ?gs" using add_groups_None [of ?acc ?gs] by auto
      note ok = Inr Some this
      let ?ips = "[lp_ip ?lp, lp_ipv6 ?lp]"
      show ?thesis
      proof (cases "add_zones acc1 ?ips")
        case (Inl e)
        then have "e = DEPanic" and "\<exists>s \<in> set ?ips. s \<noteq> [] \<and> reverse_zone s = ZonePanic"
          using add_zones_Inl by blast+
        with ok Inl panic show ?thesis by (simp add: derive_def Let_def del: add_zones.simps)
      next
        case Inr': (Inr acc2)
        then have "\<not> (\<exists>s \<in> set ?ips. s \<noteq> [] \<and> reverse_zone s = ZonePanic)"
          using add_zones_Inl [of acc1 ?ips DEPanic] by auto
        with ok Inr' panic show ?thesis by (simp add: derive_def Let_def del: add_zones.simps)
      qed
    qed
  qed
qed

end
