(* ===== verification/Paths.thy ===== *)
theory Paths
  imports GoStrings
begin

text \<open>
  Go's \<^verbatim>\<open>path/filepath\<close> on Unix: \<^verbatim>\<open>Clean\<close>, \<^verbatim>\<open>Join\<close>, \<^verbatim>\<open>Dir\<close> and \<^verbatim>\<open>Base\<close>.  A cleaned path is a
  rooted flag and a stack of elements (innermost first); the facts below say that joining a
  plain element pushes it on that stack, which is what makes the per-instance paths disjoint.
\<close>

section \<open>Clean, Join, Dir, Base\<close>

definition is_rooted :: "string \<Rightarrow> bool" where
  "is_rooted p = has_prefix p ''/''"

definition clean_step :: "bool \<Rightarrow> string list \<Rightarrow> string \<Rightarrow> string list" where
  "clean_step rooted st e =
     (if e = [] \<or> e = ''.'' then st
      else if e = ''..'' then
        (if st \<noteq> [] \<and> hd st \<noteq> ''..'' then tl st else if rooted then st else e # st)
      else e # st)"

definition path_parts :: "string \<Rightarrow> string list" where
  "path_parts p = foldl (clean_step (is_rooted p)) [] (split_on CHR ''/'' p)"

definition render_path :: "bool \<Rightarrow> string list \<Rightarrow> string" where
  "render_path rooted st =
     (if rooted then CHR ''/'' # join (rev st) ''/''
      else if st = [] then ''.'' else join (rev st) ''/'')"

definition clean :: "string \<Rightarrow> string" where
  "clean p = render_path (is_rooted p) (path_parts p)"

definition path_join :: "string list \<Rightarrow> string" where
  "path_join es =
     (case dropWhile (\<lambda>e. e = []) es of [] \<Rightarrow> [] | e # es' \<Rightarrow> clean (join (e # es') ''/''))"

definition path_dir :: "string \<Rightarrow> string" where
  "path_dir p =
     (case cut_last CHR ''/'' p of None \<Rightarrow> ''.'' | Some (b, _) \<Rightarrow> clean (b @ ''/''))"

definition path_base :: "string \<Rightarrow> string" where
  "path_base p =
     (if p = [] then ''.''
      else let q = rev (dropWhile (\<lambda>c. c = CHR ''/'') (rev p))
           in case cut_last CHR ''/'' q of
                None \<Rightarrow> (if q = [] then ''/'' else q)
              | Some (_, a) \<Rightarrow> a)"

section \<open>Normal stacks\<close>

text \<open>An element that \<^verbatim>\<open>Clean\<close> neither drops nor resolves.\<close>

definition plain_elem :: "string \<Rightarrow> bool" where
  "plain_elem e \<longleftrightarrow> e \<noteq> [] \<and> e \<noteq> ''.'' \<and> e \<noteq> ''..'' \<and> CHR ''/'' \<notin> set e"

fun normal_stack :: "bool \<Rightarrow> string list \<Rightarrow> bool" where
  "normal_stack r [] = True"
| "normal_stack r (e # st) =
     (normal_stack r st \<and> (plain_elem e \<or> e = ''..'' \<and> \<not> r \<and> (st = [] \<or> hd st = ''..'')))"

lemma clean_step_normal:
  "normal_stack r st \<Longrightarrow> CHR ''/'' \<notin> set e \<Longrightarrow> normal_stack r (clean_step r st e)"
  by (cases st) (auto simp: clean_step_def plain_elem_def)

lemma foldl_clean_normal:
  "normal_stack r st \<Longrightarrow> (\<And>e. e \<in> set es \<Longrightarrow> CHR ''/'' \<notin> set e) \<Longrightarrow>
   normal_stack r (foldl (clean_step r) st es)"
  by (induction es arbitrary: st) (auto simp: clean_step_normal)

lemma split_on_elem: "e \<in> set (split_on c s) \<Longrightarrow> c \<notin> set e"
  unfolding split_on_def using set_split_by by fastforce

lemma path_parts_normal [simp]: "normal_stack (is_rooted p) (path_parts p)"
  unfolding path_parts_def by (rule foldl_clean_normal) (auto dest: split_on_elem)

lemma clean_step_plain: "plain_elem e \<Longrightarrow> clean_step r st e = e # st"
  by (auto simp: clean_step_def plain_elem_def)

lemma foldl_clean_id: "normal_stack r st \<Longrightarrow> foldl (clean_step r) [] (rev st) = st"
proof (induction st)
  case Nil
  then show ?case by simp
next
  case (Cons e st)
  then show ?case by (auto simp: clean_step_plain) (auto simp: clean_step_def)
qed

lemma normal_stack_elems:
  "normal_stack r st \<Longrightarrow> e \<in> set st \<Longrightarrow> e \<noteq> [] \<and> CHR ''/'' \<notin> set e"
  by (induction st) (auto simp: plain_elem_def)

lemma join_hd:
  "xs \<noteq> [] \<Longrightarrow> hd xs \<noteq> [] \<Longrightarrow> hd (join xs sep) = hd (hd xs) \<and> join xs sep \<noteq> []"
  by (induction xs sep rule: join.induct) auto

lemma is_rooted_render [simp]:
  assumes "normal_stack r st"
  shows "is_rooted (render_path r st) = r"
proof (cases r)
  case True
  then show ?thesis by (simp add: render_path_def is_rooted_def)
next
  case r: False
  show ?thesis
  proof (cases "st = []")
    case True
    with r show ?thesis by (simp add: render_path_def is_rooted_def)
  next
    case False
    then have "hd (rev st) \<in> set st" by (metis hd_in_set rev_is_Nil_conv set_rev)
    with normal_stack_elems [OF assms]
    have h: "hd (rev st) \<noteq> []" "CHR ''/'' \<notin> set (hd (rev st))" by auto
    with False join_hd [of "rev st" "''/''"]
    have "hd (join (rev st) ''/'') = hd (hd (rev st))" and ne: "join (rev st) ''/'' \<noteq> []"
      by auto
    with h have "hd (join (rev st) ''/'') \<noteq> CHR ''/''"
      by (metis hd_in_set)
    with ne r False show ?thesis
      by (cases "join (rev st) ''/''") (auto simp: render_path_def is_rooted_def)
  qed
qed

lemma path_parts_render [simp]:
  assumes "normal_stack r st"
  shows "path_parts (render_path r st) = st"
proof -
  have sep: "CHR ''/'' \<notin> set e" if "e \<in> set (rev st)" for e
    using normal_stack_elems [OF assms] that by auto
  have root: "is_rooted (render_path r st) = r" by (rule is_rooted_render) fact
  have parts: "foldl (clean_step r) [] (rev st) = st" by (rule foldl_clean_id) fact
  have empty: "clean_step r [] [] = []" by (simp add: clean_step_def)
  show ?thesis
  proof (cases "st = []")
    case True
    then show ?thesis
      by (cases r) (simp_all add: path_parts_def render_path_def is_rooted_def split_on_def
          clean_step_def)
  next
    case False
    with sep have split: "split_on CHR ''/'' (join (rev st) ''/'') = rev st"
      by (intro split_on_join) auto
    have slash: "split_on CHR ''/'' (CHR ''/'' # s) = [] # split_on CHR ''/'' s" for s
      by (simp add: split_on_def)
    from False split slash root parts empty show ?thesis
      by (cases r) (simp_all add: path_parts_def render_path_def)
  qed
qed

lemma render_path_inject:
  assumes "normal_stack r st" and "normal_stack r' st'"
  shows "render_path r st = render_path r' st' \<longleftrightarrow> r = r' \<and> st = st'"
proof
  assume eq: "render_path r st = render_path r' st'"
  have "is_rooted (render_path r st) = is_rooted (render_path r' st')" by (simp only: eq)
  then have r: "r = r'"
    by (simp only: is_rooted_render [OF assms(1)] is_rooted_render [OF assms(2)])
  have "path_parts (render_path r st) = path_parts (render_path r' st')" by (simp only: eq)
  then have "st = st'"
    by (simp only: path_parts_render [OF assms(1)] path_parts_render [OF assms(2)])
  with r show "r = r' \<and> st = st'" by simp
qed simp

lemma is_rooted_clean [simp]: "is_rooted (clean p) = is_rooted p"
  and path_parts_clean [simp]: "path_parts (clean p) = path_parts p"
  by (simp_all add: clean_def)

lemma clean_idem [simp]: "clean (clean p) = clean p"
  by (simp add: clean_def)

section \<open>Joining a plain element\<close>

lemma is_rooted_append: "p \<noteq> [] \<Longrightarrow> is_rooted (p @ q) = is_rooted p"
  by (cases p) (simp_all add: is_rooted_def)

lemma path_parts_append:
  assumes "p \<noteq> []" and "plain_elem e"
  shows "path_parts (p @ CHR ''/'' # e) = e # path_parts p"
proof -
  from assms(2) have "CHR ''/'' \<notin> set e" by (simp add: plain_elem_def)
  from split_on_no_sep [OF this]
  have "split_on CHR ''/'' (p @ CHR ''/'' # e) = split_on CHR ''/'' p @ [e]"
    by (simp only: split_on_append)
  then show ?thesis
    by (simp only: path_parts_def is_rooted_append [OF assms(1)] foldl_append foldl.simps
        clean_step_plain [OF assms(2)])
qed

lemma path_parts_elem:
  assumes "plain_elem e"
  shows "path_parts e = [e]" and "\<not> is_rooted e"
proof -
  from assms have sep: "CHR ''/'' \<notin> set e" by (simp add: plain_elem_def)
  then show "path_parts e = [e]"
    by (simp only: path_parts_def split_on_no_sep [OF sep] foldl.simps clean_step_plain [OF assms])
  from sep show "\<not> is_rooted e" by (cases e) (auto simp: is_rooted_def)
qed

lemma path_parts_Nil [simp]: "path_parts [] = []" "is_rooted [] = False"
  by (simp_all add: path_parts_def split_on_def clean_step_def is_rooted_def)

lemma path_join2:
  assumes "plain_elem e"
  shows "path_join [d, e] = render_path (is_rooted d) (e # path_parts d)"
proof (cases "d = []")
  case True
  with assms show ?thesis
    by (cases e) (simp_all add: path_join_def clean_def path_parts_elem plain_elem_def)
next
  case False
  with assms show ?thesis
    by (simp add: path_join_def clean_def path_parts_append is_rooted_append)
qed

lemma path_join_parts [path_simps]:
  assumes "plain_elem e"
  shows "path_parts (path_join [d, e]) = e # path_parts d"
    and "is_rooted (path_join [d, e]) = is_rooted d"
  using assms path_join2 [OF assms, of d] by simp_all

lemma path_join_inject [path_simps]:
  assumes "plain_elem e" and "plain_elem f"
  shows "path_join [d, e] = path_join [d', f] \<longleftrightarrow>
    is_rooted d = is_rooted d' \<and> path_parts d = path_parts d' \<and> e = f"
  using assms by (auto simp: path_join2 render_path_inject)

text \<open>A path strictly below a directory.\<close>

definition below :: "string \<Rightarrow> string \<Rightarrow> bool" where
  "below d p \<longleftrightarrow> is_rooted p = is_rooted d \<and> (\<exists>k. k \<noteq> [] \<and> path_parts p = k @ path_parts d)"

lemma below_join [path_simps]: "plain_elem e \<Longrightarrow> below d (path_join [d, e])"
  unfolding below_def by (auto simp: path_simps intro!: exI [of _ "[e]"])

lemma below_trans: "below a b \<Longrightarrow> below b c \<Longrightarrow> below a c"
  unfolding below_def by force

lemma below_irrefl: "\<not> below d d"
  by (simp add: below_def)

section \<open>Directory and base of a joined path\<close>

lemma path_parts_slash: "p \<noteq> [] \<Longrightarrow> path_parts (p @ ''/'') = path_parts p"
  using split_on_append [of "CHR ''/''" p "[]"]
  by (simp add: path_parts_def is_rooted_append split_on_def clean_step_def)

lemma render_path_snoc:
  assumes "st \<noteq> []"
  shows "render_path r (e # st) = render_path r st @ CHR ''/'' # e"
  using assms by (cases r) (simp_all add: render_path_def join_append [of "rev st" "[e]"])

lemma render_path_ne: "normal_stack r st \<Longrightarrow> render_path r st \<noteq> []"
proof (cases "st = []")
  case False
  assume "normal_stack r st"
  then have "hd (rev st) \<noteq> []"
    using False normal_stack_elems by (metis hd_in_set rev_is_Nil_conv set_rev)
  then show ?thesis using False join_hd [of "rev st" "''/''"] by (auto simp: render_path_def)
qed (auto simp: render_path_def)

lemma path_dir_join [path_simps]:
  assumes "plain_elem e"
  shows "path_dir (path_join [d, e]) = clean d"
proof -
  let ?r = "is_rooted d" and ?st = "path_parts d"
  have e: "CHR ''/'' \<notin> set e" using assms by (simp add: plain_elem_def)
  show ?thesis
  proof (cases "?st = []")
    case True
    have "clean ''/'' = ''/''" by code_simp
    moreover have "clean d = render_path ?r []" by (simp add: clean_def True)
    moreover have "cut_last CHR ''/'' e = None" using e by (simp add: cut_last_def)
    ultimately show ?thesis
      using cut_last_sep [OF e, of "[]"]
      by (cases ?r) (simp_all add: path_dir_def path_join2 [OF assms] True render_path_def)
  next
    case False
    have "path_dir (path_join [d, e]) = clean (render_path ?r ?st @ ''/'')"
      using cut_last_sep [OF e, of "render_path ?r ?st"]
      by (simp add: path_dir_def path_join2 [OF assms] render_path_snoc [OF False])
    also have "\<dots> = clean d"
      using render_path_ne [OF path_parts_normal [of d]]
      by (simp add: clean_def path_parts_slash is_rooted_append)
    finally show ?thesis .
  qed
qed

lemma path_base_join [path_simps]:
  assumes "plain_elem e"
  shows "path_base (path_join [d, e]) = e"
proof -
  let ?r = "is_rooted d" and ?st = "path_parts d"
  have e: "CHR ''/'' \<notin> set e" "e \<noteq> []" using assms by (simp_all add: plain_elem_def)
  obtain b where b: "path_join [d, e] = e \<or> path_join [d, e] = b @ CHR ''/'' # e"
    using render_path_snoc [of ?st ?r e]
    by (cases "?st = []"; cases ?r) (auto simp: path_join2 [OF assms] render_path_def)
  have "rev (dropWhile (\<lambda>c. c = CHR ''/'') (rev (x @ e))) = x @ e" for x
    using e by (cases e rule: rev_cases) auto
  from this [of "[]"] this [of "b @ ''/''"]
  have "rev (dropWhile (\<lambda>c. c = CHR ''/'') (rev (path_join [d, e]))) = path_join [d, e]"
    using b by auto
  moreover have "path_join [d, e] \<noteq> []" using b e by auto
  moreover have "cut_last CHR ''/'' e = None" using e by (simp add: cut_last_def)
  ultimately show ?thesis
    using b e(2) cut_last_sep [OF e(1), of b] by (auto simp: path_base_def)
qed

lemma clean_join [simp]: "plain_elem e \<Longrightarrow> clean (path_join [d, e]) = path_join [d, e]"
  by (simp add: path_join2 clean_def)

end
