(* ===== verification/Instance.thy ===== *)
theory Instance
  imports Paths
begin

text \<open>
  \<^verbatim>\<open>internal/instance/instance.go\<close> and the name check of \<^verbatim>\<open>internal/instance/store.go\<close>:
  the instance record, its DNS mode, the isolation parameters derived from it, the migration
  of the legacy DNS flag, and the two redacted renderings.

  Go's \<^verbatim>\<open>DNSMode\<close> is a string type, and a mode read from a file is not validated, so it is a
  string here too.  Machine integers (index, port) are \<open>int\<close>: no arithmetic of the program
  on them comes near the 64-bit range.
\<close>

section \<open>DNS modes\<close>

type_synonym dns_mode = string

definition DNSNative :: dns_mode where "DNSNative = ''native''"
definition DNSMultibird :: dns_mode where "DNSMultibird = ''multibird''"
definition DNSDisabled :: dns_mode where "DNSDisabled = ''disabled''"

definition parse_dns_mode :: "string \<Rightarrow> dns_mode option" where
  "parse_dns_mode s =
     (if s = DNSNative \<or> s = DNSMultibird \<or> s = DNSDisabled then Some s else None)"

definition dns_disable_sys :: "dns_mode \<Rightarrow> bool" where
  "dns_disable_sys m = (m \<noteq> DNSNative)"

lemmas dns_mode_defs = DNSNative_def DNSMultibird_def DNSDisabled_def

lemma dns_modes_distinct [simp]:
  "DNSNative \<noteq> DNSMultibird" "DNSMultibird \<noteq> DNSNative"
  "DNSNative \<noteq> DNSDisabled" "DNSDisabled \<noteq> DNSNative"
  "DNSMultibird \<noteq> DNSDisabled" "DNSDisabled \<noteq> DNSMultibird"
  "DNSNative \<noteq> []" "DNSMultibird \<noteq> []" "DNSDisabled \<noteq> []"
  by (simp_all add: dns_mode_defs)

section \<open>The instance and its parameters\<close>

definition default_base_port :: int where
  "default_base_port = 51900"

record inst =
  i_name :: string
  i_management_url :: string
  i_setup_key :: string
  i_sso :: bool
  i_netbird_bin :: string
  i_index :: int
  i_wireguard_port :: int
  i_dns_mode :: dns_mode
  i_legacy_disable_dns :: bool
  i_logged_in :: bool
  i_interface :: string

record params =
  p_dir :: string
  p_toml_path :: string
  p_config_json :: string
  p_log_file :: string
  p_socket_path :: string
  p_daemon_addr :: string
  p_pid_file :: string
  p_wg_port :: int
  p_state_dir :: string

definition derive_params :: "inst \<Rightarrow> string \<Rightarrow> string \<Rightarrow> params" where
  "derive_params i config_root run_dir =
     (let dir = path_join [config_root, i_name i];
          sock = path_join [run_dir, i_name i @ ''.sock''];
          port = (if i_wireguard_port i = 0 then default_base_port + i_index i
                  else i_wireguard_port i)
      in \<lparr>p_dir = dir,
          p_toml_path = path_join [dir, ''instance.toml''],
          p_config_json = path_join [dir, ''config.json''],
          p_log_file = path_join [dir, ''daemon.log''],
          p_socket_path = sock,
          p_daemon_addr = ''unix://'' @ sock,
          p_pid_file = path_join [run_dir, i_name i @ ''.pid''],
          p_wg_port = port,
          p_state_dir = path_join [dir, ''state'']\<rparr>)"

section \<open>Migration\<close>

text \<open>\<^verbatim>\<open>Normalize\<close> returns whether the instance changed; here with the changed instance.\<close>

definition normalize :: "inst \<Rightarrow> bool \<times> inst" where
  "normalize i =
     (if i_dns_mode i \<noteq> [] then (False, i)
      else (True, i\<lparr>i_dns_mode := (if i_legacy_disable_dns i then DNSDisabled else DNSNative),
                   i_legacy_disable_dns := False\<rparr>))"

section \<open>Redacted renderings\<close>

definition inst_string :: "inst \<Rightarrow> string" where
  "inst_string i =
     (let key = (if i_setup_key i \<noteq> [] then '' setup_key=<redacted>'' else [])
      in ''instance '' @ i_name i @ '' (mgmt='' @ i_management_url i @ '' index='' @
         itoa (i_index i) @ key @ '')'')"

text \<open>What \<^verbatim>\<open>MarshalJSON\<close> hands to the JSON encoder.\<close>

record redacted =
  r_name :: string
  r_management_url :: string
  r_sso :: bool
  r_netbird_bin :: string
  r_index :: int
  r_wireguard_port :: int
  r_dns_mode :: string
  r_logged_in :: bool
  r_interface :: string
  r_has_setup_key :: bool

definition marshal_json :: "inst \<Rightarrow> redacted" where
  "marshal_json i =
     \<lparr>r_name = i_name i, r_management_url = i_management_url i, r_sso = i_sso i,
      r_netbird_bin = i_netbird_bin i, r_index = i_index i,
      r_wireguard_port = i_wireguard_port i, r_dns_mode = i_dns_mode i,
      r_logged_in = i_logged_in i, r_interface = i_interface i,
      r_has_setup_key = (i_setup_key i \<noteq> [])\<rparr>"

section \<open>Names\<close>

definition name_start_char :: "char \<Rightarrow> bool" where
  "name_start_char c =
     (CHR ''a'' \<le> c \<and> c \<le> CHR ''z'' \<or> CHR ''0'' \<le> c \<and> c \<le> CHR ''9'')"

definition name_char :: "char \<Rightarrow> bool" where
  "name_char c = (name_start_char c \<or> c = CHR ''-'')"

text \<open>The regular expression \<^verbatim>\<open>^[a-z0-9][a-z0-9-]{0,30}$\<close>.\<close>

fun valid_name :: "string \<Rightarrow> bool" where
  "valid_name [] = False"
| "valid_name (c # cs) = (name_start_char c \<and> list_all name_char cs \<and> length cs \<le> 30)"

section \<open>Facts\<close>

lemma name_char_range:
  "name_char c \<Longrightarrow> (of_char c :: nat) \<in> {45} \<union> {48..57} \<union> {97..122}"
  by (auto simp: name_char_def name_start_char_def less_eq_char_def)

lemma valid_name_chars: "valid_name n \<Longrightarrow> c \<in> set n \<Longrightarrow> name_char c"
  by (cases n) (auto simp: name_char_def list_all_iff)

lemma valid_name_no_special:
  assumes "valid_name n"
  shows "CHR ''/'' \<notin> set n" and "CHR ''.'' \<notin> set n" and "CHR '' '' \<notin> set n"
    and "CHR 0x0A \<notin> set n" and "n \<noteq> []"
proof -
  have *: "c \<notin> set n" if "(of_char c :: nat) \<notin> {45} \<union> {48..57} \<union> {97..122}" for c
    using valid_name_chars [OF assms] name_char_range that by blast
  show "CHR ''/'' \<notin> set n" "CHR ''.'' \<notin> set n" "CHR '' '' \<notin> set n" "CHR 0x0A \<notin> set n"
    by (rule *; simp)+
  show "n \<noteq> []" using assms by auto
qed

lemma valid_name_plain:
  assumes "valid_name n"
  shows "plain_elem n" and "plain_elem (n @ ''.sock'')" and "plain_elem (n @ ''.pid'')"
proof -
  note ns = valid_name_no_special [OF assms]
  from ns have hd: "hd n \<noteq> CHR ''.''" by (metis hd_in_set)
  with ns show "plain_elem n" "plain_elem (n @ ''.sock'')" "plain_elem (n @ ''.pid'')"
    by (cases n; auto simp: plain_elem_def)+
qed

lemma plain_elem_const [simp]:
  "plain_elem ''instance.toml''" "plain_elem ''config.json''"
  "plain_elem ''daemon.log''" "plain_elem ''state''"
  by (simp_all add: plain_elem_def)

lemma derive_params_simps [simp]:
  "p_dir (derive_params i root run) = path_join [root, i_name i]"
  "p_toml_path (derive_params i root run) = path_join [path_join [root, i_name i], ''instance.toml'']"
  "p_config_json (derive_params i root run) = path_join [path_join [root, i_name i], ''config.json'']"
  "p_log_file (derive_params i root run) = path_join [path_join [root, i_name i], ''daemon.log'']"
  "p_socket_path (derive_params i root run) = path_join [run, i_name i @ ''.sock'']"
  "p_daemon_addr (derive_params i root run) = ''unix://'' @ path_join [run, i_name i @ ''.sock'']"
  "p_pid_file (derive_params i root run) = path_join [run, i_name i @ ''.pid'']"
  "p_wg_port (derive_params i root run) =
     (if i_wireguard_port i = 0 then default_base_port + i_index i else i_wireguard_port i)"
  "p_state_dir (derive_params i root run) = path_join [path_join [root, i_name i], ''state'']"
  by (simp_all add: derive_params_def Let_def)

text \<open>Every file-system path that belongs to one instance.\<close>

definition owned_paths :: "params \<Rightarrow> string list" where
  "owned_paths p =
     [p_dir p, p_toml_path p, p_config_json p, p_log_file p, p_state_dir p,
      p_socket_path p, p_pid_file p]"

text \<open>
  Where an owned path sits: the element stack relative to the config root or the run
  directory.  The names of the two kinds of files never meet, because a valid name has no dot.
\<close>

lemma owned_paths_parts:
  assumes "valid_name (i_name i)" and "p \<in> set (owned_paths (derive_params i root run))"
  shows "(\<exists>f. path_parts p = f @ i_name i # path_parts root \<and> is_rooted p = is_rooted root \<and>
              f \<in> {[], [''instance.toml''], [''config.json''], [''daemon.log''], [''state'']}) \<or>
         (\<exists>x. path_parts p = (i_name i @ x) # path_parts run \<and> is_rooted p = is_rooted run \<and>
              x \<in> {''.sock'', ''.pid''})"
  using assms valid_name_plain [OF assms(1)]
  by (auto simp: owned_paths_def path_simps)

lemma dotted_name_neq:
  assumes "valid_name n" and "valid_name m" and "x \<in> {''.sock'', ''.pid''}"
  shows "n @ x \<noteq> m"
    and "n @ x \<notin> {''instance.toml'', ''config.json'', ''daemon.log'', ''state''}"
proof -
  from assms(3) have dot: "CHR ''.'' \<in> set (n @ x)" by auto
  with valid_name_no_special(2) [OF assms(2)] show "n @ x \<noteq> m" by auto
  have "last (n @ x) \<in> {CHR ''k'', CHR ''d''} \<and> last (butlast (n @ x)) \<in> {CHR ''c'', CHR ''i''}"
    using assms(3) by (auto simp: butlast_append)
  then show "n @ x \<notin> {''instance.toml'', ''config.json'', ''daemon.log'', ''state''}"
    by auto
qed

lemma dotted_name_inject:
  assumes "valid_name n" and "valid_name m"
    and "x \<in> {''.sock'', ''.pid''}" and "y \<in> {''.sock'', ''.pid''}" and "n @ x = m @ y"
  shows "n = m"
proof -
  have *: "takeWhile (\<lambda>c. c \<noteq> CHR ''.'') (k @ z) = k"
    if "valid_name k" "z \<in> {''.sock'', ''.pid''}" for k z
    using valid_name_no_special(2) [OF that(1)] that(2)
    by (auto intro!: takeWhile_append_stop)
  show ?thesis using * [OF assms(1,3)] * [OF assms(2,4)] assms(5) by simp
qed

lemma owned_paths_disjoint:
  assumes i: "valid_name (i_name i)" and j: "valid_name (i_name j)" and ne: "i_name i \<noteq> i_name j"
    and pi: "p \<in> set (owned_paths (derive_params i root run))"
    and pj: "p \<in> set (owned_paths (derive_params j root run))"
  shows False
proof -
  let ?F = "{[], [''instance.toml''], [''config.json''], [''daemon.log''], [''state'']}"
  let ?X = "{''.sock'', ''.pid''}"
  have mixed: False if "valid_name n" "valid_name m" "f \<in> ?F" "x \<in> ?X" "f @ n # R = (m @ x) # Q"
    for n m f x R Q
    using dotted_name_neq [OF that(2,1,4)] that(3,5) by (elim insertE emptyE) auto
  have same: "n = m" if "f \<in> ?F" "g \<in> ?F" "f @ n # R = g @ m # R" for n m f g R
  proof -
    from that(3) have "length f = length g" by (metis add_right_cancel length_append list.size(4))
    with that(3) show ?thesis by auto
  qed
  from owned_paths_parts [OF i pi] owned_paths_parts [OF j pj] show False
  proof (elim disjE exE conjE)
    fix f g
    assume "path_parts p = f @ i_name i # path_parts root" "f \<in> ?F"
      and "path_parts p = g @ i_name j # path_parts root" "g \<in> ?F"
    with same ne show False by metis
  next
    fix f x
    assume "path_parts p = f @ i_name i # path_parts root" "f \<in> ?F"
      and "path_parts p = (i_name j @ x) # path_parts run" "x \<in> ?X"
    with mixed [OF i j] show False by metis
  next
    fix f x
    assume "path_parts p = f @ i_name j # path_parts root" "f \<in> ?F"
      and "path_parts p = (i_name i @ x) # path_parts run" "x \<in> ?X"
    with mixed [OF j i] show False by metis
  next
    fix x y
    assume "path_parts p = (i_name i @ x) # path_parts run" "x \<in> ?X"
      and "path_parts p = (i_name j @ y) # path_parts run" "y \<in> ?X"
    then have "i_name i @ x = i_name j @ y" by simp
    with dotted_name_inject [OF i j \<open>x \<in> ?X\<close> \<open>y \<in> ?X\<close>] ne show False by simp
  qed
qed

lemma owned_paths_below:
  assumes "valid_name (i_name i)" and "p \<in> set (owned_paths (derive_params i root run))"
  shows "below root p \<or> below run p"
  using owned_paths_parts [OF assms] unfolding below_def
  by (elim disjE exE conjE) (auto simp: append_eq_Cons_conv)

lemma owned_paths_distinct:
  assumes "valid_name (i_name i)"
  shows "distinct (owned_paths (derive_params i root run))"
proof -
  note v = valid_name_plain [OF assms] plain_elem_const
  note n = dotted_name_neq [OF assms assms]
  have c: "(x :: string list) \<noteq> a # b # x" "x \<noteq> a # x" for x a b
    by (auto dest: arg_cong [where f = length])
  from v n show ?thesis
    by (auto simp: owned_paths_def path_join_inject path_join_parts c c [symmetric])
qed

section \<open>Properties\<close>

text \<open>C27: Isolation on disk.  Whatever the config root and the run directory are, two instances
  with different valid names own disjoint sets of paths (state directory, TOML file, netbird
  configuration, log, netbird state directory, socket, pid file), the paths of one instance are
  all different, and every one of them lies strictly below the config root or the run directory:
  no valid name escapes through a path separator or a dot element.\<close>

theorem instance_paths_isolated:
  assumes "valid_name (i_name i)" and "valid_name (i_name j)" and "i_name i \<noteq> i_name j"
  shows "set (owned_paths (derive_params i root run)) \<inter>
           set (owned_paths (derive_params j root run)) = {} \<and>
         distinct (owned_paths (derive_params i root run)) \<and>
         (\<forall>p \<in> set (owned_paths (derive_params i root run)). below root p \<or> below run p)"
  using owned_paths_disjoint [OF assms] owned_paths_distinct [OF assms(1)]
    owned_paths_below [OF assms(1)] by blast

definition example_inst :: "string \<Rightarrow> int \<Rightarrow> inst" where
  "example_inst n k =
     \<lparr>i_name = n, i_management_url = ''https://api.netbird.io'', i_setup_key = ''KEY'',
      i_sso = False, i_netbird_bin = [], i_index = k, i_wireguard_port = 0,
      i_dns_mode = DNSNative, i_legacy_disable_dns = False, i_logged_in = False,
      i_interface = []\<rparr>"

lemma example_inst_simps [simp]:
  "i_name (example_inst n k) = n" "i_index (example_inst n k) = k"
  "i_wireguard_port (example_inst n k) = 0" "i_dns_mode (example_inst n k) = DNSNative"
  "i_setup_key (example_inst n k) = ''KEY''" "i_logged_in (example_inst n k) = False"
  "i_netbird_bin (example_inst n k) = []" "i_interface (example_inst n k) = []"
  "i_management_url (example_inst n k) = ''https://api.netbird.io''"
  "i_sso (example_inst n k) = False" "i_legacy_disable_dns (example_inst n k) = False"
  by (simp_all add: example_inst_def)

lemma example_names [simp]: "valid_name ''home''" "valid_name ''lab''" "valid_name ''home-2''"
  by (simp_all add: name_char_def name_start_char_def less_eq_char_def)

theorem instance_paths_isolated_witness:
  "set (owned_paths (derive_params (example_inst ''home'' 0) ''/root/.config/multibird'' ''/var/run/multibird'')) \<inter>
   set (owned_paths (derive_params (example_inst ''home-2'' 1) ''/root/.config/multibird'' ''/var/run/multibird'')) = {}"
  by (rule instance_paths_isolated [THEN conjunct1])
     (simp_all only: example_inst_simps example_names, simp)

text \<open>Redaction is non-interference.  Two instances that differ only in the value of their
  setup key, both having one, cannot be told apart through \<^verbatim>\<open>String\<close> or through what
  \<^verbatim>\<open>MarshalJSON\<close> hands to the encoder: the credential flows to neither, and only its
  presence is visible.\<close>

theorem setup_key_redacted:
  assumes "k \<noteq> []" and "k' \<noteq> []"
  shows "inst_string (i\<lparr>i_setup_key := k\<rparr>) = inst_string (i\<lparr>i_setup_key := k'\<rparr>) \<and>
         marshal_json (i\<lparr>i_setup_key := k\<rparr>) = marshal_json (i\<lparr>i_setup_key := k'\<rparr>) \<and>
         r_has_setup_key (marshal_json (i\<lparr>i_setup_key := k\<rparr>)) \<and>
         \<not> r_has_setup_key (marshal_json (i\<lparr>i_setup_key := []\<rparr>))"
  using assms by (simp add: inst_string_def marshal_json_def)

theorem setup_key_redacted_witness:
  "inst_string ((example_inst ''home'' 0)\<lparr>i_setup_key := ''A''\<rparr>) =
   inst_string ((example_inst ''home'' 0)\<lparr>i_setup_key := ''B''\<rparr>)"
  using setup_key_redacted [of "''A''" "''B''" "example_inst ''home'' 0"] by simp

text \<open>The migration of the legacy DNS flag.  After \<^verbatim>\<open>Normalize\<close> the mode is set, running it
  again changes nothing, an instance that already has a mode is untouched, and for one that has
  none the daemon's disable-DNS setting afterwards is exactly the legacy flag, which is cleared:
  an upgrade never changes an existing instance's effective behaviour.\<close>

theorem normalize_migrates:
  "i_dns_mode (snd (normalize i)) \<noteq> [] \<and>
   normalize (snd (normalize i)) = (False, snd (normalize i)) \<and>
   (fst (normalize i) \<longleftrightarrow> i_dns_mode i = []) \<and>
   (if i_dns_mode i = []
    then dns_disable_sys (i_dns_mode (snd (normalize i))) = i_legacy_disable_dns i \<and>
         \<not> i_legacy_disable_dns (snd (normalize i)) \<and>
         snd (normalize i) = i\<lparr>i_dns_mode := i_dns_mode (snd (normalize i)),
                              i_legacy_disable_dns := False\<rparr>
    else snd (normalize i) = i)"
  by (simp add: normalize_def dns_disable_sys_def)

end
