(* ===== verification/Scutil.thy ===== *)
theory Scutil
  imports HostDNS Instance
begin

text \<open>
  \<^verbatim>\<open>internal/platform/scutil.go\<close>: the pure parts of the macOS dynamic-store writer.  Naming and
  batching of keys, the scripts fed to \<^verbatim>\<open>scutil\<close>, the reading of its output, and the recovery of
  the owner of a key.

  What a script does is stated against the command language that \<^verbatim>\<open>scutil(8)\<close> documents: one
  command per line, words separated by blanks, a dictionary that \<^verbatim>\<open>d.init\<close> clears and
  \<^verbatim>\<open>d.add\<close> extends and that \<^verbatim>\<open>set\<close> stores under a key.
\<close>

section \<open>Keys\<close>

definition dyn_store_prefix :: string where
  "dyn_store_prefix = ''State:/Network/Service/multibird-''"

definition max_domains_per_key :: nat where "max_domains_per_key = 50"
definition max_domain_bytes_per_key :: nat where "max_domain_bytes_per_key = 1500"

record dns_key =
  k_key :: string
  k_domains :: "string list"
  k_no_search :: bool

text \<open>The loop of \<^verbatim>\<open>batchDomains\<close>: the finished batches, the current one and its bytes.\<close>

fun batch_loop :: "string list \<Rightarrow> string list list \<Rightarrow> string list \<Rightarrow> nat \<Rightarrow> string list list" where
  "batch_loop [] out cur bytes = (if cur \<noteq> [] then out @ [cur] else out)"
| "batch_loop (d # ds) out cur bytes =
     (if cur \<noteq> [] \<and> (length cur \<ge> max_domains_per_key \<or>
                       bytes + length d > max_domain_bytes_per_key)
      then batch_loop ds (out @ [cur]) [d] (length d)
      else batch_loop ds out (cur @ [d]) (bytes + length d))"

definition batch_domains :: "string list \<Rightarrow> string list list" where
  "batch_domains domains = batch_loop domains [] [] 0"

definition key_name :: "string \<Rightarrow> string \<Rightarrow> nat \<Rightarrow> string" where
  "key_name instance_name kind n =
     dyn_store_prefix @ instance_name @ ''-'' @ kind @ ''-'' @ utoa n @ ''/DNS''"

definition host_dns_keys :: "string \<Rightarrow> spec \<Rightarrow> dns_key list" where
  "host_dns_keys instance_name sp =
     map (\<lambda>(n, batch). \<lparr>k_key = key_name instance_name ''Search'' n, k_domains = batch,
                        k_no_search = False\<rparr>)
       (enumerate 0 (batch_domains (sp_search sp))) @
     map (\<lambda>(n, batch). \<lparr>k_key = key_name instance_name ''Match'' n, k_domains = batch,
                        k_no_search = True\<rparr>)
       (enumerate 0 (batch_domains (sp_match sp)))"

section \<open>Scripts\<close>

definition nl :: string where "nl = [CHR 0x0A]"

definition remove_lines :: "string list \<Rightarrow> string" where
  "remove_lines ks = concat (map (\<lambda>k. ''remove '' @ k @ nl) ks)"

definition set_lines :: "addr_port \<Rightarrow> dns_key \<Rightarrow> string" where
  "set_lines listen k =
     ''d.init'' @ nl @
     ''d.add ServerAddresses * '' @ addr_string (fst listen) @ nl @
     ''d.add ServerPort # '' @ utoa (snd listen) @ nl @
     ''d.add SupplementalMatchDomains * '' @ join (k_domains k) '' '' @ nl @
     ''d.add SupplementalMatchDomainsNoSearch # '' @ utoa (if k_no_search k then 1 else 0) @ nl @
     ''set '' @ k_key k @ nl"

definition render_apply_script :: "string list \<Rightarrow> dns_key list \<Rightarrow> addr_port \<Rightarrow> string" where
  "render_apply_script stale keys listen =
     remove_lines stale @ concat (map (set_lines listen) keys) @ ''quit'' @ nl"

definition render_remove_script :: "string list \<Rightarrow> string" where
  "render_remove_script ks = remove_lines ks @ ''quit'' @ nl"

text \<open>\<^verbatim>\<open>regexp.QuoteMeta\<close> leaves the prefix as it is: it has none of the characters it escapes.\<close>

definition quote_meta :: "string \<Rightarrow> string" where
  "quote_meta s = concat (map (\<lambda>c. if c \<in> set (CHR 0x5C # ''.+*?()|[]{}^$'') then [CHR 0x5C, c] else [c]) s)"

definition list_script :: string where
  "list_script = ''list '' @ quote_meta dyn_store_prefix @ ''.*/DNS'' @ nl @ ''quit'' @ nl"

section \<open>Reading scutil's output\<close>

text \<open>The line reported as an error: scutil exits 0 even when a write failed.\<close>

definition failure_line :: "string \<Rightarrow> bool" where
  "failure_line line =
     (let l = to_lower (trim_space line)
      in l \<noteq> [] \<and> (str_contains l ''failed'' \<or> str_contains l ''not permitted'' \<or>
                    str_contains l ''permission denied'' \<or> str_contains l ''access denied''))"

definition scutil_output_error :: "string \<Rightarrow> string option" where
  "scutil_output_error out =
     map_option trim_space (find failure_line (split_on CHR 0x0A out))"

definition listed_key :: "string \<Rightarrow> string option" where
  "listed_key line =
     (case cut line ''= '' of
        None \<Rightarrow> None
      | Some (_, after) \<Rightarrow>
          (let key = trim_space after
           in if has_prefix key dyn_store_prefix then Some key else None))"

definition parse_listed_keys :: "string \<Rightarrow> string list" where
  "parse_listed_keys out = List.map_filter listed_key (split_on CHR 0x0A out)"

section \<open>Owners\<close>

text \<open>
  The regular expression \<^verbatim>\<open>^<prefix>(.+)-(?:Match|Search)-\d+/DNS$\<close>.  The digits before
  \<^verbatim>\<open>/DNS\<close> follow a dash, so the maximal run of digits is the one that matches and the group is
  determined; a dot does not match a newline.
\<close>

definition strip_kind :: "string \<Rightarrow> string" where
  "strip_kind s =
     (if has_suffix s ''-Match-'' then trim_suffix s ''-Match-''
      else if has_suffix s ''-Search-'' then trim_suffix s ''-Search-'' else [])"

definition owner_of_key :: "string \<Rightarrow> string" where
  "owner_of_key key =
     (case cut_prefix key dyn_store_prefix of
        None \<Rightarrow> []
      | Some rest \<Rightarrow>
          if \<not> has_suffix rest ''/DNS'' then []
          else let body = trim_suffix rest ''/DNS'';
                   stem = rev (dropWhile is_digit (rev body));
                   owner = (if stem = body then [] else strip_kind stem)
               in if CHR 0x0A \<in> set owner then [] else owner)"

definition owners_from_keys :: "string list \<Rightarrow> string list" where
  "owners_from_keys keys = sort (remdups (filter (\<lambda>o'. o' \<noteq> []) (map owner_of_key keys)))"

definition keys_of_instance :: "string list \<Rightarrow> string \<Rightarrow> string list" where
  "keys_of_instance keys instance_name = filter (\<lambda>k. owner_of_key k = instance_name) keys"

section \<open>The command language of scutil\<close>

datatype sc_cmd =
    ScInit
  | ScAdd string "string list"
  | ScSet string
  | ScRemove string
  | ScList string
  | ScQuit
  | ScUnknown

definition sc_command :: "string list \<Rightarrow> sc_cmd" where
  "sc_command ws =
     (case ws of
        [] \<Rightarrow> ScUnknown
      | [c] \<Rightarrow> if c = ''d.init'' then ScInit else if c = ''quit'' then ScQuit else ScUnknown
      | [c, k] \<Rightarrow>
          if c = ''set'' then ScSet k else if c = ''remove'' then ScRemove k
          else if c = ''list'' then ScList k else ScUnknown
      | c # k # t # vs \<Rightarrow>
          if c = ''d.add'' \<and> (t = ''*'' \<or> t = ''#'') then ScAdd k vs else ScUnknown)"

definition sc_parse :: "string \<Rightarrow> sc_cmd list" where
  "sc_parse script =
     map sc_command (filter (\<lambda>ws. ws \<noteq> []) (map str_fields (split_on CHR 0x0A script)))"

type_synonym dict = "(string \<times> string list) list"
type_synonym dyn_store = "string \<rightharpoonup> dict"

fun sc_run :: "sc_cmd list \<Rightarrow> dict \<Rightarrow> dyn_store \<Rightarrow> dyn_store" where
  "sc_run [] d st = st"
| "sc_run (ScInit # cs) d st = sc_run cs [] st"
| "sc_run (ScAdd k vs # cs) d st = sc_run cs (d @ [(k, vs)]) st"
| "sc_run (ScSet k # cs) d st = sc_run cs d (st(k \<mapsto> d))"
| "sc_run (ScRemove k # cs) d st = sc_run cs d (st(k := None))"
| "sc_run (ScQuit # cs) d st = st"
| "sc_run (_ # cs) d st = sc_run cs d st"

definition run_script :: "string \<Rightarrow> dyn_store \<Rightarrow> dyn_store" where
  "run_script script st = sc_run (sc_parse script) [] st"

text \<open>The dictionary a key is meant to get.\<close>

definition dict_of :: "addr_port \<Rightarrow> dns_key \<Rightarrow> dict" where
  "dict_of listen k =
     [(''ServerAddresses'', [addr_string (fst listen)]),
      (''ServerPort'', [utoa (snd listen)]),
      (''SupplementalMatchDomains'', k_domains k),
      (''SupplementalMatchDomainsNoSearch'', [utoa (if k_no_search k then 1 else 0)])]"

section \<open>Facts about batching\<close>

definition batch_bytes :: "string list \<Rightarrow> nat" where
  "batch_bytes b = sum_list (map length b)"

definition batch_ok :: "string list \<Rightarrow> bool" where
  "batch_ok b \<longleftrightarrow> b \<noteq> [] \<and> length b \<le> max_domains_per_key \<and>
     (length b = 1 \<or> batch_bytes b \<le> max_domain_bytes_per_key)"

text \<open>A batch was closed for a reason: the next domain did not fit any more.\<close>

definition full_before :: "string list \<Rightarrow> string list \<Rightarrow> bool" where
  "full_before b c \<longleftrightarrow> length b \<ge> max_domains_per_key \<or>
     batch_bytes b + length (hd c) > max_domain_bytes_per_key"

lemma batch_loop_concat: "concat (batch_loop ds out cur n) = concat out @ cur @ ds"
  by (induction ds out cur n rule: batch_loop.induct) auto

lemma batch_ok_snoc:
  assumes "cur \<noteq> [] \<longrightarrow> batch_ok cur"
    and "\<not> (cur \<noteq> [] \<and> (length cur \<ge> max_domains_per_key \<or>
                         batch_bytes cur + length d > max_domain_bytes_per_key))"
  shows "batch_ok (cur @ [d])"
proof (cases "cur = []")
  case True
  then show ?thesis by (simp add: batch_ok_def max_domains_per_key_def)
next
  case False
  with assms(2) show ?thesis by (simp add: batch_ok_def batch_bytes_def)
qed

lemma batch_bytes_snoc [simp]: "batch_bytes (cur @ [d]) = batch_bytes cur + length d"
  by (simp add: batch_bytes_def)

lemma batch_bytes_one [simp]: "batch_bytes [d] = length d"
  by (simp add: batch_bytes_def)

lemma batch_loop_ok:
  assumes "list_all batch_ok out" and "cur \<noteq> [] \<longrightarrow> batch_ok cur" and "n = batch_bytes cur"
  shows "list_all batch_ok (batch_loop ds out cur n)"
  using assms
proof (induction ds out cur n rule: batch_loop.induct)
  case (2 d ds out cur n)
  show ?case
  proof (cases "cur \<noteq> [] \<and> (length cur \<ge> max_domains_per_key \<or>
      n + length d > max_domain_bytes_per_key)")
    case True
    have "batch_ok [d]" using batch_ok_snoc [of "[]" d] by simp
    with True have "list_all batch_ok (batch_loop ds (out @ [cur]) [d] (length d))"
      using "2.prems" by (intro "2.IH"(1)) simp_all
    with True show ?thesis by simp
  next
    case False
    then have "batch_ok (cur @ [d])" using "2.prems" by (intro batch_ok_snoc) simp_all
    with False have "list_all batch_ok (batch_loop ds out (cur @ [d]) (n + length d))"
      using "2.prems" by (intro "2.IH"(2)) simp_all
    with False show ?thesis by auto
  qed
qed auto

lemma batch_loop_full:
  assumes "n = batch_bytes cur" and "cur = [] \<longrightarrow> out = []"
    and "successively full_before (out @ [cur])"
  shows "successively full_before (batch_loop ds out cur n)"
  using assms
proof (induction ds out cur n rule: batch_loop.induct)
  case (1 out cur n)
  then show ?case by auto
next
  case (2 d ds out cur n)
  show ?case
  proof (cases "cur \<noteq> [] \<and> (length cur \<ge> max_domains_per_key \<or>
      n + length d > max_domain_bytes_per_key)")
    case True
    then have "full_before cur [d]" using "2.prems"(1) by (auto simp: full_before_def)
    then have "successively full_before ((out @ [cur]) @ [[d]])"
      using "2.prems"(3) unfolding successively_append_iff [of _ "out @ [cur]"] by simp
    with True have "successively full_before (batch_loop ds (out @ [cur]) [d] (length d))"
      by (intro "2.IH"(1)) simp_all
    with True show ?thesis by simp
  next
    case False
    have "successively full_before (out @ [cur @ [d]])"
      using "2.prems"(2,3) by (cases "cur = []") (auto simp: successively_append_iff full_before_def)
    with False have "successively full_before (batch_loop ds out (cur @ [d]) (n + length d))"
      using "2.prems"(1) by (intro "2.IH"(2)) simp_all
    with False show ?thesis by auto
  qed
qed

lemma batch_domains_facts:
  "concat (batch_domains ds) = ds"
  "list_all batch_ok (batch_domains ds)"
  "successively full_before (batch_domains ds)"
proof -
  show "concat (batch_domains ds) = ds" by (simp add: batch_domains_def batch_loop_concat)
  show "list_all batch_ok (batch_domains ds)"
    unfolding batch_domains_def by (rule batch_loop_ok) (simp_all add: batch_bytes_def)
  show "successively full_before (batch_domains ds)"
    unfolding batch_domains_def by (rule batch_loop_full) (simp_all add: batch_bytes_def)
qed


section \<open>Scripts as commands\<close>

text \<open>A token of a script line: not empty and without white space.\<close>

definition is_token :: "string \<Rightarrow> bool" where
  "is_token w \<longleftrightarrow> w \<noteq> [] \<and> list_all (\<lambda>c. \<not> is_space c) w"

lemma nl_space [simp]: "is_space CHR 0x0A" "is_space CHR '' ''"
  by (simp_all add: is_space_def)

lemma is_token_no_nl: "is_token w \<Longrightarrow> CHR 0x0A \<notin> set w"
  by (auto simp: is_token_def list_all_iff is_space_def)

lemma is_token_append: "is_token v \<Longrightarrow> list_all (\<lambda>c. \<not> is_space c) w \<Longrightarrow> is_token (v @ w)"
  by (simp add: is_token_def)

lemma str_fields_token: "is_token w \<Longrightarrow> str_fields w = [w]"
  by (simp add: str_fields_def is_token_def list_all_iff split_by_no_sep)

lemma str_fields_step: "is_token w \<Longrightarrow> str_fields (w @ CHR '' '' # t) = w # str_fields t"
  by (simp add: str_fields_def is_token_def list_all_iff split_by_sep)

lemma str_fields_join: "list_all is_token ws \<Longrightarrow> str_fields (join ws '' '') = ws"
proof (induction ws "'' ''" rule: join.induct)
  case 1
  then show ?case by (simp add: str_fields_def)
next
  case (2 x)
  then show ?case by (simp add: str_fields_token)
next
  case (3 x y zs)
  then show ?case by (simp add: str_fields_step)
qed

lemma join_no_nl: "list_all is_token ws \<Longrightarrow> CHR 0x0A \<notin> set (join ws '' '')"
  using set_join [of ws "'' ''"] by (auto simp: list_all_iff dest: is_token_no_nl)

lemma sc_parse_line:
  assumes "CHR 0x0A \<notin> set line"
  shows "sc_parse (line @ nl @ rest) =
    (if str_fields line = [] then [] else [sc_command (str_fields line)]) @ sc_parse rest"
  using assms by (simp add: sc_parse_def nl_def split_on_append split_on_no_sep)

lemma sc_parse_words:
  assumes "list_all is_token ws" and "ws \<noteq> []"
  shows "sc_parse (join ws '' '' @ nl @ rest) = sc_command ws # sc_parse rest"
  using assms by (simp add: sc_parse_line join_no_nl str_fields_join)

lemma utoa_token [simp]: "is_token (utoa n)"
  using utoa_digits [of n] by (auto simp: is_token_def list_all_iff dest: digit_not_space)

lemma sc_parse_remove: "is_token k \<Longrightarrow> sc_parse (''remove '' @ k @ nl @ rest) = ScRemove k # sc_parse rest"
  using sc_parse_words [of "[''remove'', k]" rest]
  by (simp add: is_token_def is_space_def sc_command_def)

lemma sc_parse_remove_lines:
  "list_all is_token ks \<Longrightarrow> sc_parse (remove_lines ks @ rest) = map ScRemove ks @ sc_parse rest"
proof (induction ks)
  case Nil
  then show ?case by (simp add: remove_lines_def)
next
  case (Cons k ks)
  have "remove_lines (k # ks) @ rest = ''remove '' @ k @ nl @ remove_lines ks @ rest"
    by (simp add: remove_lines_def)
  then have "sc_parse (remove_lines (k # ks) @ rest) = ScRemove k # sc_parse (remove_lines ks @ rest)"
    using Cons.prems sc_parse_remove [of k "remove_lines ks @ rest"] by (simp only: list.pred_inject)
  with Cons show ?case by simp
qed

definition set_cmds :: "addr_port \<Rightarrow> dns_key \<Rightarrow> sc_cmd list" where
  "set_cmds listen k = ScInit # map (\<lambda>(f, vs). ScAdd f vs) (dict_of listen k) @ [ScSet (k_key k)]"

lemma sc_parse_set_lines:
  assumes "is_token (addr_string (fst listen))" and "list_all is_token (k_domains k)"
    and "k_domains k \<noteq> []" and "is_token (k_key k)"
  shows "sc_parse (set_lines listen k @ rest) = set_cmds listen k @ sc_parse rest"
proof -
  let ?n = "utoa (if k_no_search k then 1 else 0)"
  have lit: "is_token ''d.add''" "is_token ''ServerAddresses''" "is_token ''*''" "is_token ''#''"
    "is_token ''ServerPort''" "is_token ''SupplementalMatchDomains''" "is_token ''d.init''"
    "is_token ''SupplementalMatchDomainsNoSearch''" "is_token ''set''"
    by (simp_all add: is_token_def is_space_def)
  obtain d ds where d: "k_domains k = d # ds" using assms(3) by (cases "k_domains k") auto
  have 1: "sc_parse (''d.init'' @ nl @ r) = ScInit # sc_parse r" for r
    using sc_parse_words [of "[''d.init'']" r] lit by (simp add: sc_command_def)
  have 2: "sc_parse (''d.add ServerAddresses * '' @ addr_string (fst listen) @ nl @ r) =
      ScAdd ''ServerAddresses'' [addr_string (fst listen)] # sc_parse r" for r
    using sc_parse_words [of "[''d.add'', ''ServerAddresses'', ''*'', addr_string (fst listen)]" r]
      lit assms(1) by (simp add: sc_command_def)
  have 3: "sc_parse (''d.add ServerPort # '' @ utoa (snd listen) @ nl @ r) =
      ScAdd ''ServerPort'' [utoa (snd listen)] # sc_parse r" for r
    using sc_parse_words [of "[''d.add'', ''ServerPort'', ''#'', utoa (snd listen)]" r] lit
    by (simp add: sc_command_def)
  have 4: "sc_parse (''d.add SupplementalMatchDomains * '' @ join (k_domains k) '' '' @ nl @ r) =
      ScAdd ''SupplementalMatchDomains'' (k_domains k) # sc_parse r" for r
    using sc_parse_words [of "[''d.add'', ''SupplementalMatchDomains'', ''*''] @ k_domains k" r]
      lit assms(2) d by (simp add: sc_command_def)
  have 5: "sc_parse (''d.add SupplementalMatchDomainsNoSearch # '' @ ?n @ nl @ r) =
      ScAdd ''SupplementalMatchDomainsNoSearch'' [?n] # sc_parse r" for r
    using sc_parse_words [of "[''d.add'', ''SupplementalMatchDomainsNoSearch'', ''#'', ?n]" r] lit
    by (simp add: sc_command_def)
  have 6: "sc_parse (''set '' @ k_key k @ nl @ r) = ScSet (k_key k) # sc_parse r" for r
    using sc_parse_words [of "[''set'', k_key k]" r] lit assms(4) by (simp add: sc_command_def)
  show ?thesis
    unfolding set_lines_def set_cmds_def dict_of_def append_assoc 1 2 3 4 5 6 by simp
qed


section \<open>Owners of keys\<close>

lemma cut_prefix_append [simp]: "cut_prefix (p @ s) p = Some s"
  by (simp add: cut_prefix_def)

lemma dropWhile_digits:
  "list_all is_digit ds \<Longrightarrow> dropWhile is_digit (rev (s @ ''-'' @ ds)) = CHR ''-'' # rev s"
  by (simp add: list_all_iff dropWhile_append digit_not_sign is_digit_def)

lemma strip_kind_append:
  "kind \<in> {''Match'', ''Search''} \<Longrightarrow> strip_kind (s @ ''-'' @ kind @ ''-'') = s"
  using has_suffix_append [of s "''-Match-''"] trim_suffix_append [of s "''-Match-''"]
    trim_suffix_append [of s "''-Search-''"] has_suffix_append [of s "''-Search-''"]
  by (auto simp: strip_kind_def has_suffix_def)

lemma owner_of_key_shape:
  assumes "kind \<in> {''Match'', ''Search''}" and "list_all is_digit ds" and "ds \<noteq> []"
    and "CHR 0x0A \<notin> set owner"
  shows "owner_of_key (dyn_store_prefix @ owner @ ''-'' @ kind @ ''-'' @ ds @ ''/DNS'') = owner"
proof -
  let ?body = "owner @ ''-'' @ kind @ ''-'' @ ds"
  let ?stem = "owner @ ''-'' @ kind @ ''-''"
  have "rev (dropWhile is_digit (rev ?body)) = ?stem"
    using dropWhile_digits [OF assms(2), of "owner @ ''-'' @ kind"] by simp
  moreover have "trim_suffix (?body @ ''/DNS'') ''/DNS'' = ?body" by (rule trim_suffix_append)
  moreover have "has_suffix (?body @ ''/DNS'') ''/DNS''" by (rule has_suffix_append)
  moreover have "?stem \<noteq> ?body" using assms(3) by simp
  moreover have "strip_kind ?stem = owner" by (rule strip_kind_append) (rule assms(1))
  ultimately show ?thesis
    using assms(4) by (simp add: owner_of_key_def Let_def)
qed

lemma strip_kind_shape:
  "strip_kind s = owner \<Longrightarrow> owner \<noteq> [] \<Longrightarrow>
     \<exists>kind \<in> {''Match'', ''Search''}. s = owner @ ''-'' @ kind @ ''-''"
  by (auto simp: strip_kind_def has_suffix_iff trim_suffix_def split: if_splits)

lemma owner_of_key_inverse:
  assumes "owner_of_key key = owner" and "owner \<noteq> []"
  obtains kind ds where "kind \<in> {''Match'', ''Search''}" and "list_all is_digit ds" and "ds \<noteq> []"
    and "CHR 0x0A \<notin> set owner"
    and "key = dyn_store_prefix @ owner @ ''-'' @ kind @ ''-'' @ ds @ ''/DNS''"
proof -
  obtain rest where rest: "cut_prefix key dyn_store_prefix = Some rest"
    and suf: "has_suffix rest ''/DNS''"
    using assms by (auto simp: owner_of_key_def split: option.splits if_splits)
  obtain body where body: "rest = body @ ''/DNS''" using suf by (auto simp: has_suffix_iff)
  let ?stem = "rev (dropWhile is_digit (rev body))"
  let ?ds = "rev (takeWhile is_digit (rev body))"
  have split: "body = ?stem @ ?ds"
    by (metis rev_append rev_rev_ident takeWhile_dropWhile_id)
  have trim: "trim_suffix rest ''/DNS'' = body" unfolding body by (rule trim_suffix_append)
  have ne: "?stem \<noteq> body" and st: "strip_kind ?stem = owner" and nn: "CHR 0x0A \<notin> set owner"
    using assms rest suf trim
    by (auto simp: owner_of_key_def Let_def split: if_splits)
  obtain kind where k: "kind \<in> {''Match'', ''Search''}" and s: "?stem = owner @ ''-'' @ kind @ ''-''"
    using strip_kind_shape [OF st assms(2)] by blast
  have "key = dyn_store_prefix @ rest"
    using rest by (auto simp: cut_prefix_def has_prefix_iff split: if_splits)
  then have key: "key = dyn_store_prefix @ owner @ ''-'' @ kind @ ''-'' @ ?ds @ ''/DNS''"
    using body split s by simp
  show thesis
  proof (rule that [OF k _ _ nn key])
    show "list_all is_digit ?ds" by (auto simp: list_all_iff dest: set_takeWhileD)
    show "?ds \<noteq> []" using ne split by auto
  qed
qed

lemma owner_of_key_name [simp]:
  "kind \<in> {''Match'', ''Search''} \<Longrightarrow> CHR 0x0A \<notin> set name \<Longrightarrow>
     owner_of_key (key_name name kind n) = name"
  unfolding key_name_def by (rule owner_of_key_shape) (auto simp: utoa_digits)


lemma name_char_not_space: "name_char c \<Longrightarrow> \<not> is_space c"
  using name_char_range [of c] by (auto simp: is_space_def)

lemma valid_name_token: "valid_name n \<Longrightarrow> is_token n"
  using valid_name_no_special(5) [of n]
  by (auto simp: is_token_def list_all_iff name_char_not_space dest: valid_name_chars)

lemma is_token_prefix [simp]: "is_token dyn_store_prefix"
  by (simp add: is_token_def dyn_store_prefix_def is_space_def)

lemma owned_key_token:
  assumes "owner_of_key k = n" and "valid_name n"
  shows "is_token k"
proof -
  have "n \<noteq> []" using assms(2) by auto
  from owner_of_key_inverse [OF assms(1) this] obtain kind ds where
    k: "kind \<in> {''Match'', ''Search''}" "list_all (\<lambda>c. \<not> is_space c) ds"
      "k = dyn_store_prefix @ n @ ''-'' @ kind @ ''-'' @ ds @ ''/DNS''"
    by (metis digit_not_space list.pred_mono_strong)
  have "list_all (\<lambda>c. \<not> is_space c) (n @ ''-'' @ kind @ ''-'' @ ds @ ''/DNS'')"
    using k(1,2) valid_name_token [OF assms(2)]
    by (auto simp: is_token_def is_space_def)
  then show ?thesis unfolding k(3) by (rule is_token_append [OF is_token_prefix])
qed

text \<open>The keys of an instance: owned by it, all different, carrying its domains.\<close>

lemma host_dns_keys_owner:
  assumes "valid_name name" and "k \<in> set (host_dns_keys name sp)"
  shows "owner_of_key (k_key k) = name"
  using assms valid_name_no_special(4) [OF assms(1)]
  by (auto simp: host_dns_keys_def)

lemma host_dns_keys_domains:
  assumes "k \<in> set (host_dns_keys name sp)"
  shows "k_domains k \<in> set (batch_domains (if k_no_search k then sp_match sp else sp_search sp))"
  using assms by (auto simp: host_dns_keys_def in_set_enumerate_eq)

lemma key_name_inject [simp]:
  "kind \<in> {''Match'', ''Search''} \<Longrightarrow> kind' \<in> {''Match'', ''Search''} \<Longrightarrow>
     key_name name kind n = key_name name kind' m \<longleftrightarrow> kind = kind' \<and> n = m"
  by (auto simp: key_name_def)

lemma host_dns_keys_distinct: "distinct (map k_key (host_dns_keys name sp))"
proof -
  have part: "distinct (map k_key (map (\<lambda>(n, batch). \<lparr>k_key = key_name name kind n,
      k_domains = batch, k_no_search = b\<rparr>) (enumerate 0 bs)))"
    if "kind \<in> {''Match'', ''Search''}" for kind b and bs :: "string list list"
  proof -
    have "map k_key (map (\<lambda>(n, batch). \<lparr>k_key = key_name name kind n, k_domains = batch,
        k_no_search = b\<rparr>) (enumerate 0 bs)) = map (key_name name kind) (map fst (enumerate 0 bs))"
      by (simp only: map_map comp_def case_prod_unfold dns_key.simps)
    also have "distinct \<dots>"
      using that by (subst distinct_map) (auto simp: inj_on_def)
    finally show ?thesis .
  qed
  show ?thesis
    unfolding host_dns_keys_def map_append distinct_append
    using part [of "''Search''"] part [of "''Match''"] by auto
qed

section \<open>The effect of a script\<close>

lemma sc_run_removes:
  "sc_run (map ScRemove ks @ cs) d st = sc_run cs d (\<lambda>x. if x \<in> set ks then None else st x)"
  by (induction ks arbitrary: st) (simp, auto intro!: arg_cong [of _ _ "sc_run cs d"])

lemma sc_run_set_cmds:
  "sc_run (set_cmds listen k @ cs) d st =
     sc_run cs (dict_of listen k) (st(k_key k \<mapsto> dict_of listen k))"
  by (simp add: set_cmds_def dict_of_def)

definition written :: "addr_port \<Rightarrow> dns_key list \<Rightarrow> dyn_store" where
  "written listen keys = map_of (map (\<lambda>k. (k_key k, dict_of listen k)) keys)"

lemma sc_run_sets:
  assumes "distinct (map k_key keys)"
  shows "sc_run (concat (map (set_cmds listen) keys) @ ScQuit # cs) d st =
    st ++ written listen keys"
  using assms
proof (induction keys arbitrary: d st)
  case Nil
  then show ?case by (simp add: written_def)
next
  case (Cons k keys)
  then have "written listen keys (k_key k) = None"
    by (auto simp: written_def map_of_eq_None_iff)
  with Cons show ?case
    by (auto simp: sc_run_set_cmds written_def map_add_def split: option.splits)
qed

lemma sc_parse_quit: "sc_parse (''quit'' @ nl) = [ScQuit]"
  using sc_parse_words [of "[''quit'']" "[]"]
  by (simp add: is_token_def is_space_def sc_command_def sc_parse_def split_on_def str_fields_def nl_def)

lemma sc_parse_set_all:
  assumes "is_token (addr_string (fst listen))"
    and "\<And>k. k \<in> set keys \<Longrightarrow> list_all is_token (k_domains k) \<and> k_domains k \<noteq> [] \<and> is_token (k_key k)"
  shows "sc_parse (concat (map (set_lines listen) keys) @ rest) =
    concat (map (set_cmds listen) keys) @ sc_parse rest"
  using assms by (induction keys) (simp_all add: sc_parse_set_lines)

lemma run_apply_script:
  assumes "is_token (addr_string (fst listen))" and "list_all is_token stale"
    and "\<And>k. k \<in> set keys \<Longrightarrow> list_all is_token (k_domains k) \<and> k_domains k \<noteq> [] \<and> is_token (k_key k)"
    and "distinct (map k_key keys)"
  shows "run_script (render_apply_script stale keys listen) st =
    (\<lambda>x. if x \<in> set stale then None else st x) ++ written listen keys"
proof -
  have "sc_parse (render_apply_script stale keys listen) =
      map ScRemove stale @ concat (map (set_cmds listen) keys) @ [ScQuit]"
    unfolding render_apply_script_def
    by (simp only: sc_parse_remove_lines [OF assms(2)] sc_parse_set_all [OF assms(1,3)] sc_parse_quit)
  then show ?thesis
    by (simp add: run_script_def sc_run_removes sc_run_sets [OF assms(4)])
qed


lemma batch_ne: "b \<in> set (batch_domains ds) \<Longrightarrow> b \<noteq> [] \<and> set b \<subseteq> set ds"
proof -
  assume b: "b \<in> set (batch_domains ds)"
  with batch_domains_facts(2) [of ds] have "b \<noteq> []" by (auto simp: list_all_iff batch_ok_def)
  moreover have "set b \<subseteq> set (concat (batch_domains ds))" using b by auto
  ultimately show ?thesis by (simp add: batch_domains_facts(1))
qed

lemma host_dns_keys_tokens:
  assumes "valid_name name" and "list_all is_token (sp_search sp)" and "list_all is_token (sp_match sp)"
    and "k \<in> set (host_dns_keys name sp)"
  shows "list_all is_token (k_domains k) \<and> k_domains k \<noteq> [] \<and> is_token (k_key k)"
  using batch_ne [OF host_dns_keys_domains [OF assms(4)]]
    owned_key_token [OF host_dns_keys_owner [OF assms(1,4)] assms(1)] assms(2,3)
  by (auto simp: list_all_iff split: if_splits)

lemma written_other: "x \<notin> set (map k_key keys) \<Longrightarrow> written listen keys x = None"
  by (auto simp: written_def map_of_eq_None_iff)

lemma written_key:
  "distinct (map k_key keys) \<Longrightarrow> k \<in> set keys \<Longrightarrow> written listen keys (k_key k) = Some (dict_of listen k)"
  unfolding written_def by (rule map_of_is_SomeI) (auto simp: comp_def)

lemma run_remove_script:
  assumes "list_all is_token ks"
  shows "run_script (render_remove_script ks) st = (\<lambda>x. if x \<in> set ks then None else st x)"
proof -
  have "sc_parse (render_remove_script ks) = map ScRemove ks @ [ScQuit]"
    unfolding render_remove_script_def
    by (simp only: sc_parse_remove_lines [OF assms] sc_parse_quit)
  then show ?thesis by (simp add: run_script_def sc_run_removes)
qed

lemma keys_of_instance_tokens:
  "valid_name name \<Longrightarrow> list_all is_token (keys_of_instance ks name)"
  by (auto simp: list_all_iff keys_of_instance_def owned_key_token)

section \<open>Properties\<close>

text \<open>C32: Batching loses no domain and changes no order; every batch stays within the limits of
  configd (50 domains, and 1500 bytes unless a single domain is longer); and a batch is closed only
  when the next domain would not have fitted.\<close>

theorem batching_sound:
  "concat (batch_domains ds) = ds \<and>
   list_all (\<lambda>b. b \<noteq> [] \<and> length b \<le> 50 \<and> (length b = 1 \<or> sum_list (map length b) \<le> 1500))
     (batch_domains ds) \<and>
   successively (\<lambda>b c. length b = 50 \<or> sum_list (map length b) + length (hd c) > 1500)
     (batch_domains ds)"
proof -
  have "successively (\<lambda>b c. length b = 50 \<or> sum_list (map length b) + length (hd c) > 1500)
     (batch_domains ds)"
    using batch_domains_facts(2,3) [of ds]
    by (elim successively_mono)
      (auto simp: full_before_def batch_ok_def batch_bytes_def list_all_iff
        max_domains_per_key_def max_domain_bytes_per_key_def)
  then show ?thesis
    using batch_domains_facts(1,2) [of ds]
    by (simp add: batch_ok_def [abs_def] batch_bytes_def [abs_def] max_domains_per_key_def
        max_domain_bytes_per_key_def list_all_iff)
qed


text \<open>C31: Reading back what was written: from any mixture of the keys of two instances, the keys
  of each are recovered, and the owners are the names.\<close>

theorem owners_recovered:
  assumes "valid_name a" and "valid_name b" and "a \<noteq> b"
    and "keys = map k_key (host_dns_keys a sp @ host_dns_keys b sp')"
  shows "keys_of_instance keys a = map k_key (host_dns_keys a sp) \<and>
    keys_of_instance keys b = map k_key (host_dns_keys b sp') \<and>
    set (owners_from_keys keys) \<subseteq> {a, b} \<and>
    (a \<in> set (owners_from_keys keys) \<longleftrightarrow> host_dns_keys a sp \<noteq> []) \<and>
    sorted (owners_from_keys keys) \<and> distinct (owners_from_keys keys)"
proof -
  note oa = host_dns_keys_owner [OF assms(1)] and ob = host_dns_keys_owner [OF assms(2)]
  have ne: "a \<noteq> []" "b \<noteq> []" using assms(1,2) by auto
  have "filter (\<lambda>k. owner_of_key k = a) (map k_key (host_dns_keys a sp)) = map k_key (host_dns_keys a sp)"
    "filter (\<lambda>k. owner_of_key k = b) (map k_key (host_dns_keys b sp')) = map k_key (host_dns_keys b sp')"
    using oa ob by (auto simp: filter_id_conv)
  moreover have "filter (\<lambda>k. owner_of_key k = a) (map k_key (host_dns_keys b sp')) = []"
    "filter (\<lambda>k. owner_of_key k = b) (map k_key (host_dns_keys a sp)) = []"
    using oa ob assms(3) by (auto simp: filter_empty_conv)
  moreover have "\<forall>k \<in> set keys. owner_of_key k \<noteq> []"
    using oa ob ne by (auto simp: assms(4))
  then have owners: "set (owners_from_keys keys) = owner_of_key ` set keys"
    by (auto simp: owners_from_keys_def)
  moreover have set: "owner_of_key ` set keys =
      (\<lambda>_. a) ` set (host_dns_keys a sp) \<union> (\<lambda>_. b) ` set (host_dns_keys b sp')"
    unfolding assms(4) map_append set_append set_map image_Un image_image
    using oa ob by (simp cong: image_cong)
  ultimately show ?thesis
    unfolding owners set using assms(3)
    by (auto simp: keys_of_instance_def assms(4) owners_from_keys_def image_constant_conv)
qed

text \<open>A concrete store: a stale key of \<^verbatim>\<open>vpn\<close>, a key of another instance, one of stock NetBird.\<close>

definition example_spec :: spec where
  "example_spec = \<lparr>sp_listen = (V4 0x645C2AFE, 53), sp_search = [''corp.example''],
     sp_match = [''lab.internal'', ''10.in-addr.arpa'']\<rparr>"

definition example_store :: "string \<Rightarrow> dict option" where
  "example_store = map_of
     [(key_name ''vpn'' ''Match'' 3, []), (key_name ''vpn-a'' ''Match'' 0, []),
      (''State:/Network/Service/NetBird-Match-0/DNS'', [])]"

lemma example_owners:
  "owner_of_key (key_name ''vpn'' ''Match'' 3) = ''vpn''"
  "owner_of_key (key_name ''vpn-a'' ''Match'' 0) = ''vpn-a''"
  "owner_of_key ''State:/Network/Service/NetBird-Match-0/DNS'' = []"
  by code_simp+


theorem owners_recovered_witness:
  "keys_of_instance (map k_key (host_dns_keys ''a'' example_spec @ host_dns_keys ''a-b'' example_spec)) ''a''
     = [key_name ''a'' ''Search'' 0, key_name ''a'' ''Match'' 0]"
proof -
  have v: "valid_name ''a''" "valid_name ''a-b''" by code_simp+
  have "map k_key (host_dns_keys ''a'' example_spec) = [key_name ''a'' ''Search'' 0, key_name ''a'' ''Match'' 0]"
    by code_simp
  then show ?thesis
    using owners_recovered [OF v _ refl, of example_spec example_spec] by simp
qed

text \<open>What the code leaves to its inputs.  The name \<^verbatim>\<open>failed\<close> is valid, and the listing of its key
  reads as a failure; a domain with a line break ends its command and starts another one.\<close>

lemma listing_of_failed_is_error:
  "valid_name ''failed'' \<and>
   scutil_output_error (''  subKey [0] = '' @ key_name ''failed'' ''Match'' 0 @ nl) \<noteq> None"
  by code_simp

lemma domain_line_break_injects:
  "run_script (render_apply_script []
      [\<lparr>k_key = key_name ''vpn'' ''Match'' 0, k_domains = [''a'' @ nl @ ''remove K''], k_no_search = True\<rparr>]
      (V4 0x645C2AFE, 53)) (map_of [(''K'', [])]) ''K'' = None"
  by code_simp

end
