(* ===== verification/World.thy ===== *)
theory World
  imports Instance HostDNS
begin

text \<open>
  The world the program runs in, as explicit state: the file system as the program sees it, the
  clock, the history of everything the program did, and the environment that answers it.

  The environment is a parameter of the model (the record \<open>env\<close>): the netbird daemons and
  their gRPC answers, the commands the program runs, signals, other processes.  Every answer
  may depend on the whole history, so nothing is assumed about a daemon that is restarted or a
  command that is repeated.  The TOML library and the system calls' answers are in it too, and so
  are the network and the decoders of what comes from it (JSON, gzip and tar, SHA-256).  File operations may fail at any point (\<open>e_fault\<close>); other
  processes change files while the program waits or calls out (\<open>e_step\<close>).

  A Go function that can fail is an \<open>op\<close>: from a world to a result and the next world.
  \<open>bnd\<close> is the early return on error, \<open>attempt\<close> gives the error to the caller as a value.
\<close>

section \<open>Errors\<close>

datatype err =
    ErrMsg string
  | ErrSys string
  | ErrNotExist string
  | ErrNeedsRoot
  | ErrPrimaryClaim
  | ErrPanic
  | Wrap string err

text \<open>\<^verbatim>\<open>errors.Is\<close> looks through the wrapping of \<^verbatim>\<open>%w\<close>.\<close>

fun err_cause :: "err \<Rightarrow> err" where
  "err_cause (Wrap _ e) = err_cause e"
| "err_cause e = e"

definition is_not_exist :: "err \<Rightarrow> bool" where
  "is_not_exist e = (case err_cause e of ErrNotExist _ \<Rightarrow> True | _ \<Rightarrow> False)"

section \<open>Files\<close>

datatype node = File string nat | Dir nat

type_synonym fs = "(string \<times> node) list"

definition fs_put :: "fs \<Rightarrow> string \<Rightarrow> node \<Rightarrow> fs" where
  "fs_put f p n = (p, n) # filter (\<lambda>(q, _). q \<noteq> p) f"

definition fs_del :: "fs \<Rightarrow> string \<Rightarrow> fs" where
  "fs_del f p = filter (\<lambda>(q, _). q \<noteq> p) f"

definition fs_del_tree :: "fs \<Rightarrow> string \<Rightarrow> fs" where
  "fs_del_tree f p = filter (\<lambda>(q, _). q \<noteq> p \<and> \<not> below p q) f"

definition is_dir :: "fs \<Rightarrow> string \<Rightarrow> bool" where
  "is_dir f p = (p = ''/'' \<or> (case map_of f p of Some (Dir _) \<Rightarrow> True | _ \<Rightarrow> False))"

text \<open>The names in a directory, in the order of \<^verbatim>\<open>os.ReadDir\<close>.\<close>

definition children :: "fs \<Rightarrow> string \<Rightarrow> string list" where
  "children f d = sort (remdups (map path_base (filter (\<lambda>q. path_dir q = d \<and> q \<noteq> d) (map fst f))))"

definition ancestors :: "string \<Rightarrow> string list" where
  "ancestors p = map (render_path (is_rooted p)) (filter (\<lambda>st. st \<noteq> []) (suffixes (path_parts p)))"

fun mkdirs :: "fs \<Rightarrow> nat \<Rightarrow> string list \<Rightarrow> (err + unit) \<times> fs" where
  "mkdirs f m [] = (Inr (), f)"
| "mkdirs f m (d # ds) =
     (case map_of f d of
        None \<Rightarrow> mkdirs (fs_put f d (Dir m)) m ds
      | Some (Dir _) \<Rightarrow> mkdirs f m ds
      | Some (File _ _) \<Rightarrow> (Inl (ErrSys ''not a directory''), f))"

text \<open>Opening for writing, with creation and truncation: the mode of a file that exists stays.\<close>

definition put_file :: "fs \<Rightarrow> string \<Rightarrow> string \<Rightarrow> nat \<Rightarrow> (err + unit) \<times> fs" where
  "put_file f p content m =
     (case map_of f p of
        Some (Dir _) \<Rightarrow> (Inl (ErrSys ''is a directory''), f)
      | Some (File _ m') \<Rightarrow> (Inr (), fs_put f p (File content m'))
      | None \<Rightarrow> if is_dir f (path_dir p) then (Inr (), fs_put f p (File content m))
                else (Inl (ErrNotExist p), f))"

definition get_file :: "fs \<Rightarrow> string \<Rightarrow> err + string" where
  "get_file f p =
     (case map_of f p of
        Some (File c _) \<Rightarrow> Inr c
      | Some (Dir _) \<Rightarrow> Inl (ErrSys ''is a directory'')
      | None \<Rightarrow> Inl (ErrNotExist p))"

definition remove_node :: "fs \<Rightarrow> string \<Rightarrow> (err + unit) \<times> fs" where
  "remove_node f p =
     (case map_of f p of
        None \<Rightarrow> (Inl (ErrNotExist p), f)
      | Some (File _ _) \<Rightarrow> (Inr (), fs_del f p)
      | Some (Dir _) \<Rightarrow> if children f p = [] then (Inr (), fs_del f p)
                        else (Inl (ErrSys ''directory not empty''), f))"

section \<open>Events and the environment\<close>

datatype fs_op =
    OpMkdirAll string nat
  | OpOpenTrunc string nat
  | OpWrite string
  | OpClose string
  | OpWriteFile string nat
  | OpRead string
  | OpStat string
  | OpReadDir string
  | OpRemove string
  | OpRemoveAll string
  | OpRename string string

datatype rpc =
    RpcStatus bool
  | RpcLogin string string string
  | RpcWaitSSO string string
  | RpcSetConfig string string string int bool string
  | RpcUp
  | RpcDown
  | RpcListNetworks

datatype event =
    EvFs fs_op
  | EvExec "string list" string
  | EvSpawn string "string list" "(string \<times> string) list"
  | EvKill int nat
  | EvRpc string rpc
  | EvSleep nat
  | EvIfaces
  | EvHttp string "(string \<times> string) list"
  | EvWarn string
  | EvPrint string
  | EvError string
  | EvOut string

type_synonym hist = "event list"

datatype errno = ESRCH | EPERM

record login_reply =
  lr_needs_sso :: bool
  lr_user_code :: string
  lr_uri :: string
  lr_uri_complete :: string

record network =
  nw_id :: string
  nw_range :: string
  nw_selected :: bool
  nw_domains :: "string list"

record http_response =
  hr_code :: nat
  hr_status :: string
  hr_body :: "string + string"

record asset =
  as_browser_url :: string
  as_api_url :: string

record tar_entry =
  te_name :: string
  te_regular :: bool
  te_content :: "string + string"

datatype os = Linux | Darwin

record env =
  e_fault :: "hist \<Rightarrow> fs_op \<Rightarrow> string option"
  e_step :: "hist \<Rightarrow> fs \<Rightarrow> fs"
  e_drift :: "hist \<Rightarrow> nat"
  e_exec :: "hist \<Rightarrow> string list \<Rightarrow> string \<Rightarrow> string + string"
  e_spawn :: "hist \<Rightarrow> string + int"
  e_kill :: "hist \<Rightarrow> int \<Rightarrow> nat \<Rightarrow> errno option"
  e_status :: "hist \<Rightarrow> string \<Rightarrow> string + status_response"
  e_login :: "hist \<Rightarrow> string \<Rightarrow> string + login_reply"
  e_networks :: "hist \<Rightarrow> string \<Rightarrow> string + network list"
  e_dial :: "string \<Rightarrow> string option"
  e_rpc :: "hist \<Rightarrow> string \<Rightarrow> rpc \<Rightarrow> string option"
  e_cancelled :: "hist \<Rightarrow> bool"
  e_ifaces :: "hist \<Rightarrow> (string \<times> addr list option) list option"
  e_http :: "hist \<Rightarrow> string \<Rightarrow> (string \<times> string) list \<Rightarrow> string + http_response"
  e_release_json :: "string \<Rightarrow> string + string \<times> (string \<times> asset) list"
  e_sha256 :: "string \<Rightarrow> string"
  e_untar :: "string \<Rightarrow> string + tar_entry list \<times> string option"
  e_toml_enc :: "inst \<Rightarrow> string"
  e_toml_dec :: "string \<Rightarrow> string + inst"
  e_os :: os
  e_arch :: string
  e_uid :: nat
  e_environ :: "(string \<times> string) list"
  e_home :: "string option"
  e_hostname :: "string option"
  e_executable :: "string option"

record world =
  w_fs :: fs
  w_hist :: hist
  w_clock :: nat
  w_env :: env

section \<open>Operations\<close>

type_synonym 'a op = "world \<Rightarrow> (err + 'a) \<times> world"

definition ret :: "'a \<Rightarrow> 'a op" where "ret x w = (Inr x, w)"

definition fail :: "err \<Rightarrow> 'a op" where "fail e w = (Inl e, w)"

definition bnd :: "'a op \<Rightarrow> ('a \<Rightarrow> 'b op) \<Rightarrow> 'b op" where
  "bnd m f w = (case m w of (Inl e, w') \<Rightarrow> (Inl e, w') | (Inr x, w') \<Rightarrow> f x w')"

definition thn :: "'a op \<Rightarrow> 'b op \<Rightarrow> 'b op" where
  "thn m m' = bnd m (\<lambda>_. m')"

definition attempt :: "'a op \<Rightarrow> (err + 'a) op" where
  "attempt m w = (case m w of (r, w') \<Rightarrow> (Inr r, w'))"

definition wrap :: "string \<Rightarrow> 'a op \<Rightarrow> 'a op" where
  "wrap msg m w = (case m w of (Inl e, w') \<Rightarrow> (Inl (Wrap msg e), w') | (Inr x, w') \<Rightarrow> (Inr x, w'))"

text \<open>Best effort: \<^verbatim>\<open>_ = f()\<close>.\<close>

definition ignore :: "'a op \<Rightarrow> unit op" where
  "ignore m w = (Inr (), snd (m w))"

text \<open>Reading a part of the world.\<close>

definition asks :: "(world \<Rightarrow> 'a) \<Rightarrow> 'a op" where
  "asks f w = (Inr (f w), w)"

fun each :: "('a \<Rightarrow> 'b op) \<Rightarrow> 'a list \<Rightarrow> 'b list op" where
  "each f [] = ret []"
| "each f (x # xs) = bnd (f x) (\<lambda>y. bnd (each f xs) (\<lambda>ys. ret (y # ys)))"

definition log_event :: "event \<Rightarrow> world \<Rightarrow> world" where
  "log_event ev w = w\<lparr>w_hist := ev # w_hist w\<rparr>"

definition tell :: "event \<Rightarrow> unit op" where
  "tell ev w = (Inr (), log_event ev w)"

definition warnf :: "string \<Rightarrow> unit op" where "warnf s = tell (EvWarn s)"
definition printf :: "string \<Rightarrow> unit op" where "printf s = tell (EvPrint s)"
definition write_out :: "string \<Rightarrow> unit op" where "write_out s = tell (EvOut s)"
definition errorf :: "string \<Rightarrow> unit op" where "errorf s = tell (EvError s)"

definition fs_call :: "fs_op \<Rightarrow> (fs \<Rightarrow> (err + 'a) \<times> fs) \<Rightarrow> 'a op" where
  "fs_call f act w =
     (case e_fault (w_env w) (w_hist w) f of
        Some m \<Rightarrow> (Inl (ErrSys m), log_event (EvFs f) w)
      | None \<Rightarrow> (let (r, f') = act (w_fs w) in (r, (log_event (EvFs f) w)\<lparr>w_fs := f'\<rparr>)))"

definition callout :: "event \<Rightarrow> nat \<Rightarrow> (env \<Rightarrow> hist \<Rightarrow> err + 'a) \<Rightarrow> 'a op" where
  "callout ev dt ask w =
     (ask (w_env w) (w_hist w),
      w\<lparr>w_fs := e_step (w_env w) (ev # w_hist w) (w_fs w),
        w_hist := ev # w_hist w,
        w_clock := w_clock w + dt + e_drift (w_env w) (w_hist w)\<rparr>)"

subsection \<open>Package os\<close>

definition mkdir_all :: "string \<Rightarrow> nat \<Rightarrow> unit op" where
  "mkdir_all p m = fs_call (OpMkdirAll p m) (\<lambda>f. mkdirs f m (ancestors p))"

definition open_trunc :: "string \<Rightarrow> nat \<Rightarrow> unit op" where
  "open_trunc p m = fs_call (OpOpenTrunc p m) (\<lambda>f. put_file f p [] m)"

definition write_open :: "string \<Rightarrow> string \<Rightarrow> unit op" where
  "write_open p content = fs_call (OpWrite p)
     (\<lambda>f. (Inr (), case map_of f p of Some (File _ m) \<Rightarrow> fs_put f p (File content m) | _ \<Rightarrow> f))"

definition close_file :: "string \<Rightarrow> unit op" where
  "close_file p = fs_call (OpClose p) (\<lambda>f. (Inr (), f))"

definition write_file :: "string \<Rightarrow> string \<Rightarrow> nat \<Rightarrow> unit op" where
  "write_file p content m = fs_call (OpWriteFile p m) (\<lambda>f. put_file f p content m)"

definition read_file :: "string \<Rightarrow> string op" where
  "read_file p = fs_call (OpRead p) (\<lambda>f. (get_file f p, f))"

definition stat :: "string \<Rightarrow> node op" where
  "stat p = fs_call (OpStat p)
     (\<lambda>f. (case map_of f p of Some n \<Rightarrow> Inr n | None \<Rightarrow> Inl (ErrNotExist p), f))"

definition read_dir :: "string \<Rightarrow> (string \<times> bool) list op" where
  "read_dir p = fs_call (OpReadDir p)
     (\<lambda>f. (if is_dir f p then Inr (map (\<lambda>n. (n, is_dir f (path_join [p, n]))) (children f p))
           else if map_of f p = None then Inl (ErrNotExist p)
           else Inl (ErrSys ''not a directory''), f))"

definition os_remove :: "string \<Rightarrow> unit op" where
  "os_remove p = fs_call (OpRemove p) (\<lambda>f. remove_node f p)"

definition remove_all :: "string \<Rightarrow> unit op" where
  "remove_all p = fs_call (OpRemoveAll p) (\<lambda>f. (Inr (), fs_del_tree f p))"

definition os_rename :: "string \<Rightarrow> string \<Rightarrow> unit op" where
  "os_rename p q = fs_call (OpRename p q)
     (\<lambda>f. case map_of f p of
            None \<Rightarrow> (Inl (ErrNotExist p), f)
          | Some n \<Rightarrow>
              (case map_of f q of
                 Some (Dir _) \<Rightarrow> (Inl (ErrSys ''file exists''), f)
               | _ \<Rightarrow> (Inr (), fs_put (fs_del f p) q n)))"

subsection \<open>Time, processes, commands, daemons\<close>

definition sleep :: "nat \<Rightarrow> unit op" where
  "sleep d = callout (EvSleep d) d (\<lambda>_ _. Inr ())"

definition exec :: "string list \<Rightarrow> string \<Rightarrow> string op" where
  "exec argv stdin = callout (EvExec argv stdin) 0
     (\<lambda>e h. case e_exec e h argv stdin of Inl m \<Rightarrow> Inl (ErrSys m) | Inr out \<Rightarrow> Inr out)"

definition spawn :: "string \<Rightarrow> string list \<Rightarrow> (string \<times> string) list \<Rightarrow> int op" where
  "spawn bin args environ = callout (EvSpawn bin args environ) 0
     (\<lambda>e h. case e_spawn e h of Inl m \<Rightarrow> Inl (ErrSys m) | Inr pid \<Rightarrow> Inr pid)"

definition kill :: "int \<Rightarrow> nat \<Rightarrow> errno option op" where
  "kill pid sig = callout (EvKill pid sig) 0 (\<lambda>e h. Inr (e_kill e h pid sig))"

definition net_interfaces :: "(string \<times> addr list option) list op" where
  "net_interfaces = callout EvIfaces 0
     (\<lambda>e h. case e_ifaces e h of None \<Rightarrow> Inl (ErrSys ''interfaces'') | Some l \<Rightarrow> Inr l)"

definition http_get :: "string \<Rightarrow> (string \<times> string) list \<Rightarrow> http_response op" where
  "http_get url headers = callout (EvHttp url headers) 0
     (\<lambda>e h. case e_http e h url headers of Inl m \<Rightarrow> Inl (ErrSys m) | Inr r \<Rightarrow> Inr r)"

definition rpc_status :: "string \<Rightarrow> bool \<Rightarrow> status_response op" where
  "rpc_status sock full = callout (EvRpc sock (RpcStatus full)) 0
     (\<lambda>e h. case e_status e h sock of Inl m \<Rightarrow> Inl (ErrSys m) | Inr st \<Rightarrow> Inr st)"

definition rpc_login :: "string \<Rightarrow> string \<Rightarrow> string \<Rightarrow> string \<Rightarrow> login_reply op" where
  "rpc_login sock key url host = callout (EvRpc sock (RpcLogin key url host)) 0
     (\<lambda>e h. case e_login e h sock of Inl m \<Rightarrow> Inl (ErrSys m) | Inr r \<Rightarrow> Inr r)"

definition rpc_networks :: "string \<Rightarrow> network list op" where
  "rpc_networks sock = callout (EvRpc sock RpcListNetworks) 0
     (\<lambda>e h. case e_networks e h sock of Inl m \<Rightarrow> Inl (ErrSys m) | Inr r \<Rightarrow> Inr r)"

definition rpc_call :: "string \<Rightarrow> rpc \<Rightarrow> unit op" where
  "rpc_call sock r = callout (EvRpc sock r) 0
     (\<lambda>e h. case e_rpc e h sock r of Some m \<Rightarrow> Inl (ErrSys m) | None \<Rightarrow> Inr ())"

text \<open>Making a client does not connect; it fails only on a target the library rejects.\<close>

definition dial :: "string \<Rightarrow> unit op" where
  "dial sock = bnd (asks (\<lambda>w. e_dial (w_env w) sock)) (\<lambda>r.
     case r of Some m \<Rightarrow> fail (Wrap ''dialing daemon socket'' (ErrSys m)) | None \<Rightarrow> ret ())"

definition cancelled :: "bool op" where
  "cancelled = asks (\<lambda>w. e_cancelled (w_env w) (w_hist w))"

definition now :: "nat op" where
  "now = asks w_clock"

definition getenv :: "string \<Rightarrow> string op" where
  "getenv k = asks (\<lambda>w. case map_of (e_environ (w_env w)) k of Some v \<Rightarrow> v | None \<Rightarrow> [])"

end
