(* ===== verification/Frames.thy ===== *)
theory Frames
  imports World
begin

text \<open>
  Reasoning about operations on the world: the combinators' laws, and frames.  A frame is a
  reflexive and transitive relation between the world before and the world after; what every
  step keeps, a whole operation keeps.  The locale states that once; it is interpreted for the
  events an operation may cause, which account for every change it makes to the files, and for
  operations that leave the files alone.
\<close>

named_theorems frame_intros \<open>introduction rules for what an operation keeps\<close>

section \<open>The combinators\<close>

lemma bnd_Inr: "m w = (Inr x, w') \<Longrightarrow> bnd m f w = f x w'"
  by (simp add: bnd_def)

lemma bnd_Inl: "m w = (Inl e, w') \<Longrightarrow> bnd m f w = (Inl e, w')"
  by (simp add: bnd_def)

lemma ret_simp [simp]: "ret x w = (Inr x, w)" by (simp add: ret_def)
lemma fail_simp [simp]: "fail e w = (Inl e, w)" by (simp add: fail_def)
lemma asks_simp [simp]: "asks f w = (Inr (f w), w)" by (simp add: asks_def)

lemma bnd_ret [simp]: "bnd (ret x) f = f x" by (rule ext) (simp add: bnd_def)
lemma bnd_fail [simp]: "bnd (fail e) f = fail e" by (rule ext) (simp add: bnd_def)
lemma bnd_asks [simp]: "bnd (asks g) f w = f (g w) w" by (simp add: bnd_def)

lemma bnd_assoc: "bnd (bnd m f) g = bnd m (\<lambda>x. bnd (f x) g)"
  by (rule ext) (simp add: bnd_def split: prod.splits sum.splits)

lemma bnd_result:
  "bnd m f w = (Inr y, w') \<longleftrightarrow> (\<exists>x w1. m w = (Inr x, w1) \<and> f x w1 = (Inr y, w'))"
  by (auto simp: bnd_def split: prod.splits sum.splits)

lemma thn_result:
  "thn m m' w = (Inr y, w') \<longleftrightarrow> (\<exists>x w1. m w = (Inr x, w1) \<and> m' w1 = (Inr y, w'))"
  by (simp add: thn_def bnd_result)

lemma bnd_attempt: "m w = (r, w1) \<Longrightarrow> bnd (attempt m) f w = f r w1"
  by (simp add: bnd_def attempt_def)

lemma bnd_error:
  "bnd m f w = (Inl e, w') \<longleftrightarrow>
     m w = (Inl e, w') \<or> (\<exists>x w1. m w = (Inr x, w1) \<and> f x w1 = (Inl e, w'))"
  by (auto simp: bnd_def split: prod.splits sum.splits)

lemma wrap_result [simp]: "wrap s m w = (Inr y, w') \<longleftrightarrow> m w = (Inr y, w')"
  by (auto simp: wrap_def split: prod.splits sum.splits)

lemma attempt_result [simp]: "attempt m w = (Inr r, w') \<longleftrightarrow> m w = (r, w')"
  by (auto simp: attempt_def split: prod.splits)

lemma attempt_never_fails [simp]: "attempt m w \<noteq> (Inl e, w')"
  by (simp add: attempt_def split: prod.splits)

lemma ignore_simp [simp]: "ignore m w = (Inr (), snd (m w))" by (simp add: ignore_def)

lemma bnd_last: "bnd m f w = (Inr y, w') \<Longrightarrow> \<exists>x w1. f x w1 = (Inr y, w')"
  by (auto simp: bnd_result)

lemma thn_last: "thn m m' w = (Inr y, w') \<Longrightarrow> \<exists>w1. m' w1 = (Inr y, w')"
  by (auto simp: thn_result)

lemmas op_results = bnd_result thn_result

section \<open>Frames\<close>

definition keeps :: "(world \<Rightarrow> world \<Rightarrow> bool) \<Rightarrow> 'a op \<Rightarrow> bool" where
  "keeps R m \<longleftrightarrow> (\<forall>w. R w (snd (m w)))"

lemma keepsD: "keeps R m \<Longrightarrow> m w = (r, w') \<Longrightarrow> R w w'"
  by (metis keeps_def snd_conv)

locale frame =
  fixes R :: "world \<Rightarrow> world \<Rightarrow> bool"
  assumes stays: "R w w"
    and chain: "R u v \<Longrightarrow> R v w \<Longrightarrow> R u w"
begin

lemma keeps_ret: "keeps R (ret x)" by (simp add: keeps_def stays)
lemma keeps_fail: "keeps R (fail e)" by (simp add: keeps_def stays)
lemma keeps_asks: "keeps R (asks f)" by (simp add: keeps_def stays)

lemma keeps_bnd: "keeps R m \<Longrightarrow> (\<And>x. keeps R (f x)) \<Longrightarrow> keeps R (bnd m f)"
  unfolding keeps_def bnd_def
  by (auto split: prod.splits sum.splits intro: chain) (metis chain snd_conv)+

text \<open>With what is known of the intermediate result.\<close>

lemma keeps_bnd_result:
  assumes "keeps R m" and "\<And>x w w'. m w = (Inr x, w') \<Longrightarrow> keeps R (f x)"
  shows "keeps R (bnd m f)"
  unfolding keeps_def
proof
  fix w
  obtain r w1 where m: "m w = (r, w1)" by (cases "m w")
  then have "R w w1" using assms(1) unfolding keeps_def by (metis snd_conv)
  then show "R w (snd (bnd m f w))"
    using m assms(2) [of w _ w1] chain unfolding keeps_def by (cases r) (auto simp: bnd_def)
qed

lemma keeps_thn: "keeps R m \<Longrightarrow> keeps R m' \<Longrightarrow> keeps R (thn m m')"
  unfolding thn_def by (rule keeps_bnd)

lemma keeps_attempt: "keeps R m \<Longrightarrow> keeps R (attempt m)"
  by (simp add: keeps_def attempt_def split_beta)

lemma keeps_wrap: "keeps R m \<Longrightarrow> keeps R (wrap s m)"
  unfolding keeps_def wrap_def by (auto split: prod.splits sum.splits) (metis snd_conv)+

lemma keeps_ignore: "keeps R m \<Longrightarrow> keeps R (ignore m)"
  by (simp add: keeps_def ignore_def)

lemma keeps_each: "(\<And>x. x \<in> set xs \<Longrightarrow> keeps R (f x)) \<Longrightarrow> keeps R (each f xs)"
  by (induction xs) (auto intro!: keeps_ret keeps_bnd)

lemma keeps_if: "keeps R m \<Longrightarrow> keeps R m' \<Longrightarrow> keeps R (if b then m else m')" by simp

lemma keeps_option: "keeps R n \<Longrightarrow> (\<And>x. keeps R (s x)) \<Longrightarrow> keeps R (case x of None \<Rightarrow> n | Some y \<Rightarrow> s y)"
  by (simp split: option.split)

lemma keeps_sum: "(\<And>e. keeps R (l e)) \<Longrightarrow> (\<And>x. keeps R (s x)) \<Longrightarrow> keeps R (case x of Inl e \<Rightarrow> l e | Inr y \<Rightarrow> s y)"
  by (simp split: sum.split)

lemma keeps_prod: "(\<And>a b. keeps R (f a b)) \<Longrightarrow> keeps R (case x of (a, b) \<Rightarrow> f a b)"
  by (simp split: prod.split)

lemma keeps_Let: "(\<And>x. keeps R (f x)) \<Longrightarrow> keeps R (let x = a in f x)"
  by (simp add: Let_def)

lemmas combinators = keeps_ret keeps_fail keeps_asks keeps_bnd keeps_thn keeps_attempt keeps_wrap
  keeps_ignore keeps_each keeps_if keeps_option keeps_sum keeps_prod keeps_Let

end

section \<open>Files after an operation\<close>

lemma fs_put_lookup [simp]: "map_of (fs_put f p n) q = (if q = p then Some n else map_of f q)"
proof -
  have "map_of (filter (\<lambda>(q, _). q \<noteq> p) f) q = (if q = p then None else map_of f q)"
    by (induction f) auto
  then show ?thesis by (simp add: fs_put_def)
qed

lemma fs_del_lookup [simp]: "map_of (fs_del f p) q = (if q = p then None else map_of f q)"
  unfolding fs_del_def by (induction f) auto

lemma fs_del_tree_lookup [simp]:
  "map_of (fs_del_tree f p) q = (if q = p \<or> below p q then None else map_of f q)"
  unfolding fs_del_tree_def by (induction f) auto

text \<open>No other process changes a file.\<close>

definition quiet :: "world \<Rightarrow> bool" where
  "quiet w \<longleftrightarrow> (\<forall>h f. e_step (w_env w) h f = f)"

text \<open>The paths a file operation may give another node.\<close>

fun affects :: "fs_op \<Rightarrow> string \<Rightarrow> bool" where
  "affects (OpMkdirAll p _) q \<longleftrightarrow> q \<in> set (ancestors p)"
| "affects (OpOpenTrunc p _) q \<longleftrightarrow> q = p"
| "affects (OpWrite p) q \<longleftrightarrow> q = p"
| "affects (OpWriteFile p _) q \<longleftrightarrow> q = p"
| "affects (OpRemove p) q \<longleftrightarrow> q = p"
| "affects (OpRemoveAll p) q \<longleftrightarrow> q = p \<or> below p q"
| "affects (OpRename p p') q \<longleftrightarrow> q = p \<or> q = p'"
| "affects _ q \<longleftrightarrow> False"

text \<open>Making directories adds nodes and replaces none.\<close>

definition adds_only :: "fs_op \<Rightarrow> bool" where
  "adds_only f \<longleftrightarrow> (case f of OpMkdirAll _ _ \<Rightarrow> True | _ \<Rightarrow> False)"

lemma mkdirs_affects:
  "map_of (snd (mkdirs f m ds)) q \<noteq> map_of f q \<Longrightarrow> q \<in> set ds \<and> map_of f q = None"
proof (induction f m ds rule: mkdirs.induct)
  case (2 f m d ds)
  then show ?case by (cases "map_of f d"; cases "q = d") (auto split: node.splits)
qed simp

text \<open>The paths whose node is another one afterwards, in a world whose files no other process changes.\<close>

definition accounts :: "event list \<Rightarrow> world \<Rightarrow> world \<Rightarrow> bool" where
  "accounts es w w' \<longleftrightarrow>
     (quiet w \<longrightarrow> (\<forall>q. map_of (w_fs w') q \<noteq> map_of (w_fs w) q \<longrightarrow>
        (\<exists>f. EvFs f \<in> set es \<and> affects f q \<and> (adds_only f \<longrightarrow> map_of (w_fs w) q = None))))"

lemma accounts_same: "w_fs w' = w_fs w \<Longrightarrow> accounts es w w'"
  by (simp add: accounts_def)

lemma accounts_trans:
  assumes "accounts es u v" and "accounts fs v w" and "w_env v = w_env u"
  shows "accounts (fs @ es) u w"
  unfolding accounts_def
proof (intro impI allI)
  fix q
  assume u: "quiet u" and q: "map_of (w_fs w) q \<noteq> map_of (w_fs u) q"
  have v: "quiet v" using u assms(3) by (simp add: quiet_def)
  show "\<exists>f. EvFs f \<in> set (fs @ es) \<and> affects f q \<and> (adds_only f \<longrightarrow> map_of (w_fs u) q = None)"
  proof (cases "map_of (w_fs v) q = map_of (w_fs u) q")
    case True
    with q assms(2) v show ?thesis unfolding accounts_def by (metis UnCI set_append)
  next
    case False
    with assms(1) u show ?thesis unfolding accounts_def by (metis UnCI set_append)
  qed
qed

section \<open>What an operation may cause\<close>

text \<open>The operation only adds events that satisfy \<open>P\<close>, the events account for what it did to the files, and
  the environment stays the same.\<close>

definition emits :: "(event \<Rightarrow> bool) \<Rightarrow> world \<Rightarrow> world \<Rightarrow> bool" where
  "emits P w w' \<longleftrightarrow>
     w_env w' = w_env w \<and>
     (\<exists>es. w_hist w' = es @ w_hist w \<and> (\<forall>e \<in> set es. P e) \<and> accounts es w w')"

lemma emits_refl: "emits P w w"
  by (simp add: emits_def accounts_same)

lemma emits_trans:
  assumes "emits P u v" and "emits P v w"
  shows "emits P u w"
proof -
  obtain es fs where "w_hist v = es @ w_hist u" "\<forall>e \<in> set es. P e" "accounts es u v"
    and "w_hist w = fs @ w_hist v" "\<forall>e \<in> set fs. P e" "accounts fs v w"
    using assms by (auto simp: emits_def)
  then have "w_hist w = (fs @ es) @ w_hist u \<and> (\<forall>e \<in> set (fs @ es). P e) \<and> accounts (fs @ es) u w"
    using assms by (auto simp: emits_def intro: accounts_trans)
  then show ?thesis using assms unfolding emits_def by metis
qed

interpretation ev: frame "emits P" for P
  by unfold_locales (auto intro: emits_refl emits_trans)

lemmas ev_combinators [frame_intros] = ev.combinators

lemma emits_mono: "emits P w w' \<Longrightarrow> (\<And>e. P e \<Longrightarrow> Q e) \<Longrightarrow> emits Q w w'"
  unfolding emits_def by blast

lemma keeps_mono: "keeps (emits P) m \<Longrightarrow> (\<And>e. P e \<Longrightarrow> Q e) \<Longrightarrow> keeps (emits Q) m"
  unfolding keeps_def by (blast intro: emits_mono)

lemma keeps_tell [frame_intros]: "P ev \<Longrightarrow> keeps (emits P) (tell ev)"
  by (simp add: keeps_def emits_def tell_def log_event_def accounts_same)

lemma keeps_fs_call:
  assumes "P (EvFs f)"
    and "\<And>x q. map_of (snd (act x)) q \<noteq> map_of x q \<Longrightarrow> affects f q \<and> (adds_only f \<longrightarrow> map_of x q = None)"
  shows "keeps (emits P) (fs_call f act)"
proof -
  have "emits P w (snd (fs_call f act w))" for w
  proof (cases "e_fault (w_env w) (w_hist w) f")
    case None
    obtain r x where x: "act (w_fs w) = (r, x)" by (cases "act (w_fs w)")
    with assms(2) [of "w_fs w"] have "accounts [EvFs f] w ((log_event (EvFs f) w)\<lparr>w_fs := x\<rparr>)"
      by (simp add: accounts_def)
    with None x assms(1) show ?thesis by (simp add: fs_call_def emits_def log_event_def)
  qed (simp add: fs_call_def emits_def log_event_def accounts_same assms(1))
  then show ?thesis by (simp add: keeps_def)
qed

lemma keeps_callout: "P e \<Longrightarrow> keeps (emits P) (callout e dt ask)"
  by (auto simp: keeps_def emits_def callout_def accounts_def quiet_def)

lemma keeps_warnf [frame_intros]: "P (EvWarn s) \<Longrightarrow> keeps (emits P) (warnf s)"
  unfolding warnf_def by (rule keeps_tell)

lemma keeps_printf [frame_intros]: "P (EvPrint s) \<Longrightarrow> keeps (emits P) (printf s)"
  unfolding printf_def by (rule keeps_tell)

lemma keeps_write_out [frame_intros]: "P (EvOut s) \<Longrightarrow> keeps (emits P) (write_out s)"
  unfolding write_out_def by (rule keeps_tell)

lemma keeps_errorf [frame_intros]: "P (EvError s) \<Longrightarrow> keeps (emits P) (errorf s)"
  unfolding errorf_def by (rule keeps_tell)

lemma keeps_files [frame_intros]:
  "P (EvFs (OpMkdirAll p m)) \<Longrightarrow> keeps (emits P) (mkdir_all p m)"
  "P (EvFs (OpOpenTrunc p m)) \<Longrightarrow> keeps (emits P) (open_trunc p m)"
  "P (EvFs (OpWrite p)) \<Longrightarrow> keeps (emits P) (write_open p c)"
  "P (EvFs (OpClose p)) \<Longrightarrow> keeps (emits P) (close_file p)"
  "P (EvFs (OpWriteFile p m)) \<Longrightarrow> keeps (emits P) (write_file p c m)"
  "P (EvFs (OpRead p)) \<Longrightarrow> keeps (emits P) (read_file p)"
  "P (EvFs (OpStat p)) \<Longrightarrow> keeps (emits P) (stat p)"
  "P (EvFs (OpReadDir p)) \<Longrightarrow> keeps (emits P) (read_dir p)"
  "P (EvFs (OpRemove p)) \<Longrightarrow> keeps (emits P) (os_remove p)"
  "P (EvFs (OpRemoveAll p)) \<Longrightarrow> keeps (emits P) (remove_all p)"
  "P (EvFs (OpRename p q)) \<Longrightarrow> keeps (emits P) (os_rename p q)"
  unfolding mkdir_all_def open_trunc_def write_open_def close_file_def write_file_def read_file_def
    stat_def read_dir_def os_remove_def remove_all_def os_rename_def
  by (rule keeps_fs_call, assumption,
      auto simp: put_file_def get_file_def remove_node_def adds_only_def dest: mkdirs_affects split: option.splits node.splits if_splits)+

lemma keeps_calls [frame_intros]:
  "P (EvSleep d) \<Longrightarrow> keeps (emits P) (sleep d)"
  "P (EvExec a i) \<Longrightarrow> keeps (emits P) (exec a i)"
  "P (EvSpawn b a n) \<Longrightarrow> keeps (emits P) (spawn b a n)"
  "P (EvKill pid sig) \<Longrightarrow> keeps (emits P) (kill pid sig)"
  "P EvIfaces \<Longrightarrow> keeps (emits P) net_interfaces"
  "P (EvRpc sock (RpcStatus full)) \<Longrightarrow> keeps (emits P) (rpc_status sock full)"
  "P (EvRpc sock (RpcLogin k u h)) \<Longrightarrow> keeps (emits P) (rpc_login sock k u h)"
  "P (EvRpc sock RpcListNetworks) \<Longrightarrow> keeps (emits P) (rpc_networks sock)"
  "P (EvRpc sock r) \<Longrightarrow> keeps (emits P) (rpc_call sock r)"
  "P (EvHttp url hs) \<Longrightarrow> keeps (emits P) (http_get url hs)"
  unfolding sleep_def exec_def spawn_def kill_def net_interfaces_def rpc_status_def rpc_login_def
    rpc_networks_def rpc_call_def http_get_def
  by (rule keeps_callout, assumption)+

lemma keeps_reads [frame_intros]:
  "keeps (emits P) cancelled" "keeps (emits P) now" "keeps (emits P) (getenv k)"
  unfolding cancelled_def now_def getenv_def by (rule ev.keeps_asks)+

lemma keeps_dial [frame_intros]: "keeps (emits P) (dial sock)"
  unfolding dial_def by (intro ev_combinators)

section \<open>File calls\<close>

text \<open>A run in which no file operation fails.\<close>

definition faultless :: "world \<Rightarrow> bool" where
  "faultless w \<longleftrightarrow> (\<forall>h f. e_fault (w_env w) h f = None)"

lemma below_code [code]:
  "below d p \<longleftrightarrow> is_rooted p = is_rooted d \<and> suffix (path_parts d) (path_parts p) \<and>
     path_parts p \<noteq> path_parts d"
  by (auto simp: below_def suffix_def)

lemma fs_call_cases:
  assumes "fs_call f act w = (r, w')"
  obtains (fault) m where "e_fault (w_env w) (w_hist w) f = Some m" and "r = Inl (ErrSys m)"
      and "w_fs w' = w_fs w"
  | (success) "e_fault (w_env w) (w_hist w) f = None" and "act (w_fs w) = (r, w_fs w')"
  using assms
  by (auto simp: fs_call_def log_event_def split: option.splits prod.splits)

lemma fs_call_frame:
  assumes "fs_call f act w = (r, w')"
  shows "w_env w' = w_env w" and "w_clock w' = w_clock w" and "w_hist w' = EvFs f # w_hist w"
  using assms by (auto simp: fs_call_def log_event_def split: option.splits prod.splits)

text \<open>The operation changes no file itself.\<close>

definition fs_still :: "world \<Rightarrow> world \<Rightarrow> bool" where
  "fs_still w w' \<longleftrightarrow> w_env w' = w_env w \<and> (quiet w \<longrightarrow> w_fs w' = w_fs w)"

interpretation still: frame fs_still
  by unfold_locales (auto simp: fs_still_def quiet_def)

lemma still_callout: "keeps fs_still (callout e dt ask)"
  by (auto simp: keeps_def fs_still_def quiet_def callout_def)

lemma still_calls:
  "keeps fs_still (sleep d)" "keeps fs_still (exec a i)" "keeps fs_still (spawn b a n)"
  "keeps fs_still (kill pid sig)" "keeps fs_still net_interfaces" "keeps fs_still (rpc_status sock full)"
  "keeps fs_still (rpc_networks sock)" "keeps fs_still (rpc_call sock r)" "keeps fs_still (http_get url hs)"
  unfolding sleep_def exec_def spawn_def kill_def net_interfaces_def rpc_status_def rpc_networks_def
    rpc_call_def http_get_def
  by (rule still_callout)+

lemma still_tell: "keeps fs_still (tell ev)" "keeps fs_still (warnf t)" "keeps fs_still (printf t)"
  "keeps fs_still (errorf t)"
  by (simp_all add: keeps_def fs_still_def tell_def warnf_def printf_def errorf_def log_event_def)

lemma still_reads: "keeps fs_still (read_file p)" "keeps fs_still (stat p)" "keeps fs_still (read_dir p)"
  by (auto simp: keeps_def fs_still_def read_file_def stat_def read_dir_def fs_call_def log_event_def
      split: option.splits)

lemma still_dial: "keeps fs_still (dial sock)"
  unfolding dial_def by (intro still.combinators)

lemmas still_intros = still.combinators still_calls still_tell still_reads still_dial

section \<open>The events of a run\<close>

definition new_events :: "world \<Rightarrow> world \<Rightarrow> event list" where
  "new_events w w' = take (length (w_hist w') - length (w_hist w)) (w_hist w')"

lemma emits_new_events: "emits P w w' \<Longrightarrow> e \<in> set (new_events w w') \<Longrightarrow> P e"
  by (auto simp: emits_def new_events_def)

lemma keeps_new_events: "keeps (emits P) m \<Longrightarrow> e \<in> set (new_events w (snd (m w))) \<Longrightarrow> P e"
  using emits_new_events unfolding keeps_def by blast

lemma emits_affects:
  assumes "emits P w w'" and "quiet w" and "map_of (w_fs w') q \<noteq> map_of (w_fs w) q"
  shows "\<exists>f. P (EvFs f) \<and> affects f q \<and> (adds_only f \<longrightarrow> map_of (w_fs w) q = None)"
  using assms unfolding emits_def accounts_def by blast

lemma keeps_env: "keeps (emits P) m \<Longrightarrow> w_env (snd (m w)) = w_env w"
  by (simp add: keeps_def emits_def)

end
