(* ===== verification/Example.thy ===== *)
theory Example
  imports Frames
begin

text \<open>
  A concrete environment: the parameters of the model instantiated by functions, so that the
  hypotheses about them can be seen to hold and the theorems applied to runs that compute.

  The TOML library is stood for by a self-delimiting encoding of the eleven fields, which is
  decoded again (lemma \<open>example_codec\<close>).
\<close>

section \<open>A codec for instances\<close>

definition put_str :: "string \<Rightarrow> string" where
  "put_str s = utoa (length s) @ '':'' @ s"

definition get_str :: "string \<Rightarrow> (string \<times> string) option" where
  "get_str t =
     (case cut t '':'' of
        None \<Rightarrow> None
      | Some (n, rest) \<Rightarrow>
          (case parse_uint n of
             None \<Rightarrow> None
           | Some k \<Rightarrow> if length rest < k then None else Some (take k rest, drop k rest)))"

fun get_strs :: "nat \<Rightarrow> string \<Rightarrow> string list option" where
  "get_strs 0 t = (if t = [] then Some [] else None)"
| "get_strs (Suc k) t =
     (case get_str t of None \<Rightarrow> None | Some (s, t') \<Rightarrow> map_option ((#) s) (get_strs k t'))"

definition put_bool :: "bool \<Rightarrow> string" where "put_bool b = (if b then ''1'' else ''0'')"

definition get_int :: "string \<Rightarrow> int" where
  "get_int s = (case s of c # cs \<Rightarrow> if c = CHR ''-'' then - int (digits_val cs) else int (digits_val s)
                | [] \<Rightarrow> 0)"

definition example_enc :: "inst \<Rightarrow> string" where
  "example_enc i = concat (map put_str
     [i_name i, i_management_url i, i_setup_key i, put_bool (i_sso i), i_netbird_bin i,
      itoa (i_index i), itoa (i_wireguard_port i), i_dns_mode i, put_bool (i_legacy_disable_dns i),
      put_bool (i_logged_in i), i_interface i])"

definition example_dec :: "string \<Rightarrow> string + inst" where
  "example_dec t =
     (case get_strs 11 t of
        Some [nm, url, key, sso, bin, idx, port, mode, legacy, logged, iface] \<Rightarrow>
          Inr \<lparr>i_name = nm, i_management_url = url, i_setup_key = key, i_sso = (sso = ''1''),
               i_netbird_bin = bin, i_index = get_int idx, i_wireguard_port = get_int port,
               i_dns_mode = mode, i_legacy_disable_dns = (legacy = ''1''),
               i_logged_in = (logged = ''1''), i_interface = iface\<rparr>
      | _ \<Rightarrow> Inl ''toml'')"

lemma get_put_str [simp]: "get_str (put_str s @ t) = Some (s, t)"
proof -
  have "CHR '':'' \<notin> set (utoa (length s))"
    using utoa_digits [of "length s"] by (auto simp: list_all_iff is_digit_def)
  from cut_char_sep [OF this, of "s @ t"] show ?thesis
    by (simp add: get_str_def put_str_def)
qed

lemma get_put_strs: "get_strs (length ss) (concat (map put_str ss)) = Some ss"
  by (induction ss) simp_all

lemma get_int_itoa [simp]: "get_int (itoa i) = i"
proof (cases "i < 0")
  case True
  then show ?thesis by (simp add: itoa_def get_int_def)
next
  case False
  obtain c cs where u: "utoa (nat i) = c # cs" by (cases "utoa (nat i)") auto
  then have "c \<noteq> CHR ''-''" using utoa_hd [of "nat i"] digit_not_sign by auto
  with u False digits_val_utoa [of "nat i"] show ?thesis by (simp add: itoa_def get_int_def)
qed

lemma put_bool_eq [simp]: "(put_bool b = ''1'') = b" by (simp add: put_bool_def)

lemma example_codec: "example_dec (example_enc i) = Inr i"
proof -
  let ?ss = "[i_name i, i_management_url i, i_setup_key i, put_bool (i_sso i), i_netbird_bin i,
      itoa (i_index i), itoa (i_wireguard_port i), i_dns_mode i, put_bool (i_legacy_disable_dns i),
      put_bool (i_logged_in i), i_interface i]"
  have "get_strs 11 (example_enc i) = Some ?ss"
    using get_put_strs [of ?ss] by (simp add: example_enc_def eval_nat_numeral)
  then show ?thesis by (simp add: example_dec_def)
qed

section \<open>An environment in which everything works\<close>

definition example_env :: env where
  "example_env =
     \<lparr>e_fault = (\<lambda>_ _. None), e_step = (\<lambda>_ f. f), e_drift = (\<lambda>_. 0),
      e_exec = (\<lambda>_ _ _. Inr []), e_spawn = (\<lambda>_. Inr 4242), e_kill = (\<lambda>_ _ _. Some ESRCH),
      e_status = (\<lambda>_ _. Inr (example_status ''host.mesh.example'' ''100.96.43.121/16'' [] [])),
      e_login = (\<lambda>_ _. Inr \<lparr>lr_needs_sso = False, lr_user_code = [], lr_uri = [], lr_uri_complete = []\<rparr>),
      e_networks = (\<lambda>_ _. Inr []), e_dial = (\<lambda>_. None), e_rpc = (\<lambda>_ _ _. None), e_cancelled = (\<lambda>_. False),
      e_ifaces = (\<lambda>_. Some []),
      e_http = (\<lambda>_ _ _. Inl ''offline''), e_release_json = (\<lambda>_. Inl ''json''), e_sha256 = (\<lambda>s. s),
      e_untar = (\<lambda>_. Inl ''gzip''), e_toml_enc = example_enc, e_toml_dec = example_dec,
      e_os = Linux, e_arch = ''amd64'', e_uid = 0, e_environ = [], e_home = Some ''/root'', e_hostname = Some ''box'',
      e_executable = Some ''/usr/local/bin/multibird''\<rparr>"

definition example_world :: "fs \<Rightarrow> world" where
  "example_world f = \<lparr>w_fs = f, w_hist = [], w_clock = 0, w_env = example_env\<rparr>"

lemma example_world_facts [simp]:
  "w_fs (example_world f) = f" "faultless (example_world f)"
  "w_env (example_world f) = example_env" "e_toml_enc example_env = example_enc"
  "e_toml_dec example_env = example_dec"
  by (simp_all add: example_world_def faultless_def example_env_def)

end
