(* ===== verification/Store.thy ===== *)
theory Store
  imports Example
begin

text \<open>
  \<^verbatim>\<open>internal/instance/store.go\<close>: one TOML file per instance under the config root.  The TOML
  library is not part of the program: encoding and decoding are parameters (\<open>e_toml_enc\<close>,
  \<open>e_toml_dec\<close>), and the theorems that need it assume what the library documents, that decoding
  an encoded instance gives it back (\<open>toml_ok\<close>).
\<close>

section \<open>Operations\<close>

record store =
  s_root :: string
  s_run :: string

definition store_params :: "store \<Rightarrow> inst \<Rightarrow> params" where
  "store_params s i = derive_params i (s_root s) (s_run s)"

definition toml_file :: "store \<Rightarrow> string \<Rightarrow> string" where
  "toml_file s name = path_join [s_root s, name, ''instance.toml'']"

definition save :: "store \<Rightarrow> inst \<Rightarrow> unit op" where
  "save s i =
     (let p = store_params s i
      in thn (wrap ''creating instance dir'' (mkdir_all (p_dir p) 448))
        (thn (wrap ''writing'' (open_trunc (p_toml_path p) 384))
        (bnd (asks (\<lambda>w. e_toml_enc (w_env w) i)) (\<lambda>text.
         bnd (attempt (write_open (p_toml_path p) text)) (\<lambda>r.
           case r of
             Inl e \<Rightarrow> thn (ignore (close_file (p_toml_path p))) (fail (Wrap ''encoding'' e))
           | Inr _ \<Rightarrow> wrap ''writing'' (close_file (p_toml_path p)))))))"

definition load :: "store \<Rightarrow> string \<Rightarrow> inst op" where
  "load s name =
     (if \<not> valid_name name then fail (ErrMsg ''invalid instance name'')
      else bnd (attempt (read_file (toml_file s name))) (\<lambda>r.
        case r of
          Inl e \<Rightarrow> if is_not_exist e then fail (ErrMsg ''no instance named'') else fail (Wrap ''reading'' e)
        | Inr text \<Rightarrow>
            bnd (asks (\<lambda>w. e_toml_dec (w_env w) text)) (\<lambda>d.
              case d of Inl m \<Rightarrow> fail (Wrap ''reading'' (ErrMsg m)) | Inr i \<Rightarrow> ret i)))"

fun load_entries :: "store \<Rightarrow> (string \<times> bool) list \<Rightarrow> inst list op" where
  "load_entries s [] = ret []"
| "load_entries s ((name, dir) # es) =
     (if \<not> dir then load_entries s es
      else bnd (attempt (stat (toml_file s name))) (\<lambda>r.
        case r of
          Inl _ \<Rightarrow> load_entries s es
        | Inr _ \<Rightarrow> bnd (load s name) (\<lambda>i. bnd (load_entries s es) (\<lambda>l. ret (i # l)))))"

definition list_store :: "store \<Rightarrow> inst list op" where
  "list_store s =
     bnd (attempt (read_dir (s_root s))) (\<lambda>r.
       case r of
         Inl e \<Rightarrow> if is_not_exist e then ret [] else fail (Wrap ''reading'' e)
       | Inr entries \<Rightarrow> bnd (load_entries s entries) (\<lambda>l. ret (sort_key i_name l)))"

text \<open>The counting loop of \<^verbatim>\<open>NextIndex\<close>; it ends because only finitely many indices are used.\<close>

function first_unused :: "int list \<Rightarrow> int \<Rightarrow> int" where
  "first_unused used n = (if n \<in> set used then first_unused used (n + 1) else n)"
  by auto
termination
proof (relation "measure (\<lambda>(used, n). card {x \<in> set used. n \<le> x})")
  fix used :: "int list" and n
  assume n: "n \<in> set used"
  have "n \<in> {x \<in> set used. n \<le> x} - {x \<in> set used. n + 1 \<le> x}" using n by simp
  then have "{x \<in> set used. n + 1 \<le> x} \<subset> {x \<in> set used. n \<le> x}" by force
  then show "((used, n + 1), used, n) \<in> measure (\<lambda>(used, n). card {x \<in> set used. n \<le> x})"
    by (simp add: psubset_card_mono)
qed simp

declare first_unused.simps [simp del]

definition next_index :: "store \<Rightarrow> int op" where
  "next_index s = bnd (list_store s) (\<lambda>l. ret (first_unused (map i_index l) 0))"

definition store_remove :: "store \<Rightarrow> inst \<Rightarrow> bool \<Rightarrow> unit op" where
  "store_remove s i purge =
     (let p = store_params s i
      in if purge then wrap ''purging'' (remove_all (p_dir p))
         else bnd (attempt (os_remove (p_toml_path p))) (\<lambda>r.
           case r of
             Inl e \<Rightarrow> if is_not_exist e then ret () else fail (Wrap ''removing'' e)
           | Inr _ \<Rightarrow> ret ()))"

section \<open>The index\<close>

lemma first_unused_props:
  "first_unused used n \<notin> set used \<and> n \<le> first_unused used n \<and>
     (\<forall>m. n \<le> m \<and> m < first_unused used n \<longrightarrow> m \<in> set used)"
proof (induction used n rule: first_unused.induct)
  case (1 used n)
  show ?case
  proof (cases "n \<in> set used")
    case True
    with 1 have IH: "first_unused used (n + 1) \<notin> set used" "n + 1 \<le> first_unused used (n + 1)"
      "\<forall>m. n + 1 \<le> m \<and> m < first_unused used (n + 1) \<longrightarrow> m \<in> set used" by auto
    have "first_unused used n = first_unused used (n + 1)"
      using True by (subst first_unused.simps) simp
    moreover have "m \<in> set used" if "n \<le> m" "m < first_unused used (n + 1)" for m
      using IH(3) True that by (cases "m = n") auto
    ultimately show ?thesis using IH by auto
  qed (subst first_unused.simps, subst first_unused.simps, subst first_unused.simps, auto)
qed

lemma first_unused_bound: "first_unused used 0 \<le> int (length used)"
proof -
  let ?n = "first_unused used 0"
  have "int ` {..<nat ?n} \<subseteq> set used"
    using first_unused_props [of used 0] by auto
  then have "card (int ` {..<nat ?n}) \<le> card (set used)" by (intro card_mono) auto
  then show ?thesis using card_length [of used] by (simp add: card_image)
qed

section \<open>Well-formed stores\<close>

text \<open>The library's contract, and a file system in which nothing sits where the store puts its
  directories and files: no file where a directory of it goes, no directory where a TOML file goes.\<close>

definition toml_ok :: "world \<Rightarrow> bool" where
  "toml_ok w \<longleftrightarrow> (\<forall>i. e_toml_dec (w_env w) (e_toml_enc (w_env w) i) = Inr i)"

definition no_file :: "fs \<Rightarrow> string \<Rightarrow> bool" where
  "no_file f p \<longleftrightarrow> (case map_of f p of Some (File _ _) \<Rightarrow> False | _ \<Rightarrow> True)"

definition no_dir :: "fs \<Rightarrow> string \<Rightarrow> bool" where
  "no_dir f p \<longleftrightarrow> (case map_of f p of Some (Dir _) \<Rightarrow> False | _ \<Rightarrow> True)"

definition store_ok :: "store \<Rightarrow> world \<Rightarrow> bool" where
  "store_ok s w \<longleftrightarrow> faultless w \<and> toml_ok w \<and>
     (\<forall>d \<in> set (ancestors (s_root s)). no_file (w_fs w) d) \<and>
     (\<forall>n. valid_name n \<longrightarrow> no_file (w_fs w) (path_join [s_root s, n]) \<and>
                          no_dir (w_fs w) (toml_file s n))"

section \<open>Where the files of an instance are\<close>

lemma path_join3:
  assumes "plain_elem e" and "plain_elem f"
  shows "path_join [d, e, f] = path_join [path_join [d, e], f]"
proof (cases "d = []")
  case True
  have "e \<noteq> []" using assms(1) by (simp add: plain_elem_def)
  then have "path_join [[], e, f] = render_path False [f, e]"
    using path_parts_append [of e f] assms path_parts_elem [OF assms(1)]
    by (simp add: path_join_def clean_def is_rooted_append)
  moreover have "path_join [path_join [[], e], f] = render_path False [f, e]"
    by (simp add: path_join2 [OF assms(2), of "path_join [[], e]"] path_simps assms)
  ultimately show ?thesis using True by simp
next
  case False
  have "path_parts (d @ CHR ''/'' # e @ CHR ''/'' # f) = f # e # path_parts d"
    using path_parts_append [of "d @ CHR ''/'' # e" f] path_parts_append [OF False assms(1)] assms(2)
    by simp
  with False show ?thesis
    by (simp add: path_join2 [OF assms(2)] path_simps assms path_join_def [of "[d, e, f]"] clean_def
        is_rooted_append)
qed

lemma toml_plain [simp]: "plain_elem ''instance.toml''"
  by (simp add: plain_elem_def)

lemma toml_file_join:
  "valid_name n \<Longrightarrow> toml_file s n = path_join [path_join [s_root s, n], ''instance.toml'']"
  unfolding toml_file_def by (rule path_join3) (auto simp: valid_name_plain)

lemma store_params_paths:
  "p_dir (store_params s i) = path_join [s_root s, i_name i]"
  "valid_name (i_name i) \<Longrightarrow> p_toml_path (store_params s i) = toml_file s (i_name i)"
  by (simp_all add: store_params_def derive_params_def Let_def toml_file_join)

lemma toml_file_inject [simp]:
  "valid_name n \<Longrightarrow> valid_name m \<Longrightarrow> toml_file s n = toml_file s m \<longleftrightarrow> n = m"
  by (auto simp: toml_file_join path_simps valid_name_plain)

lemma toml_file_parts:
  "valid_name n \<Longrightarrow> path_parts (toml_file s n) = ''instance.toml'' # n # path_parts (s_root s)"
  "valid_name n \<Longrightarrow> is_rooted (toml_file s n) = is_rooted (s_root s)"
  by (simp_all add: toml_file_join path_simps valid_name_plain)

lemma instance_dir_parts:
  "valid_name n \<Longrightarrow> path_parts (path_join [s_root s, n]) = n # path_parts (s_root s)"
  "valid_name n \<Longrightarrow> is_rooted (path_join [s_root s, n]) = is_rooted (s_root s)"
  by (simp_all add: path_simps valid_name_plain)

lemma toml_file_dir: "valid_name n \<Longrightarrow> path_dir (toml_file s n) = path_join [s_root s, n]"
  by (simp add: toml_file_join path_simps valid_name_plain)

lemma ancestors_join:
  assumes "plain_elem e"
  shows "ancestors (path_join [d, e]) = ancestors d @ [path_join [d, e]]"
  using assms by (simp add: ancestors_def path_simps path_join2 [OF assms])

lemma ancestors_parts:
  "q \<in> set (ancestors p) \<Longrightarrow> suffix (path_parts q) (path_parts p) \<and> is_rooted q = is_rooted p"
proof -
  assume "q \<in> set (ancestors p)"
  then obtain st where st: "suffix st (path_parts p)" "q = render_path (is_rooted p) st"
    by (auto simp: ancestors_def)
  have "normal_stack r (xs @ ys) \<Longrightarrow> normal_stack r ys" for r xs ys
    by (induction xs) auto
  with st(1) path_parts_normal [of p] have "normal_stack (is_rooted p) st"
    by (metis suffix_def)
  with st show ?thesis by simp
qed

lemma toml_not_ancestor:
  assumes "valid_name n" and "valid_name m"
  shows "toml_file s n \<notin> set (ancestors (path_join [s_root s, m]))"
proof
  assume "toml_file s n \<in> set (ancestors (path_join [s_root s, m]))"
  from ancestors_parts [OF this] have
    "length (path_parts (toml_file s n)) \<le> length (path_parts (path_join [s_root s, m]))"
    by (auto dest: suffix_length_le)
  then show False using assms by (simp add: toml_file_parts instance_dir_parts)
qed

section \<open>What saving, loading and removing do\<close>

lemma mkdirs_result:
  assumes "\<forall>d \<in> set ds. no_file f d"
  shows "\<exists>f'. mkdirs f m ds = (Inr (), f') \<and>
    (\<forall>q. map_of f' q = (if q \<in> set ds \<and> map_of f q = None then Some (Dir m) else map_of f q))"
  using assms
proof (induction f m ds rule: mkdirs.induct)
  case (2 f m d ds)
  show ?case
  proof (cases "map_of f d")
    case None
    have "\<forall>x \<in> set ds. no_file (fs_put f d (Dir m)) x"
      using "2.prems" by (auto simp: no_file_def)
    with "2.IH"(1) [OF None] None show ?thesis by auto
  next
    case (Some n)
    with "2.prems" obtain k where k: "n = Dir k" by (cases n) (auto simp: no_file_def)
    have "\<forall>x \<in> set ds. no_file f x" using "2.prems" by auto
    with "2.IH"(2) [OF Some k] Some k show ?thesis by auto
  qed
qed simp

lemma fs_call_ok:
  "faultless w \<Longrightarrow> act (w_fs w) = (r, f') \<Longrightarrow>
     fs_call f act w = (r, w\<lparr>w_fs := f', w_hist := EvFs f # w_hist w\<rparr>)"
  by (simp add: fs_call_def faultless_def log_event_def)

text \<open>What the store holds for a name.\<close>

definition stored :: "store \<Rightarrow> world \<Rightarrow> string \<Rightarrow> inst option" where
  "stored s w n =
     (case map_of (w_fs w) (toml_file s n) of
        Some (File c _) \<Rightarrow> (case e_toml_dec (w_env w) c of Inr i \<Rightarrow> Some i | Inl _ \<Rightarrow> None)
      | _ \<Rightarrow> None)"

definition same_run :: "world \<Rightarrow> world \<Rightarrow> bool" where
  "same_run w w' \<longleftrightarrow> w_env w' = w_env w \<and> w_clock w' = w_clock w"

lemma faultless_same: "same_run w w' \<Longrightarrow> faultless w' = faultless w"
  and toml_ok_same: "same_run w w' \<Longrightarrow> toml_ok w' = toml_ok w"
  by (simp_all add: same_run_def faultless_def toml_ok_def)

lemma path_len_neq: "path_parts p \<noteq> path_parts q \<Longrightarrow> p \<noteq> q"
  by auto

lemma root_ancestor_not_toml:
  assumes "valid_name n" and "d \<in> set (ancestors (s_root s))"
  shows "d \<noteq> toml_file s n"
proof -
  have "path_join [s_root s, n] \<noteq> d \<or> True" by simp
  have "d \<in> set (ancestors (path_join [s_root s, n]))"
    using assms ancestors_join [OF valid_name_plain(1) [OF assms(1)], of "s_root s"] by simp
  with toml_not_ancestor [OF assms(1,1)] show ?thesis by metis
qed

lemma instance_dir_not_toml:
  assumes "valid_name n" and "valid_name m"
  shows "path_join [s_root s, n] \<noteq> toml_file s m"
proof -
  have "length (path_parts (path_join [s_root s, n])) \<noteq> length (path_parts (toml_file s m))"
    using assms by (simp add: toml_file_parts instance_dir_parts)
  then show ?thesis by metis
qed

text \<open>Replacing the file of one name, and creating directories on the way, keeps the store
  well-formed.\<close>

lemma store_ok_step:
  assumes "store_ok s w" and "same_run w w'" and "valid_name n"
    and "\<And>q. q \<noteq> toml_file s n \<Longrightarrow>
           map_of (w_fs w') q = map_of (w_fs w) q \<or> map_of (w_fs w') q = None \<or>
           (map_of (w_fs w) q = None \<and> (\<exists>m. map_of (w_fs w') q = Some (Dir m)) \<and>
            q \<in> set (ancestors (path_join [s_root s, n])))"
    and "no_dir (w_fs w') (toml_file s n)"
  shows "store_ok s w'"
proof -
  have nf: "no_file (w_fs w') q" if "q \<noteq> toml_file s n" "no_file (w_fs w) q" for q
    using assms(4) [OF that(1)] that(2) by (auto simp: no_file_def)
  have nd: "no_dir (w_fs w') (toml_file s m)" if "valid_name m" for m
  proof (cases "m = n")
    case False
    then have ne: "toml_file s m \<noteq> toml_file s n" using that assms(3) by simp
    have "toml_file s m \<notin> set (ancestors (path_join [s_root s, n]))"
      by (rule toml_not_ancestor) (use that assms(3) in auto)
    with assms(4) [OF ne] that assms(1) show ?thesis by (auto simp: store_ok_def no_dir_def)
  qed (use assms(5) in simp)
  show ?thesis
    unfolding store_ok_def
    using assms(1,2,3) nf nd root_ancestor_not_toml [OF assms(3)] instance_dir_not_toml [OF _ assms(3)]
    by (auto simp: store_ok_def faultless_same toml_ok_same)
qed

lemma save_effect:
  assumes "store_ok s w" and "valid_name (i_name i)"
  shows "\<exists>w'. save s i w = (Inr (), w') \<and> store_ok s w' \<and> same_run w w' \<and>
    stored s w' (i_name i) = Some i \<and>
    map_of (w_fs w') (toml_file s (i_name i)) = Some (File (e_toml_enc (w_env w) i)
      (case map_of (w_fs w) (toml_file s (i_name i)) of Some (File _ m) \<Rightarrow> m | _ \<Rightarrow> 384)) \<and>
    (\<forall>q. q \<noteq> toml_file s (i_name i) \<longrightarrow> map_of (w_fs w') q =
       (if q \<in> set (ancestors (path_join [s_root s, i_name i])) \<and> map_of (w_fs w) q = None
        then Some (Dir 448) else map_of (w_fs w) q))"
proof -
  let ?n = "i_name i" and ?t = "toml_file s (i_name i)"
  let ?as = "ancestors (path_join [s_root s, ?n])"
  let ?c = "e_toml_enc (w_env w) i"
  have fl: "faultless w" and tk: "toml_ok w" using assms(1) by (simp_all add: store_ok_def)
  have as: "?as = ancestors (s_root s) @ [path_join [s_root s, ?n]]"
    using ancestors_join valid_name_plain(1) [OF assms(2)] by blast
  have "\<forall>d \<in> set ?as. no_file (w_fs w) d" using assms by (auto simp: as store_ok_def)
  from mkdirs_result [OF this, of 448] obtain f1 where f1: "mkdirs (w_fs w) 448 ?as = (Inr (), f1)"
    and look: "\<And>q. map_of f1 q = (if q \<in> set ?as \<and> map_of (w_fs w) q = None then Some (Dir 448)
      else map_of (w_fs w) q)" by blast
  have tn: "?t \<notin> set ?as" by (rule toml_not_ancestor) (use assms in auto)
  have "map_of f1 (path_join [s_root s, ?n]) \<noteq> None"
    and "no_file f1 (path_join [s_root s, ?n])"
    using assms by (auto simp: look as no_file_def store_ok_def)
  then have dir: "is_dir f1 (path_dir ?t)"
    using assms(2) by (auto simp: is_dir_def toml_file_dir no_file_def split: option.splits node.splits)
  have ntd: "no_dir f1 ?t" using assms tn by (simp add: no_dir_def look store_ok_def)
  obtain m where put: "put_file f1 ?t [] 384 = (Inr (), fs_put f1 ?t (File [] m))"
    and m: "m = (case map_of (w_fs w) ?t of Some (File _ k) \<Rightarrow> k | _ \<Rightarrow> 384)"
    using dir ntd tn
    by (cases "map_of f1 ?t") (auto simp: put_file_def no_dir_def look split: node.splits)
  let ?w1 = "w\<lparr>w_fs := f1, w_hist := EvFs (OpMkdirAll (path_join [s_root s, ?n]) 448) # w_hist w\<rparr>"
  let ?w2 = "w\<lparr>w_fs := fs_put f1 ?t (File [] m), w_hist := EvFs (OpOpenTrunc ?t 384) # w_hist ?w1\<rparr>"
  let ?w3 = "w\<lparr>w_fs := fs_put (fs_put f1 ?t (File [] m)) ?t (File ?c m),
      w_hist := EvFs (OpWrite ?t) # w_hist ?w2\<rparr>"
  let ?w4 = "?w3\<lparr>w_hist := EvFs (OpClose ?t) # w_hist ?w3\<rparr>"
  have 1: "mkdir_all (path_join [s_root s, ?n]) 448 w = (Inr (), ?w1)"
    using fl f1 by (simp add: mkdir_all_def fs_call_ok)
  have 2: "open_trunc ?t 384 ?w1 = (Inr (), ?w2)"
    using fl put by (simp add: open_trunc_def fs_call_ok faultless_def)
  have 3: "write_open ?t ?c ?w2 = (Inr (), ?w3)"
    using fl by (simp add: write_open_def fs_call_ok faultless_def)
  have 4: "close_file ?t ?w3 = (Inr (), ?w4)"
    using fl by (simp add: close_file_def fs_call_ok faultless_def)
  have "save s i w = (Inr (), ?w4)"
    unfolding save_def Let_def store_params_paths(1) store_params_paths(2) [OF assms(2)] thn_def
    using 1 2 3 4 by (simp add: bnd_def wrap_def attempt_def asks_def)
  moreover have sr: "same_run w ?w4" by (simp add: same_run_def)
  moreover have "store_ok s ?w4"
    by (rule store_ok_step [OF assms(1) sr assms(2)]) (auto simp: look no_dir_def)
  moreover have "stored s ?w4 ?n = Some i" using tk by (simp add: stored_def toml_ok_def)
  moreover have "map_of (w_fs ?w4) ?t = Some (File ?c m)" by simp
  ultimately show ?thesis unfolding m [symmetric] by (intro exI [of _ ?w4]) (auto simp: look)
qed

lemma load_effect:
  assumes "load s n w = (r, w')"
  shows "w_fs w' = w_fs w" and "same_run w w'" and "r = Inr i \<Longrightarrow> valid_name n \<and> stored s w n = Some i"
    and "faultless w \<Longrightarrow> valid_name n \<Longrightarrow> stored s w n = Some i \<Longrightarrow> r = Inr i"
    and "is_ok r \<Longrightarrow> \<exists>i. r = Inr i"
proof -
  obtain r1 w1 where rd: "read_file (toml_file s n) w = (r1, w1)" by (cases "read_file (toml_file s n) w")
  then have f: "w_fs w1 = w_fs w" "same_run w w1"
    by (auto simp: read_file_def fs_call_def log_event_def same_run_def split: option.splits prod.splits)
  have rest: "w' = (if valid_name n then w1 else w)"
    and res: "valid_name n \<Longrightarrow> r = (case r1 of
        Inl e \<Rightarrow> Inl (if is_not_exist e then ErrMsg ''no instance named'' else Wrap ''reading'' e)
      | Inr text \<Rightarrow> (case e_toml_dec (w_env w) text of Inl m \<Rightarrow> Inl (Wrap ''reading'' (ErrMsg m)) | Inr i \<Rightarrow> Inr i))"
    using assms f(2)
    by (auto simp: load_def rd bnd_def attempt_def asks_def same_run_def split: sum.splits if_splits)
  have inv: "r = Inr i \<Longrightarrow> valid_name n" for i using assms by (auto simp: load_def split: if_splits)
  show "w_fs w' = w_fs w" "same_run w w'" using f by (simp_all add: rest same_run_def)
  have r1: "r1 = (case e_fault (w_env w) (w_hist w) (OpRead (toml_file s n)) of
      Some m \<Rightarrow> Inl (ErrSys m) | None \<Rightarrow> get_file (w_fs w) (toml_file s n))"
    using rd by (auto simp: read_file_def fs_call_def split: option.splits)
  show "valid_name n \<and> stored s w n = Some i" if "r = Inr i"
    using inv [OF that] res that
    by (auto simp: r1 stored_def get_file_def split: option.splits sum.splits node.splits)
  show "r = Inr i" if "faultless w" "valid_name n" "stored s w n = Some i"
    using res that
    by (auto simp: r1 stored_def faultless_def get_file_def split: option.splits sum.splits node.splits)
  show "is_ok r \<Longrightarrow> \<exists>i. r = Inr i" by (simp add: is_ok_iff)
qed

lemma remove_effect:
  assumes "store_ok s w" and "valid_name (i_name i)"
  shows "\<exists>w'. store_remove s i purge w = (Inr (), w') \<and> store_ok s w' \<and> same_run w w' \<and>
    stored s w' (i_name i) = None \<and>
    (\<forall>q. q \<noteq> toml_file s (i_name i) \<and> q \<noteq> p_dir (store_params s i) \<and>
         \<not> below (p_dir (store_params s i)) q \<longrightarrow> map_of (w_fs w') q = map_of (w_fs w) q)"
proof -
  let ?n = "i_name i" and ?t = "toml_file s (i_name i)" and ?d = "path_join [s_root s, i_name i]"
  have fl: "faultless w" using assms by (simp add: store_ok_def)
  note paths = store_params_paths(1) store_params_paths(2) [OF assms(2)]
  show ?thesis
  proof (cases purge)
    case True
    let ?w' = "w\<lparr>w_fs := fs_del_tree (w_fs w) ?d, w_hist := EvFs (OpRemoveAll ?d) # w_hist w\<rparr>"
    have "store_remove s i purge w = (Inr (), ?w')"
      using True fl by (simp add: store_remove_def Let_def paths remove_all_def fs_call_ok wrap_def)
    moreover have sr: "same_run w ?w'" by (simp add: same_run_def)
    moreover have bt: "below ?d ?t"
      unfolding toml_file_join [OF assms(2)] by (rule below_join) simp
    moreover have "store_ok s ?w'"
      by (rule store_ok_step [OF assms(1) sr assms(2)]) (use bt in \<open>auto simp: no_dir_def\<close>)
    ultimately show ?thesis by (auto simp: stored_def paths)
  next
    case False
    have nd: "no_dir (w_fs w) ?t" using assms by (simp add: store_ok_def)
    let ?f = "fs_del (w_fs w) ?t"
    obtain r f where rm: "remove_node (w_fs w) ?t = (r, f)" and f: "\<forall>q. map_of f q = map_of ?f q"
      and r: "r = Inr () \<or> r = Inl (ErrNotExist ?t)"
      using nd by (cases "map_of (w_fs w) ?t") (auto simp: remove_node_def no_dir_def split: node.splits)
    let ?w' = "w\<lparr>w_fs := f, w_hist := EvFs (OpRemove ?t) # w_hist w\<rparr>"
    have "store_remove s i purge w = (Inr (), ?w')"
      using False fl rm r
      by (auto simp: store_remove_def Let_def paths os_remove_def fs_call_ok bnd_def attempt_def
          is_not_exist_def)
    moreover have sr: "same_run w ?w'" by (simp add: same_run_def)
    moreover have "store_ok s ?w'"
      by (rule store_ok_step [OF assms(1) sr assms(2)]) (use f in \<open>auto simp: no_dir_def\<close>)
    ultimately show ?thesis using f by (auto simp: stored_def)
  qed
qed

lemma stored_cong:
  "map_of (w_fs w') (toml_file s n) = map_of (w_fs w) (toml_file s n) \<Longrightarrow> same_run w w' \<Longrightarrow>
     stored s w' n = stored s w n"
  by (simp add: stored_def same_run_def split: option.split node.split)

lemma cons_cons_append: "a # b # ps = x @ c # ps \<Longrightarrow> b = c"
proof -
  assume eq: "a # b # ps = x @ c # ps"
  have "length (a # b # ps) = length (x @ c # ps)" unfolding eq ..
  then have "length x = Suc 0" by simp
  then obtain y where "x = [y]" by (cases x) auto
  with eq show ?thesis by simp
qed

section \<open>The store as a keyed collection\<close>

text \<open>
  What the commands rely on when they save an instance and load it later: a collection keyed by
  name, in which writing or deleting one entry changes no other.
\<close>

locale keyed_store =
  fixes ok :: "'w \<Rightarrow> bool"
    and valid :: "'k \<Rightarrow> bool"
    and key :: "'v \<Rightarrow> 'k"
    and get :: "'w \<Rightarrow> 'k \<Rightarrow> 'v option"
    and put :: "'v \<Rightarrow> 'w \<Rightarrow> 'w"
    and del :: "'v \<Rightarrow> 'w \<Rightarrow> 'w"
  assumes put_ok: "ok w \<Longrightarrow> valid (key v) \<Longrightarrow> ok (put v w)"
    and del_ok: "ok w \<Longrightarrow> valid (key v) \<Longrightarrow> ok (del v w)"
    and get_put: "ok w \<Longrightarrow> valid (key v) \<Longrightarrow> valid k \<Longrightarrow>
      get (put v w) k = (if k = key v then Some v else get w k)"
    and get_del: "ok w \<Longrightarrow> valid (key v) \<Longrightarrow> valid k \<Longrightarrow>
      get (del v w) k = (if k = key v then None else get w k)"
begin

lemma fold_put:
  assumes "ok w" and "\<And>v. v \<in> set vs \<Longrightarrow> valid (key v)"
  shows "ok (fold put vs w) \<and> (valid k \<longrightarrow>
    get (fold put vs w) k = (case find (\<lambda>v. key v = k) (rev vs) of Some v \<Rightarrow> Some v | None \<Rightarrow> get w k))"
  using assms
proof (induction vs rule: rev_induct)
  case (snoc v vs)
  then have IH: "ok (fold put vs w)" "valid k \<Longrightarrow> get (fold put vs w) k =
      (case find (\<lambda>v. key v = k) (rev vs) of Some v \<Rightarrow> Some v | None \<Rightarrow> get w k)" by auto
  with snoc.prems(2) show ?case by (auto simp: put_ok get_put)
qed simp

lemma put_commute:
  assumes "ok w" and "valid (key u)" and "valid (key v)" and "key u \<noteq> key v" and "valid k"
  shows "get (put u (put v w)) k = get (put v (put u w)) k"
  using assms by (simp add: get_put put_ok)

lemma del_put: "ok w \<Longrightarrow> valid (key v) \<Longrightarrow> valid k \<Longrightarrow> k \<noteq> key v \<Longrightarrow> get (del v (put v w)) k = get w k"
  by (simp add: get_del get_put put_ok)

end

interpretation tomls: keyed_store "store_ok s" valid_name i_name "stored s"
  "\<lambda>i w. snd (save s i w)" "\<lambda>i w. snd (store_remove s i purge w)" for s purge
proof
  fix w :: world and i :: inst and k :: string
  assume ok: "store_ok s w" and i: "valid_name (i_name i)"
  note se = save_effect [OF ok i] and re = remove_effect [OF ok i, of purge]
  from se show "store_ok s (snd (save s i w))" by auto
  from re show "store_ok s (snd (store_remove s i purge w))" by auto
  assume k: "valid_name k"
  have na: "toml_file s k \<notin> set (ancestors (path_join [s_root s, i_name i]))"
    by (rule toml_not_ancestor [OF k i])
  show "stored s (snd (save s i w)) k = (if k = i_name i then Some i else stored s w k)"
  proof (cases "k = i_name i")
    case False
    then have "toml_file s k \<noteq> toml_file s (i_name i)" using i k by simp
    with se na False show ?thesis by (elim exE conjE) (simp add: stored_cong)
  qed (use se in auto)
  have "\<not> below (path_join [s_root s, i_name i]) (toml_file s k) \<and> toml_file s k \<noteq> path_join [s_root s, i_name i]"
    if "k \<noteq> i_name i"
  proof
    show "toml_file s k \<noteq> path_join [s_root s, i_name i]" using instance_dir_not_toml [OF i k] by metis
    show "\<not> below (path_join [s_root s, i_name i]) (toml_file s k)"
    proof
      assume "below (path_join [s_root s, i_name i]) (toml_file s k)"
      then obtain x where x: "x \<noteq> []"
        "''instance.toml'' # k # path_parts (s_root s) = x @ i_name i # path_parts (s_root s)"
        using i k by (auto simp: below_def toml_file_parts instance_dir_parts)
      then show False using cons_cons_append that by metis
    qed
  qed
  note apart = this
  show "stored s (snd (store_remove s i purge w)) k = (if k = i_name i then None else stored s w k)"
  proof (cases "k = i_name i")
    case False
    then have "toml_file s k \<noteq> toml_file s (i_name i)" using i k by simp
    with re apart [OF False] False show ?thesis
      by (elim exE conjE) (simp add: stored_cong store_params_paths(1))
  qed (use re in auto)
qed

section \<open>Listing\<close>

lemma same_run_trans: "same_run u v \<Longrightarrow> same_run v w \<Longrightarrow> same_run u w"
  by (simp add: same_run_def)

lemma stored_same: "w_fs w' = w_fs w \<Longrightarrow> same_run w w' \<Longrightarrow> stored s w' n = stored s w n"
  by (rule stored_cong) auto

lemma stat_frame:
  "stat p w = (r, w') \<Longrightarrow> w_fs w' = w_fs w \<and> same_run w w' \<and>
     (faultless w \<longrightarrow> is_ok r = (map_of (w_fs w) p \<noteq> None))"
  by (auto simp: stat_def fs_call_def log_event_def same_run_def faultless_def
      split: option.splits prod.splits)

definition entries_loaded :: "store \<Rightarrow> world \<Rightarrow> (string \<times> bool) list \<Rightarrow> inst list \<Rightarrow> bool" where
  "entries_loaded s w es l \<longleftrightarrow>
     (\<forall>i \<in> set l. \<exists>n. (n, True) \<in> set es \<and> valid_name n \<and> stored s w n = Some i) \<and>
     (faultless w \<longrightarrow> (\<forall>n. (n, True) \<in> set es \<longrightarrow> map_of (w_fs w) (toml_file s n) \<noteq> None \<longrightarrow>
        valid_name n \<and> (\<exists>i \<in> set l. stored s w n = Some i)))"

lemma entries_loaded_skip:
  assumes "entries_loaded s w es l"
    and "d \<Longrightarrow> faultless w \<Longrightarrow> map_of (w_fs w) (toml_file s n) = None"
  shows "entries_loaded s w ((n, d) # es) l"
  using assms unfolding entries_loaded_def by auto

lemma entries_loaded_take:
  assumes "entries_loaded s w es l" and "valid_name n" and "stored s w n = Some i"
  shows "entries_loaded s w ((n, d) # es) (i # l) \<or> \<not> d"
  using assms unfolding entries_loaded_def by (cases d) (simp_all, blast)

lemma entries_loaded_same:
  assumes "w_fs w1 = w_fs w" and "same_run w w1"
  shows "entries_loaded s w1 = entries_loaded s w"
proof -
  have "stored s w1 = stored s w" using stored_same [OF assms] by auto
  then show ?thesis using assms by (intro ext) (simp add: entries_loaded_def faultless_same)
qed

lemma load_entries_effect:
  assumes "load_entries s es w = (r, w')"
  shows "w_fs w' = w_fs w \<and> same_run w w' \<and> (\<forall>l. r = Inr l \<longrightarrow> entries_loaded s w es l)"
  using assms
proof (induction s es arbitrary: w r w' rule: load_entries.induct)
  case (1 s)
  then show ?case by (auto simp: same_run_def entries_loaded_def)
next
  case (2 s name dir es)
  show ?case
  proof (cases dir)
    case False
    with "2.prems" have "load_entries s es w = (r, w')" by simp
    from "2.IH"(1) [OF False this] False show ?thesis by (simp add: entries_loaded_skip)
  next
    case True
    obtain r1 w1 where st: "stat (toml_file s name) w = (r1, w1)" by (cases "stat (toml_file s name) w")
    from stat_frame [OF st] have f1: "w_fs w1 = w_fs w" "same_run w w1"
      and ok: "faultless w \<Longrightarrow> is_ok r1 = (map_of (w_fs w) (toml_file s name) \<noteq> None)" by auto
    show ?thesis
    proof (cases r1)
      case (Inl e)
      with "2.prems" True st have "load_entries s es w1 = (r, w')"
        by (simp add: bnd_def attempt_def)
      from "2.IH"(2) [OF _ this] True
      have "w_fs w' = w_fs w1" "same_run w1 w'" "\<forall>l. r = Inr l \<longrightarrow> entries_loaded s w1 es l" by auto
      moreover have "faultless w \<Longrightarrow> map_of (w_fs w) (toml_file s name) = None" using ok Inl by simp
      ultimately show ?thesis
        using f1 same_run_trans [OF f1(2)]
        by (simp add: entries_loaded_same [OF f1] entries_loaded_skip)
    next
      case (Inr n)
      obtain r2 w2 where ld: "load s name w1 = (r2, w2)" by (cases "load s name w1")
      have f2: "w_fs w2 = w_fs w" "same_run w w2"
        using load_effect(1,2) [OF ld] f1 same_run_trans [OF f1(2)] by auto
      obtain r3 w3 where es: "load_entries s es w2 = (r3, w3)" by (cases "load_entries s es w2")
      have rr: "(r, w') = (case r2 of Inl e \<Rightarrow> (Inl e, w2) | Inr i \<Rightarrow>
          (case r3 of Inl e \<Rightarrow> (Inl e, w3) | Inr l \<Rightarrow> (Inr (i # l), w3)))"
        using "2.prems" True st Inr ld es by (auto simp: bnd_def attempt_def split: sum.splits)
      show ?thesis
      proof (cases r2)
        case (Inl e)
        with rr f2 show ?thesis by simp
      next
        case i: (Inr i)
        from load_effect(3) [OF ld i] have nm: "valid_name name" "stored s w name = Some i"
          using stored_same [OF f1] by auto
        from "2.IH"(3) [OF _ es] True
        have IH: "w_fs w3 = w_fs w2" "same_run w2 w3" "\<forall>l. r3 = Inr l \<longrightarrow> entries_loaded s w2 es l" by auto
        then have "w_fs w3 = w_fs w" "same_run w w3" using f2 same_run_trans [OF f2(2)] by auto
        moreover have "entries_loaded s w ((name, dir) # es) (i # l)" if "r3 = Inr l" for l
          using entries_loaded_take [OF _ nm] IH(3) that True by (auto simp: entries_loaded_same [OF f2])
        ultimately show ?thesis using rr i by (auto split: sum.splits)
      qed
    qed
  qed
qed

text \<open>The instance's directory is a directory of the root, as \<^verbatim>\<open>Save\<close> leaves it.\<close>

definition placed :: "store \<Rightarrow> world \<Rightarrow> string \<Rightarrow> bool" where
  "placed s w n \<longleftrightarrow> is_dir (w_fs w) (s_root s) \<and> is_dir (w_fs w) (path_join [s_root s, n])"

lemma is_dir_entry: "is_dir f p \<Longrightarrow> p \<noteq> ''/'' \<Longrightarrow> p \<in> set (map fst f)"
  by (auto simp: is_dir_def map_of_eq_None_iff split: option.splits dest!: map_of_SomeD)
     (metis fst_conv image_eqI)

lemma placed_child:
  assumes "placed s w n" and "valid_name n" and "clean (s_root s) = s_root s"
  shows "(n, True) \<in> set (map (\<lambda>n. (n, is_dir (w_fs w) (path_join [s_root s, n]))) (children (w_fs w) (s_root s)))"
proof -
  let ?d = "path_join [s_root s, n]"
  have "path_parts ?d = n # path_parts (s_root s)" by (rule instance_dir_parts(1) [OF assms(2)])
  then have ne: "?d \<noteq> s_root s" "?d \<noteq> ''/''"
    by (auto dest: arg_cong [where f = path_parts] arg_cong [where f = length]
        simp: path_parts_def split_on_def clean_step_def)
  then have "?d \<in> set (map fst (w_fs w))"
    using assms(1) is_dir_entry by (auto simp: placed_def)
  moreover have "path_dir ?d = s_root s" "path_base ?d = n"
    using assms(2,3) by (simp_all add: path_simps valid_name_plain)
  ultimately have "n \<in> set (children (w_fs w) (s_root s))"
    using ne by (force simp: children_def)
  then show ?thesis using assms(1) by (auto simp: placed_def)
qed

lemma read_dir_effect:
  "read_dir p w = (r, w') \<Longrightarrow> w_fs w' = w_fs w \<and> same_run w w' \<and>
     (\<forall>es. r = Inr es \<longrightarrow> is_dir (w_fs w) p \<and> es = map (\<lambda>n. (n, is_dir (w_fs w) (path_join [p, n]))) (children (w_fs w) p)) \<and>
     (faultless w \<and> is_dir (w_fs w) p \<longrightarrow> is_ok r)"
  by (auto simp: read_dir_def fs_call_def log_event_def same_run_def faultless_def
      split: option.splits prod.splits if_splits)

lemma list_effect:
  assumes "list_store s w = (r, w')"
  shows "w_fs w' = w_fs w" and "same_run w w'"
    and "r = Inr l \<Longrightarrow> sorted (map i_name l)"
    and "r = Inr l \<Longrightarrow> i \<in> set l \<Longrightarrow> \<exists>n. valid_name n \<and> stored s w n = Some i"
    and "r = Inr l \<Longrightarrow> faultless w \<Longrightarrow> clean (s_root s) = s_root s \<Longrightarrow> valid_name n \<Longrightarrow> placed s w n \<Longrightarrow>
      map_of (w_fs w) (toml_file s n) \<noteq> None \<Longrightarrow> \<exists>i \<in> set l. stored s w n = Some i"
proof -
  obtain r1 w1 where rd: "read_dir (s_root s) w = (r1, w1)" by (cases "read_dir (s_root s) w")
  from read_dir_effect [OF this] have f1: "w_fs w1 = w_fs w" "same_run w w1"
    and es: "\<And>es. r1 = Inr es \<Longrightarrow> es = map (\<lambda>n. (n, is_dir (w_fs w) (path_join [s_root s, n])))
      (children (w_fs w) (s_root s))"
    and ok: "faultless w \<and> is_dir (w_fs w) (s_root s) \<longrightarrow> is_ok r1" by auto
  have "w_fs w' = w_fs w \<and> same_run w w' \<and> (\<forall>l. r = Inr l \<longrightarrow> sorted (map i_name l) \<and>
    (case r1 of Inl _ \<Rightarrow> l = [] | Inr es \<Rightarrow> entries_loaded s w es l))"
  proof (cases r1)
    case (Inl e)
    with assms rd f1 show ?thesis
      by (auto simp: list_store_def bnd_def attempt_def split: if_splits)
  next
    case (Inr es)
    obtain r2 w2 where le: "load_entries s es w1 = (r2, w2)" by (cases "load_entries s es w1")
    from load_entries_effect [OF this] have f2: "w_fs w2 = w_fs w" "same_run w w2"
      and l: "\<And>l. r2 = Inr l \<Longrightarrow> entries_loaded s w es l"
      using f1 same_run_trans [OF f1(2)] by (auto simp: entries_loaded_same [OF f1])
    have "(r, w') = (case r2 of Inl e \<Rightarrow> (Inl e, w2) | Inr l \<Rightarrow> (Inr (sort_key i_name l), w2))"
      using assms rd Inr le by (auto simp: list_store_def bnd_def attempt_def split: sum.splits)
    then show ?thesis
      using f2 l Inr by (auto split: sum.splits simp: entries_loaded_def)
  qed
  then have f: "w_fs w' = w_fs w" "same_run w w'"
    and res: "\<And>l. r = Inr l \<Longrightarrow> sorted (map i_name l) \<and>
      (case r1 of Inl _ \<Rightarrow> l = [] | Inr es \<Rightarrow> entries_loaded s w es l)" by blast+
  show "w_fs w' = w_fs w" "same_run w w'" using f .
  show "r = Inr l \<Longrightarrow> sorted (map i_name l)" using res by blast
  show "r = Inr l \<Longrightarrow> i \<in> set l \<Longrightarrow> \<exists>n. valid_name n \<and> stored s w n = Some i"
    using res [of l] by (auto simp: entries_loaded_def split: sum.splits)
  show "\<exists>i \<in> set l. stored s w n = Some i"
    if "r = Inr l" "faultless w" "clean (s_root s) = s_root s" "valid_name n" "placed s w n"
      "map_of (w_fs w) (toml_file s n) \<noteq> None"
  proof -
    from ok that(2,5) obtain es' where r1: "r1 = Inr es'" by (auto simp: placed_def is_ok_iff)
    with es placed_child [OF that(5,4,3)] have "(n, True) \<in> set es'" by auto
    moreover have "entries_loaded s w es' l" using res [OF that(1)] r1 by simp
    ultimately show ?thesis using that(2,6) by (simp add: entries_loaded_def)
  qed
qed

section \<open>Properties\<close>

text \<open>C33: Save and load.  In a well-formed store saving an instance under a valid name succeeds;
  loading the name then gives exactly the instance back, and every other name loads what it loaded
  before (or still fails).  Removing it, with or without purging, makes the name unknown and leaves
  the other names alone.\<close>

theorem store_round_trip:
  assumes "store_ok s w" and "valid_name (i_name i)"
    and "save s i w = (r, w')" and "store_remove s i purge w' = (r', w'')"
  shows "r = Inr () \<and> fst (load s (i_name i) w') = Inr i \<and> r' = Inr () \<and>
    \<not> is_ok (fst (load s (i_name i) w'')) \<and>
    (\<forall>n j. valid_name n \<and> n \<noteq> i_name i \<longrightarrow>
       (fst (load s n w') = Inr j) = (fst (load s n w) = Inr j) \<and>
       (fst (load s n w'') = Inr j) = (fst (load s n w) = Inr j))"
proof -
  from save_effect [OF assms(1,2)] assms(3)
  have r: "r = Inr ()" and ok: "store_ok s w'" by auto
  from remove_effect [OF ok assms(2), of purge] assms(4)
  have r': "r' = Inr ()" and ok': "store_ok s w''" by auto
  have ld: "(fst (load s n v) = Inr j) = (stored s v n = Some j)" if "valid_name n" "store_ok s v" for n v j
    using load_effect(3,4) [OF prod.collapse [symmetric], where s = s and n = n and w = v and i = j] that
    by (auto simp: store_ok_def)
  have put: "stored s w' n = (if n = i_name i then Some i else stored s w n)" if "valid_name n" for n
    using tomls.get_put [OF assms(1,2) that] assms(3) by simp
  have del: "stored s w'' n = (if n = i_name i then None else stored s w' n)" if "valid_name n" for n
    using tomls.get_del [OF ok assms(2) that, of purge] assms(4) by simp
  show ?thesis
    using r r' ld [OF _ ok] ld [OF _ ok'] ld [OF _ assms(1)] put del assms(2)
    by (auto simp: is_ok_iff)
qed

text \<open>Index allocation.  The index \<^verbatim>\<open>NextIndex\<close> returns is the least number that no listed
  instance has, so it is at most their count; the derived WireGuard port of the new instance differs
  from the derived port of every instance without an override.\<close>

theorem next_index_fresh:
  assumes "next_index s w = (Inr n, w')"
  shows "\<exists>l. fst (list_store s w) = Inr l \<and> 0 \<le> n \<and> n \<le> int (length l) \<and>
    n \<notin> i_index ` set l \<and> (\<forall>m. 0 \<le> m \<and> m < n \<longrightarrow> m \<in> i_index ` set l) \<and>
    (\<forall>i \<in> set l. \<forall>new. i_wireguard_port i = 0 \<and> i_wireguard_port new = 0 \<and> i_index new = n \<longrightarrow>
       p_wg_port (store_params s new) \<noteq> p_wg_port (store_params s i))"
proof -
  obtain l w1 where l: "list_store s w = (Inr l, w1)" and n: "n = first_unused (map i_index l) 0"
    using assms by (auto simp: next_index_def bnd_result)
  have "p_wg_port (store_params s new) \<noteq> p_wg_port (store_params s i)"
    if "i \<in> set l" "i_wireguard_port i = 0" "i_wireguard_port new = 0" "i_index new = n" for i new
    using first_unused_props [of "map i_index l" 0] that n
    by (auto simp: store_params_def derive_params_def Let_def)
  then show ?thesis
    using first_unused_props [of "map i_index l" 0] first_unused_bound [of "map i_index l"] l n
    by (auto intro!: exI [of _ l])
qed

text \<open>Listing.  What \<^verbatim>\<open>List\<close> returns is sorted by name and consists of stored instances only; it
  changes no file; and no well-placed instance is missing from it.\<close>

theorem list_complete:
  assumes "list_store s w = (Inr l, w')"
  shows "sorted (map i_name l) \<and> w_fs w' = w_fs w \<and>
    (\<forall>i \<in> set l. \<exists>n. valid_name n \<and> stored s w n = Some i) \<and>
    (faultless w \<and> clean (s_root s) = s_root s \<longrightarrow>
       (\<forall>n. valid_name n \<and> placed s w n \<and> map_of (w_fs w) (toml_file s n) \<noteq> None \<longrightarrow>
          (\<exists>i \<in> set l. stored s w n = Some i)))"
  using list_effect [OF assms] by blast

section \<open>A concrete store\<close>

definition example_store_at :: store where
  "example_store_at = \<lparr>s_root = ''/r'', s_run = ''/run''\<rparr>"

definition empty_root :: world where
  "empty_root = example_world [(''/r'', Dir 448)]"

lemma example_ancestors: "ancestors ''/r'' = [''/r'']"
  by code_simp

lemma example_store_ok: "store_ok example_store_at empty_root"
proof -
  have "no_dir [(''/r'', Dir 448)] (toml_file example_store_at n)" if "valid_name n" for n
    using root_ancestor_not_toml [OF that, of "''/r''" example_store_at]
    by (simp add: no_dir_def example_store_at_def example_ancestors)
  then show ?thesis
    by (auto simp: store_ok_def empty_root_def toml_ok_def example_codec no_file_def
        example_store_at_def example_ancestors)
qed

theorem store_round_trip_witness:
  "let (r, w') = save example_store_at (example_inst ''a'' 0) empty_root;
       (r', w'') = store_remove example_store_at (example_inst ''a'' 0) True w'
   in r = Inr () \<and> fst (load example_store_at ''a'' w') = Inr (example_inst ''a'' 0) \<and>
      \<not> is_ok (fst (load example_store_at ''a'' w''))"
proof -
  have v: "valid_name (i_name (example_inst ''a'' 0))" "i_name (example_inst ''a'' 0) = ''a''"
    by code_simp+
  show ?thesis
    using store_round_trip [OF example_store_ok v(1) prod.collapse [symmetric] prod.collapse [symmetric]]
    by (simp add: v(2) Let_def split_beta)
qed

definition two_instances :: fs where
  "two_instances =
     [(''/r'', Dir 448), (''/r/b'', Dir 448),
      (''/r/b/instance.toml'', File (example_enc (example_inst ''b'' 0)) 384),
      (''/r/a'', Dir 448),
      (''/r/a/instance.toml'', File (example_enc (example_inst ''a'' 2)) 384)]"

lemma two_instances_list:
  "fst (list_store example_store_at (example_world two_instances)) =
     Inr [example_inst ''a'' 2, example_inst ''b'' 0]"
  by code_simp

theorem next_index_fresh_witness:
  "fst (next_index example_store_at (example_world two_instances)) = Inr 1 \<and>
   1 \<notin> i_index ` set [example_inst ''a'' 2, example_inst ''b'' 0]"
proof -
  have n: "fst (next_index example_store_at (example_world two_instances)) = Inr 1" by code_simp
  obtain w' where "next_index example_store_at (example_world two_instances) = (Inr 1, w')"
    using n by (metis prod.collapse)
  from next_index_fresh [OF this] n two_instances_list show ?thesis by auto
qed

theorem list_complete_witness:
  "fst (list_store example_store_at (example_world two_instances)) =
     Inr [example_inst ''a'' 2, example_inst ''b'' 0] \<and>
   (\<exists>i. stored example_store_at (example_world two_instances) ''b'' = Some i \<and>
        i \<in> set [example_inst ''a'' 2, example_inst ''b'' 0])"
proof -
  obtain w' where l: "list_store example_store_at (example_world two_instances) =
      (Inr [example_inst ''a'' 2, example_inst ''b'' 0], w')"
    using two_instances_list by (metis prod.collapse)
  have b: "clean (s_root example_store_at) = s_root example_store_at" "valid_name ''b''"
    "placed example_store_at (example_world two_instances) ''b''"
    "map_of (w_fs (example_world two_instances)) (toml_file example_store_at ''b'') \<noteq> None"
    unfolding placed_def by code_simp+
  from list_complete [OF l, THEN conjunct2, THEN conjunct2, THEN conjunct2] b
  have "\<exists>i \<in> set [example_inst ''a'' 2, example_inst ''b'' 0].
      stored example_store_at (example_world two_instances) ''b'' = Some i"
    by (metis example_world_facts(2))
  with l show ?thesis by auto
qed

end
