(* ===== verification/Daemon.thy ===== *)
theory Daemon
  imports Store "HOL-Library.Code_Target_Nat"
begin

text \<open>
  \<^verbatim>\<open>internal/daemon\<close> and \<^verbatim>\<open>internal/nbcli\<close>: the life cycle of the per-instance netbird daemon
  (spawn, stop, forceful cleanup) and the command lines that are run.

  The waiting loops read the clock and sleep.  A sleep advances the clock, so they end whatever
  the processes do; they are total functions, with the time left as the measure.
\<close>

section \<open>Command lines\<close>

definition default_bin :: string where "default_bin = ''netbird''"

definition runner_bin :: "string \<Rightarrow> string" where
  "runner_bin bin = (if bin = [] then default_bin else bin)"

definition nb_version :: "string \<Rightarrow> string op" where
  "nb_version bin =
     bnd (wrap ''running version'' (exec [bin, ''version''] [])) (\<lambda>out. ret (trim_space out))"

definition service_run_args :: "string \<Rightarrow> string \<Rightarrow> string \<Rightarrow> string \<Rightarrow> string list" where
  "service_run_args config_path daemon_addr log_file log_level =
     [''service'', ''run'', ''--config'', config_path, ''--daemon-addr'', daemon_addr,
      ''--log-file'', log_file, ''--log-level'', log_level]"

definition log_level :: string where "log_level = ''info''"

section \<open>Processes\<close>

definition read_pid :: "params \<Rightarrow> int option op" where
  "read_pid p =
     bnd (attempt (read_file (p_pid_file p))) (\<lambda>r.
       case r of
         Inl _ \<Rightarrow> ret None
       | Inr b \<Rightarrow>
           (case atoi (trim_space b) of
              None \<Rightarrow> ret None
            | Some pid \<Rightarrow> if pid \<le> 0 then ret None else ret (Some pid)))"

text \<open>\<^verbatim>\<open>Alive\<close> sends signal 0, and again when the first attempt failed.\<close>

definition alive :: "int \<Rightarrow> bool op" where
  "alive pid =
     bnd (kill pid 0) (\<lambda>r1.
       if r1 = None then ret True
       else bnd (kill pid 0) (\<lambda>r2. ret (r2 = Some EPERM)))"

definition recorded_alive :: "params \<Rightarrow> int option op" where
  "recorded_alive p =
     bnd (read_pid p) (\<lambda>o'.
       case o' of
         None \<Rightarrow> ret None
       | Some pid \<Rightarrow> bnd (alive pid) (\<lambda>a. ret (if a then Some pid else None)))"

definition running :: "params \<Rightarrow> bool op" where
  "running p = bnd (recorded_alive p) (\<lambda>o'. ret (o' \<noteq> None))"

subsection \<open>Time\<close>

definition later :: "world \<Rightarrow> world \<Rightarrow> bool" where
  "later w w' \<longleftrightarrow> w_clock w \<le> w_clock w'"

interpretation clk: frame later
  by unfold_locales (auto simp: later_def)

lemma later_callout: "keeps later (callout e dt ask)"
  by (simp add: keeps_def later_def callout_def)

lemma later_fs_call: "keeps later (fs_call f act)"
  by (auto simp: keeps_def later_def fs_call_def log_event_def split: option.splits prod.splits)

lemma later_stat: "keeps later (stat p)"
  unfolding stat_def by (rule later_fs_call)

lemma later_alive: "keeps later (alive pid)"
  unfolding alive_def kill_def by (intro clk.combinators later_callout)

lemma sleep_clock: "w_clock (snd (sleep d w)) \<ge> w_clock w + d"
  by (simp add: sleep_def callout_def)

lemma wait_step:
  assumes "stat p w = (r, w1)" and "alive pid w1 = (a, w2)" and "\<not> w_clock w2 > deadline"
  shows "Suc deadline - w_clock (snd (sleep 100 w2)) < Suc deadline - w_clock w"
proof -
  have "w_clock w \<le> w_clock w2"
    using keepsD [OF later_stat assms(1)] keepsD [OF later_alive assms(2)] by (simp add: later_def)
  with assms(3) sleep_clock [of w2 100] show ?thesis by simp
qed

lemma alive_step:
  assumes "alive pid w = (a, w1)" and "w_clock w1 \<le> deadline"
  shows "Suc deadline - w_clock (snd (sleep 100 w1)) < Suc deadline - w_clock w"
proof -
  have "w_clock w \<le> w_clock w1" using keepsD [OF later_alive assms(1)] by (simp add: later_def)
  with assms(2) sleep_clock [of w1 100] show ?thesis by simp
qed

subsection \<open>Start\<close>

text \<open>The wait for the socket: until it is there, the process is gone, or the deadline passed.\<close>

function wait_socket :: "string \<Rightarrow> int \<Rightarrow> nat \<Rightarrow> world \<Rightarrow> (err + unit) \<times> world" where
  "wait_socket sock pid deadline w =
     (let (r, w1) = stat sock w
      in if is_ok r then (Inr (), w1)
         else let (a, w2) = alive pid w1
              in if a \<noteq> Inr True then (Inl (ErrMsg ''daemon exited immediately''), w2)
                 else if w_clock w2 > deadline then (Inl (ErrMsg ''socket did not appear within 10s''), w2)
                 else wait_socket sock pid deadline (snd (sleep 100 w2)))"
  by auto
termination
  by (relation "measure (\<lambda>(sock, pid, deadline, w). Suc deadline - w_clock w)")
     (auto, metis wait_step)

declare wait_socket.simps [simp del]

text \<open>The environment of the daemon: the inherited one, the platform's additions, and the state
  directory last.  Of a duplicated name the last value counts (\<open>effective\<close>).\<close>

definition daemon_environ :: "params \<Rightarrow> (string \<times> string) list \<Rightarrow> (string \<times> string) list \<Rightarrow> (string \<times> string) list" where
  "daemon_environ p inherited extra = (inherited @ extra) @ [(''NB_STATE_DIR'', p_state_dir p)]"

definition effective :: "(string \<times> string) list \<Rightarrow> string \<Rightarrow> string option" where
  "effective environ k = map_of (rev environ) k"

definition start :: "inst \<Rightarrow> params \<Rightarrow> (string \<times> string) list \<Rightarrow> unit op" where
  "start i p extra =
     bnd (recorded_alive p) (\<lambda>o'.
       if o' \<noteq> None then ret ()
       else
         thn (wrap ''creating run dir'' (mkdir_all (path_dir (p_socket_path p)) 493))
        (thn (ignore (os_remove (p_socket_path p)))
        (thn (wrap ''creating netbird state dir'' (mkdir_all (p_state_dir p) 448))
        (bnd (asks (\<lambda>w. e_environ (w_env w))) (\<lambda>inherited.
         bnd (wrap ''spawning netbird daemon''
               (spawn (runner_bin (i_netbird_bin i))
                  (service_run_args (p_config_json p) (p_daemon_addr p) (p_log_file p) log_level)
                  (daemon_environ p inherited extra))) (\<lambda>pid.
         thn (wrap ''writing pid file'' (write_file (p_pid_file p) (itoa pid) 420))
        (bnd now (\<lambda>t. wait_socket (p_socket_path p) pid (t + 10000)))))))))"

subsection \<open>Stop\<close>

text \<open>Signals: 15 is SIGTERM, 9 is SIGKILL.\<close>

function wait_exit :: "int \<Rightarrow> nat \<Rightarrow> world \<Rightarrow> world" where
  "wait_exit pid deadline w =
     (let (a, w1) = alive pid w
      in if a \<noteq> Inr True then w1
         else if w_clock w1 > deadline then snd (kill pid 9 w1)
         else wait_exit pid deadline (snd (sleep 100 w1)))"
  by auto
termination
  by (relation "measure (\<lambda>(pid, deadline, w). Suc deadline - w_clock w)") (auto, metis alive_step linorder_not_less)

declare wait_exit.simps [simp del]

definition stop :: "params \<Rightarrow> unit op" where
  "stop p =
     bnd (read_pid p) (\<lambda>o'.
       case o' of
         None \<Rightarrow> ret ()
       | Some pid \<Rightarrow>
           bnd (alive pid) (\<lambda>a.
             if \<not> a then ignore (os_remove (p_pid_file p))
             else bnd (kill pid 15) (\<lambda>k.
               if k \<noteq> None \<and> k \<noteq> Some ESRCH then fail (Wrap ''stopping daemon'' (ErrSys ''EPERM''))
               else bnd now (\<lambda>t.
                 thn (\<lambda>w. (Inr (), wait_exit pid (t + 10000) w))
                     (ignore (os_remove (p_pid_file p)))))))"

subsection \<open>Nuke\<close>

function wait_gone :: "int \<Rightarrow> nat \<Rightarrow> world \<Rightarrow> world" where
  "wait_gone pid deadline w =
     (let (a, w1) = alive pid w
      in if a \<noteq> Inr True \<or> w_clock w1 \<ge> deadline then w1
         else wait_gone pid deadline (snd (sleep 100 w1)))"
  by auto
termination
  by (relation "measure (\<lambda>(pid, deadline, w). Suc deadline - w_clock w)") (auto, metis alive_step less_imp_le linorder_not_le)

declare wait_gone.simps [simp del]

fun remove_leftovers :: "string list \<Rightarrow> err list op" where
  "remove_leftovers [] = ret []"
| "remove_leftovers (f # fs') =
     bnd (attempt (os_remove f)) (\<lambda>r.
     bnd (remove_leftovers fs') (\<lambda>errs.
       ret ((case r of
               Inl e \<Rightarrow> if is_not_exist e then [] else [Wrap (''removing '' @ f) e]
             | Inr _ \<Rightarrow> []) @ errs)))"

definition nuke_process :: "int option \<Rightarrow> err list op" where
  "nuke_process o' =
     (case o' of
        None \<Rightarrow> ret []
      | Some pid \<Rightarrow>
          bnd (kill pid 9) (\<lambda>k.
            if k \<noteq> None \<and> k \<noteq> Some ESRCH then ret [Wrap ''killing pid'' (ErrSys ''EPERM'')]
            else bnd now (\<lambda>t. thn (\<lambda>w. (Inr (), wait_gone pid (t + 5000) w)) (ret []))))"

definition nuke :: "params \<Rightarrow> err list op" where
  "nuke p =
     bnd (recorded_alive p) (\<lambda>o'.
     bnd (nuke_process o') (\<lambda>errs.
     bnd (remove_leftovers [p_socket_path p, p_pid_file p]) (\<lambda>errs'. ret (errs @ errs'))))"

section \<open>What the operations may cause\<close>

lemma emits_alive [frame_intros]:
  "P (EvKill pid 0) \<Longrightarrow> keeps (emits P) (alive pid)"
  unfolding alive_def by (intro frame_intros)

lemma emits_wait_socket [frame_intros]:
  assumes "P (EvFs (OpStat sock))" and "P (EvKill pid 0)" and "P (EvSleep 100)"
  shows "keeps (emits P) (wait_socket sock pid deadline)"
proof -
  have "emits P w (snd (wait_socket sock pid deadline w))" for w
    using assms
  proof (induction sock pid deadline w rule: wait_socket.induct)
    case (1 sock pid deadline w)
    obtain r w1 where st: "stat sock w = (r, w1)" by (cases "stat sock w")
    obtain a w2 where al: "alive pid w1 = (a, w2)" by (cases "alive pid w1")
    have 1: "emits P w w1" by (rule keepsD [OF keeps_files(7) st]) (rule 1)
    have 2: "emits P w w2" by (rule emits_trans [OF 1 keepsD [OF emits_alive al]]) (rule "1.prems")
    have 3: "emits P w (snd (sleep 100 w2))"
      using emits_trans [OF 2, of "snd (sleep 100 w2)"] keeps_calls(1) [of P 100] "1.prems"(3)
      by (simp add: keeps_def)
    show ?case
      using 1 2 "1.IH" [OF st [symmetric] refl _ al [symmetric] refl] "1.prems" emits_trans [OF 3]
      by (subst wait_socket.simps) (auto simp: st al)
  qed
  then show ?thesis by (simp add: keeps_def)
qed

lemma emits_wait_exit:
  assumes "P (EvKill pid 0)" and "P (EvKill pid 9)" and "P (EvSleep 100)"
  shows "emits P w (wait_exit pid deadline w)"
  using assms
proof (induction pid deadline w rule: wait_exit.induct)
  case (1 pid deadline w)
  obtain a w1 where al: "alive pid w = (a, w1)" by (cases "alive pid w")
  have 1: "emits P w w1" by (rule keepsD [OF emits_alive al]) (rule "1.prems")
  have 2: "emits P w (snd (kill pid 9 w1))" "emits P w (snd (sleep 100 w1))"
    using emits_trans [OF 1, of "snd (kill pid 9 w1)"] emits_trans [OF 1, of "snd (sleep 100 w1)"]
      keeps_calls(1) [of P 100] keeps_calls(4) [of P pid 9] "1.prems"
    by (simp_all add: keeps_def)
  show ?case
    using 1 2(1) "1.IH" [OF al [symmetric] refl] "1.prems" emits_trans [OF 2(2)]
    by (subst wait_exit.simps) (auto simp: al)
qed

lemma emits_wait_gone:
  assumes "P (EvKill pid 0)" and "P (EvSleep 100)"
  shows "emits P w (wait_gone pid deadline w)"
  using assms
proof (induction pid deadline w rule: wait_gone.induct)
  case (1 pid deadline w)
  obtain a w1 where al: "alive pid w = (a, w1)" by (cases "alive pid w")
  have 1: "emits P w w1" by (rule keepsD [OF emits_alive al]) (rule "1.prems")
  have 2: "emits P w (snd (sleep 100 w1))"
    using emits_trans [OF 1, of "snd (sleep 100 w1)"] keeps_calls(1) [of P 100] "1.prems"
    by (simp add: keeps_def)
  show ?case
    using 1 "1.IH" [OF al [symmetric] refl] "1.prems" emits_trans [OF 2]
    by (subst wait_gone.simps) (auto simp: al)
qed

lemma keeps_waits [frame_intros]:
  "P (EvKill pid 0) \<Longrightarrow> P (EvKill pid 9) \<Longrightarrow> P (EvSleep 100) \<Longrightarrow>
     keeps (emits P) (\<lambda>w. (Inr (), wait_exit pid deadline w))"
  "P (EvKill pid 0) \<Longrightarrow> P (EvSleep 100) \<Longrightarrow>
     keeps (emits P) (\<lambda>w. (Inr (), wait_gone pid deadline w))"
  by (simp_all add: keeps_def emits_wait_exit emits_wait_gone)

lemma emits_read_pid [frame_intros]:
  "P (EvFs (OpRead (p_pid_file p))) \<Longrightarrow> keeps (emits P) (read_pid p)"
  unfolding read_pid_def by (intro frame_intros)

lemma read_pid_result:
  assumes "read_pid p w = (r, w')"
  shows "w_fs w' = w_fs w" and "same_run w w'" and "\<exists>o'. r = Inr o'"
    and "r = Inr (Some pid) \<Longrightarrow> 0 < pid \<and>
      (\<exists>b. get_file (w_fs w) (p_pid_file p) = Inr b \<and> atoi (trim_space b) = Some pid)"
    and "r = Inr None \<Longrightarrow> faultless w \<Longrightarrow> get_file (w_fs w) (p_pid_file p) = Inr b \<Longrightarrow>
      \<forall>pid. atoi (trim_space b) = Some pid \<longrightarrow> pid \<le> 0"
  using assms
  by (auto simp: read_pid_def bnd_def attempt_def read_file_def fs_call_def log_event_def same_run_def
      faultless_def split: option.splits sum.splits prod.splits if_splits)

lemma alive_result: "\<exists>a. fst (alive pid w) = Inr a"
  by (auto simp: alive_def bnd_def kill_def callout_def)

lemma emits_recorded_alive [frame_intros]:
  assumes "P (EvFs (OpRead (p_pid_file p)))" and "\<And>pid. P (EvKill pid 0)"
  shows "keeps (emits P) (recorded_alive p)"
  unfolding recorded_alive_def by (intro frame_intros assms)

lemma emits_running [frame_intros]:
  assumes "P (EvFs (OpRead (p_pid_file p)))" and "\<And>pid. P (EvKill pid 0)"
  shows "keeps (emits P) (running p)"
  unfolding running_def by (intro frame_intros assms)

lemma emits_remove_leftovers [frame_intros]:
  "(\<And>f. f \<in> set fs' \<Longrightarrow> P (EvFs (OpRemove f))) \<Longrightarrow> keeps (emits P) (remove_leftovers fs')"
  by (induction fs') (auto intro!: frame_intros)

lemma emits_start [frame_intros]:
  assumes "P (EvFs (OpRead (p_pid_file p)))" and "\<And>pid. P (EvKill pid 0)"
    and "P (EvFs (OpMkdirAll (path_dir (p_socket_path p)) 493))"
    and "P (EvFs (OpMkdirAll (p_state_dir p) 448))"
    and "P (EvFs (OpRemove (p_socket_path p)))" and "P (EvFs (OpWriteFile (p_pid_file p) 420))"
    and "P (EvFs (OpStat (p_socket_path p)))" and "P (EvSleep 100)"
    and "\<And>inherited. P (EvSpawn (runner_bin (i_netbird_bin i))
      (service_run_args (p_config_json p) (p_daemon_addr p) (p_log_file p) log_level)
      (daemon_environ p inherited extra))"
  shows "keeps (emits P) (start i p extra)"
  unfolding start_def by (intro frame_intros assms)

lemma emits_stop [frame_intros]:
  assumes "P (EvFs (OpRead (p_pid_file p)))" and "P (EvFs (OpRemove (p_pid_file p)))"
    and "\<And>pid sig. P (EvKill pid sig)" and "P (EvSleep 100)"
  shows "keeps (emits P) (stop p)"
  unfolding stop_def by (intro frame_intros assms)

lemma emits_nuke_process [frame_intros]:
  assumes "\<And>pid sig. o' = Some pid \<Longrightarrow> P (EvKill pid sig)" and "P (EvSleep 100)"
  shows "keeps (emits P) (nuke_process o')"
proof (cases o')
  case None
  then show ?thesis by (simp add: nuke_process_def ev.keeps_ret)
next
  case (Some pid)
  with assms show ?thesis
    unfolding nuke_process_def Some option.case by (intro frame_intros) auto
qed

lemma emits_nuke [frame_intros]:
  assumes "P (EvFs (OpRead (p_pid_file p)))"
    and "P (EvFs (OpRemove (p_pid_file p)))" and "P (EvFs (OpRemove (p_socket_path p)))"
    and "\<And>pid sig. P (EvKill pid sig)" and "P (EvSleep 100)"
  shows "keeps (emits P) (nuke p)"
  unfolding nuke_def using assms by (intro frame_intros) auto

text \<open>The same with the signals restricted: after the pid is read, only that process is signalled.\<close>

definition recorded_pid :: "world \<Rightarrow> params \<Rightarrow> int \<Rightarrow> bool" where
  "recorded_pid w p pid \<longleftrightarrow> 0 < pid \<and>
     (\<exists>b. get_file (w_fs w) (p_pid_file p) = Inr b \<and> atoi (trim_space b) = Some pid)"

definition only_signals :: "(int \<Rightarrow> bool) \<Rightarrow> event \<Rightarrow> bool" where
  "only_signals S e = (case e of EvKill pid sig \<Rightarrow> S pid | _ \<Rightarrow> True)"

lemma only_signals_simps [simp]:
  "only_signals S (EvKill pid sig) = S pid" "only_signals S (EvFs f)" "only_signals S (EvSleep d)"
  by (simp_all add: only_signals_def)

lemma stop_signals: "emits (only_signals (recorded_pid w p)) w (snd (stop p w))"
proof -
  obtain r w1 where rd: "read_pid p w = (r, w1)" by (cases "read_pid p w")
  from read_pid_result(3) [OF this] obtain o' where r: "r = Inr o'" by blast
  let ?P = "only_signals (recorded_pid w p)"
  have 1: "emits ?P w w1" by (rule keepsD [OF emits_read_pid rd]) simp
  show ?thesis
  proof (cases o')
    case None
    with rd r 1 show ?thesis by (simp add: stop_def bnd_def)
  next
    case (Some pid)
    have pid: "recorded_pid w p pid" using read_pid_result(4) [OF rd] r Some by (simp add: recorded_pid_def)
    have "keeps (emits ?P) (bnd (alive pid) (\<lambda>a.
             if \<not> a then ignore (os_remove (p_pid_file p))
             else bnd (kill pid 15) (\<lambda>k.
               if k \<noteq> None \<and> k \<noteq> Some ESRCH then fail (Wrap ''stopping daemon'' (ErrSys ''EPERM''))
               else bnd now (\<lambda>t.
                 thn (\<lambda>w. (Inr (), wait_exit pid (t + 10000) w))
                     (ignore (os_remove (p_pid_file p)))))))"
      using pid by (intro frame_intros) simp_all
    with 1 rd r Some show ?thesis
      by (simp add: stop_def bnd_def [of "read_pid p"] keeps_def emits_trans)
  qed
qed

lemma nuke_signals: "emits (only_signals (recorded_pid w p)) w (snd (nuke p w))"
proof -
  let ?P = "only_signals (recorded_pid w p)"
  obtain r w1 where rd: "read_pid p w = (r, w1)" by (cases "read_pid p w")
  from read_pid_result(3) [OF this] obtain o' where r: "r = Inr o'" by blast
  have 1: "emits ?P w w1" by (rule keepsD [OF emits_read_pid rd]) simp
  have pid: "recorded_pid w p pid" if "o' = Some pid" for pid
    using read_pid_result(4) [OF rd] r that by (simp add: recorded_pid_def)
  obtain r2 w2 where ra: "recorded_alive p w = (Inr r2, w2)" and 2: "emits ?P w w2"
    and r2: "r2 = None \<or> r2 = o'"
  proof (cases o')
    case None
    then show ?thesis using that [of None w1] rd r 1 by (simp add: recorded_alive_def bnd_def)
  next
    case (Some q)
    obtain a w2 where al: "alive q w1 = (Inr a, w2)" using alive_result [of q w1] by (metis prod.collapse)
    have "emits ?P w w2"
      by (rule emits_trans [OF 1 keepsD [OF emits_alive al]]) (simp add: pid [OF Some])
    then show ?thesis
      using that [of "if a then Some q else None" w2] rd r Some al
      by (simp add: recorded_alive_def bnd_def)
  qed
  have "keeps (emits ?P) (bnd (nuke_process r2) (\<lambda>errs.
     bnd (remove_leftovers [p_socket_path p, p_pid_file p]) (\<lambda>errs'. ret (errs @ errs'))))"
    using pid r2 by (intro frame_intros) auto
  with 2 ra show ?thesis
    by (simp add: nuke_def bnd_def [of "recorded_alive p"] keeps_def emits_trans)
qed

section \<open>How the waits end\<close>

lemma alive_simp:
  "alive pid w = (let w1 = snd (kill pid 0 w)
     in if e_kill (w_env w) (w_hist w) pid 0 = None then (Inr True, w1)
        else (Inr (e_kill (w_env w1) (w_hist w1) pid 0 = Some EPERM), snd (kill pid 0 w1)))"
  by (simp add: alive_def bnd_def kill_def callout_def Let_def)

text \<open>The last probe of a process that counts as gone: neither delivered nor refused.\<close>

definition found_gone :: "world \<Rightarrow> int \<Rightarrow> bool" where
  "found_gone w pid \<longleftrightarrow>
     (\<exists>h. w_hist w = EvKill pid 0 # h \<and> e_kill (w_env w) h pid 0 \<noteq> Some EPERM)"

lemma alive_False: "alive pid w = (Inr False, w') \<Longrightarrow> found_gone w' pid"
  by (auto simp: alive_simp Let_def found_gone_def kill_def callout_def split: if_splits)

lemma wait_exit_end:
  "(\<exists>h. w_hist (wait_exit pid deadline w) = EvKill pid 9 # h) \<or> found_gone (wait_exit pid deadline w) pid"
proof (induction pid deadline w rule: wait_exit.induct)
  case (1 pid deadline w)
  obtain a w1 where al: "alive pid w = (a, w1)" by (cases "alive pid w")
  obtain b where b: "a = Inr b" using alive_result [of pid w] al by auto
  show ?case
  proof (cases b)
    case False
    with al b alive_False show ?thesis by (subst (1 2) wait_exit.simps) simp
  next
    case True
    then have "a = Inr True" using b by simp
    with "1.IH" [OF al [symmetric] refl] show ?thesis
      by (subst (1 2) wait_exit.simps) (simp add: al kill_def callout_def)
  qed
qed

definition no_drift :: "world \<Rightarrow> bool" where
  "no_drift w \<longleftrightarrow> (\<forall>h. e_drift (w_env w) h = 0)"

lemma no_drift_clock:
  assumes "no_drift w"
  shows "w_clock (snd (kill pid sig w)) = w_clock w" and "no_drift (snd (kill pid sig w))"
    and "w_clock (snd (sleep d w)) = w_clock w + d" and "no_drift (snd (sleep d w))"
    and "w_clock (snd (alive pid w)) = w_clock w" and "no_drift (snd (alive pid w))"
  using assms
  by (simp_all add: no_drift_def kill_def sleep_def callout_def alive_def bnd_def)

lemma wait_exit_clock:
  "no_drift w \<Longrightarrow> w_clock (wait_exit pid deadline w) \<le> max (w_clock w) (deadline + 100)"
proof (induction pid deadline w rule: wait_exit.induct)
  case (1 pid deadline w)
  obtain a w1 where al: "alive pid w = (a, w1)" by (cases "alive pid w")
  have w1: "w_clock w1 = w_clock w" "no_drift w1" using no_drift_clock(5,6) [OF "1.prems", of pid] al by simp_all
  note IH = "1.IH" [OF al [symmetric] refl]
  show ?case
  proof (cases "a \<noteq> Inr True \<or> w_clock w1 > deadline")
    case True
    then show ?thesis
      using no_drift_clock(1) [OF w1(2)] w1 by (subst wait_exit.simps) (auto simp: al)
  next
    case False
    then have "w_clock (wait_exit pid deadline (snd (sleep 100 w1))) \<le> max (w_clock w1 + 100) (deadline + 100)"
      using IH no_drift_clock(3,4) [OF w1(2), of 100] by auto
    with False show ?thesis by (subst wait_exit.simps) (auto simp: al)
  qed
qed

lemma wait_gone_clock:
  "no_drift w \<Longrightarrow> w_clock (wait_gone pid deadline w) \<le> max (w_clock w) (deadline + 100)"
proof (induction pid deadline w rule: wait_gone.induct)
  case (1 pid deadline w)
  obtain a w1 where al: "alive pid w = (a, w1)" by (cases "alive pid w")
  have w1: "w_clock w1 = w_clock w" "no_drift w1" using no_drift_clock(5,6) [OF "1.prems", of pid] al by simp_all
  note IH = "1.IH" [OF al [symmetric] refl]
  show ?case
  proof (cases "a \<noteq> Inr True \<or> w_clock w1 \<ge> deadline")
    case True
    then show ?thesis using w1 by (subst wait_gone.simps) (auto simp: al)
  next
    case False
    then have "w_clock (wait_gone pid deadline (snd (sleep 100 w1))) \<le> max (w_clock w1 + 100) (deadline + 100)"
      using IH no_drift_clock(3,4) [OF w1(2), of 100] by auto
    with False show ?thesis by (subst wait_gone.simps) (auto simp: al)
  qed
qed

lemma wait_socket_ready:
  "wait_socket sock pid deadline w = (Inr (), w') \<Longrightarrow> map_of (w_fs w') sock \<noteq> None"
proof (induction sock pid deadline w arbitrary: w' rule: wait_socket.induct)
  case (1 sock pid deadline w)
  obtain r w1 where st: "stat sock w = (r, w1)" by (cases "stat sock w")
  obtain a w2 where al: "alive pid w1 = (a, w2)" by (cases "alive pid w1")
  show ?case
  proof (cases "is_ok r")
    case True
    with "1.prems" st have "w' = w1" by (subst (asm) wait_socket.simps) simp
    moreover have "map_of (w_fs w) sock \<noteq> None"
      using st True by (auto simp: stat_def fs_call_def split: option.splits)
    ultimately show ?thesis using stat_frame [OF st] by simp
  next
    case False
    have "a = Inr True" "\<not> w_clock w2 > deadline"
      "wait_socket sock pid deadline (snd (sleep 100 w2)) = (Inr (), w')"
      using "1.prems" False by (subst (asm) wait_socket.simps; simp add: st al split: if_splits)+
    with "1.IH" [OF st [symmetric] refl False al [symmetric] refl] show ?thesis by simp
  qed
qed

lemma os_remove_effect:
  assumes "os_remove p w = (r, w')"
  shows "w_env w' = w_env w" and "w_clock w' = w_clock w"
    and "map_of (w_fs w') q \<noteq> None \<Longrightarrow> map_of (w_fs w) q \<noteq> None"
    and "r = Inr () \<or> (\<exists>e. r = Inl e \<and> is_not_exist e) \<Longrightarrow> map_of (w_fs w') p = None"
    and "map_of (w_fs w) p = None \<Longrightarrow> faultless w \<Longrightarrow> r = Inl (ErrNotExist p)"
    and "q \<noteq> p \<Longrightarrow> map_of (w_fs w') q = map_of (w_fs w) q"
  using assms
  by (auto simp: os_remove_def fs_call_def log_event_def remove_node_def is_not_exist_def faultless_def
      split: option.splits prod.splits node.splits if_splits)

lemma remove_leftovers_effect:
  assumes "remove_leftovers fs' w = (r, w')"
  shows "w_env w' = w_env w \<and> w_clock w' = w_clock w \<and>
    (\<forall>q. map_of (w_fs w') q \<noteq> None \<longrightarrow> map_of (w_fs w) q \<noteq> None) \<and>
    (r = Inr [] \<longrightarrow> (\<forall>f \<in> set fs'. map_of (w_fs w') f = None)) \<and>
    (faultless w \<and> (\<forall>f \<in> set fs'. map_of (w_fs w) f = None) \<longrightarrow> r = Inr [])"
  using assms
proof (induction fs' arbitrary: w r w')
  case (Cons f fs')
  obtain r1 w1 where rm: "os_remove f w = (r1, w1)" by (cases "os_remove f w")
  obtain r2 w2 where rl: "remove_leftovers fs' w1 = (r2, w2)" by (cases "remove_leftovers fs' w1")
  note rme = os_remove_effect [OF rm] and IH = Cons.IH [OF rl]
  have res: "w' = w2" "r = (case r2 of Inl e \<Rightarrow> Inl e | Inr es \<Rightarrow> Inr ((case r1 of
      Inl e \<Rightarrow> if is_not_exist e then [] else [Wrap (''removing '' @ f) e] | Inr _ \<Rightarrow> []) @ es))"
    using Cons.prems rm rl by (auto simp: bnd_def attempt_def split: sum.splits)
  have gone: "map_of (w_fs w1) f = None" if "r = Inr []"
    using that res(2) by (intro rme(4)) (auto split: sum.splits if_splits)
  have none: "\<forall>q. map_of (w_fs w) q = None \<longrightarrow> map_of (w_fs w1) q = None" using rme(3) by metis
  have "faultless w1 = faultless w" using rme(1) by (simp add: faultless_def)
  moreover have "r1 = Inl (ErrNotExist f)" if "faultless w" "map_of (w_fs w) f = None"
    using rme(5) that by blast
  moreover have "r2 = Inr []" if "r = Inr []" using res(2) that by (auto split: sum.splits)
  ultimately have D: "faultless w \<and> (\<forall>g \<in> set (f # fs'). map_of (w_fs w) g = None) \<longrightarrow> r = Inr []"
    and r2: "r = Inr [] \<longrightarrow> r2 = Inr []"
    using IH none res(2) by (auto simp: is_not_exist_def)
  have "\<forall>q. map_of (w_fs w2) q \<noteq> None \<longrightarrow> map_of (w_fs w1) q \<noteq> None" using IH by blast
  then have "map_of (w_fs w2) f = None" if "r = Inr []" using gone [OF that] by blast
  with IH r2 have "r = Inr [] \<longrightarrow> (\<forall>g \<in> set (f # fs'). map_of (w_fs w2) g = None)" by simp
  moreover have "\<forall>q. map_of (w_fs w2) q \<noteq> None \<longrightarrow> map_of (w_fs w) q \<noteq> None" using IH rme(3) by blast
  ultimately show ?case using D IH rme(1,2) unfolding res(1) by simp
qed simp

lemma recorded_alive_ok: "\<exists>o' w1. recorded_alive p w = (Inr o', w1)"
proof -
  obtain r w1 where rd: "read_pid p w = (r, w1)" by (cases "read_pid p w")
  from read_pid_result(3) [OF this] obtain o' where r: "r = Inr o'" by blast
  show ?thesis
  proof (cases o')
    case (Some pid)
    obtain a w2 where "alive pid w1 = (Inr a, w2)" using alive_result [of pid w1] by (metis prod.collapse)
    with rd r Some show ?thesis by (simp add: recorded_alive_def bnd_def)
  qed (use rd r in \<open>simp add: recorded_alive_def bnd_def\<close>)
qed

lemma kill_ok: obtains k v where "kill pid sig w = (Inr k, v)"
    and "no_drift w \<longrightarrow> w_clock v = w_clock w \<and> no_drift v"
  by (cases "kill pid sig w") (auto simp: kill_def callout_def no_drift_def)

lemma nuke_process_ok: "\<exists>es w1. nuke_process o' w = (Inr es, w1) \<and>
    (no_drift w \<longrightarrow> w_clock w1 \<le> w_clock w + 5100)"
proof (cases o')
  case (Some pid)
  obtain k v where k: "kill pid 9 w = (Inr k, v)" "no_drift w \<longrightarrow> w_clock v = w_clock w \<and> no_drift v"
    by (rule kill_ok)
  then show ?thesis
    using wait_gone_clock [of v pid "w_clock v + 5000"]
    by (auto simp: nuke_process_def Some bnd_def thn_def now_def)
qed (simp add: nuke_process_def)

lemma remove_leftovers_ok: "\<exists>es w1. remove_leftovers fs' w = (Inr es, w1)"
proof (induction fs' arbitrary: w)
  case (Cons f fs')
  obtain r v where "os_remove f w = (r, v)" by (cases "os_remove f w")
  moreover obtain es v' where "remove_leftovers fs' v = (Inr es, v')" using Cons by blast
  ultimately show ?case by (simp add: bnd_def attempt_def)
qed simp

lemma nuke_run:
  obtains o1 w1 es w2 es' w3 where "recorded_alive p w = (Inr o1, w1)"
    and "nuke_process o1 w1 = (Inr es, w2)"
    and "remove_leftovers [p_socket_path p, p_pid_file p] w2 = (Inr es', w3)"
    and "nuke p w = (Inr (es @ es'), w3)"
proof -
  obtain o1 w1 where 1: "recorded_alive p w = (Inr o1, w1)" using recorded_alive_ok by blast
  obtain es w2 where 2: "nuke_process o1 w1 = (Inr es, w2)" using nuke_process_ok by blast
  obtain es' w3 where 3: "remove_leftovers [p_socket_path p, p_pid_file p] w2 = (Inr es', w3)"
    using remove_leftovers_ok by blast
  have "nuke p w = (Inr (es @ es'), w3)"
    unfolding nuke_def using 1 2 3 by (simp add: bnd_def del: remove_leftovers.simps)
  with 1 2 3 that show thesis by blast
qed

section \<open>Properties\<close>

text \<open>C34: Signals.  Stopping and nuking an instance only ever signal the one process that the
  instance's own pid file names, and that pid is positive: no process group, no process of another
  instance, nothing when the file is missing or unreadable.\<close>

theorem signals_only_recorded:
  assumes "EvKill pid sig \<in> set (new_events w (snd (stop p w))) \<union> set (new_events w (snd (nuke p w)))"
  shows "0 < pid \<and> (\<exists>b. get_file (w_fs w) (p_pid_file p) = Inr b \<and> atoi (trim_space b) = Some pid)"
  using assms emits_new_events [OF stop_signals] emits_new_events [OF nuke_signals]
  unfolding recorded_pid_def [symmetric] by fastforce


text \<open>C37: The waits are bounded.  Where only sleeping takes time, \<^verbatim>\<open>Stop\<close> returns within 10.1 and
  \<^verbatim>\<open>Nuke\<close> within 5.1 seconds, whatever the process does.\<close>

theorem waits_bounded:
  assumes "\<forall>h. e_drift (w_env w) h = 0"
  shows "w_clock (snd (stop p w)) \<le> w_clock w + 10100 \<and> w_clock (snd (nuke p w)) \<le> w_clock w + 5100"
proof -
  have nd: "no_drift w" using assms by (simp add: no_drift_def)
  have rm: "w_clock (snd (os_remove q v)) = w_clock v" for q v
    using os_remove_effect(2) by (metis prod.collapse)
  obtain r w1 where rd: "read_pid p w = (r, w1)" by (cases "read_pid p w")
  from read_pid_result(2,3) [OF this] obtain o' where r: "r = Inr o'"
    and c1: "w_clock w1 = w_clock w" "no_drift w1"
    using nd by (auto simp: same_run_def no_drift_def)
  have both: "(\<exists>o1 w2. recorded_alive p w = (Inr o1, w2) \<and> w_clock w2 = w_clock w \<and> no_drift w2) \<and>
    w_clock (snd (stop p w)) \<le> w_clock w + 10100"
  proof (cases o')
    case None
    with rd r c1 show ?thesis by (simp add: recorded_alive_def stop_def bnd_def)
  next
    case (Some pid)
    obtain a w2 where al: "alive pid w1 = (Inr a, w2)" using alive_result [of pid w1] by (metis prod.collapse)
    have c2: "w_clock w2 = w_clock w" "no_drift w2"
      using no_drift_clock(5,6) [OF c1(2), of pid] c1 al by simp_all
    obtain k w3 where k: "kill pid 15 w2 = (Inr k, w3)" "w_clock w3 = w_clock w" "no_drift w3"
      using kill_ok [of pid 15 w2] c2 by metis
    have "snd (stop p w) \<in> {w2, w3, snd (os_remove (p_pid_file p) w2),
        snd (os_remove (p_pid_file p) (wait_exit pid (w_clock w3 + 10000) w3))}"
      unfolding stop_def bnd_def [of "read_pid p"] rd r Some
      by (simp add: al bnd_def thn_def now_def k(1))
    moreover have "w_clock (wait_exit pid (w_clock w3 + 10000) w3) \<le> w_clock w + 10100"
      using wait_exit_clock [OF k(3), of pid "w_clock w + 10000"] k(2) by simp
    ultimately have "w_clock (snd (stop p w)) \<le> w_clock w + 10100" using c2 k(2) rm by auto
    then show ?thesis using rd r Some al c2 by (simp add: recorded_alive_def bnd_def)
  qed
  then obtain o1 w2 where ra: "recorded_alive p w = (Inr o1, w2)" "w_clock w2 = w_clock w" "no_drift w2"
    by blast
  obtain es w3 es' w4 where n: "nuke_process o1 w2 = (Inr es, w3)"
    "remove_leftovers [p_socket_path p, p_pid_file p] w3 = (Inr es', w4)" "nuke p w = (Inr (es @ es'), w4)"
    using nuke_run [of p w] ra(1) by (metis Pair_inject sum.inject(2))
  have "w_clock w4 \<le> w_clock w + 5100"
    using remove_leftovers_effect [OF n(2)] nuke_process_ok [of o1 w2] n(1) ra by auto
  with both n(3) show ?thesis by simp
qed


lemma start_success:
  assumes "start i p extra w = (Inr (), w')"
  shows "fst (recorded_alive p w) \<noteq> Inr None \<or> map_of (w_fs w') (p_socket_path p) \<noteq> None"
proof -
  obtain o1 w1 where ra: "recorded_alive p w = (Inr o1, w1)" using recorded_alive_ok by blast
  show ?thesis
  proof (cases o1)
    case None
    note st = assms [unfolded start_def bnd_def [of "recorded_alive p"] ra None, simplified]
    obtain pid deadline v where "wait_socket (p_socket_path p) pid deadline v = (Inr (), w')"
      using st by (auto dest!: thn_last bnd_last)
    then show ?thesis using wait_socket_ready by blast
  qed (use ra in simp)
qed

definition start_event :: "inst \<Rightarrow> params \<Rightarrow> event \<Rightarrow> bool" where
  "start_event i p e =
     (case e of
        EvFs f \<Rightarrow> f \<in> {OpRead (p_pid_file p), OpMkdirAll (path_dir (p_socket_path p)) 493,
          OpRemove (p_socket_path p), OpMkdirAll (p_state_dir p) 448, OpWriteFile (p_pid_file p) 420,
          OpStat (p_socket_path p)}
      | EvKill pid sig \<Rightarrow> sig = 0
      | EvSpawn bin args environ \<Rightarrow> bin = runner_bin (i_netbird_bin i) \<and>
          args = service_run_args (p_config_json p) (p_daemon_addr p) (p_log_file p) log_level \<and>
          effective environ ''NB_STATE_DIR'' = Some (p_state_dir p)
      | EvSleep d \<Rightarrow> True
      | _ \<Rightarrow> False)"

lemma start_events: "keeps (emits (start_event i p)) (start i p extra)"
  by (intro emits_start) (simp_all add: start_event_def effective_def daemon_environ_def)

text \<open>C35: Starting isolates.  A start touches no file but the instance's own socket, pid file, state
  directory and the run directory; it sends no signal but the probe 0; and any daemon it spawns gets
  the instance's own config, socket and log on its command line, and the instance's own state directory
  as the value of \<^verbatim>\<open>NB_STATE_DIR\<close> that counts, whatever the inherited environment or the platform
  set.  If it reports success, a daemon was already running or the socket is there.\<close>

theorem start_isolates:
  assumes "start i p extra w = (r, w')"
  shows "(\<forall>f. EvFs f \<in> set (new_events w w') \<longrightarrow> f \<in>
      {OpRead (p_pid_file p), OpMkdirAll (path_dir (p_socket_path p)) 493, OpRemove (p_socket_path p),
       OpMkdirAll (p_state_dir p) 448, OpWriteFile (p_pid_file p) 420, OpStat (p_socket_path p)}) \<and>
    (\<forall>pid sig. EvKill pid sig \<in> set (new_events w w') \<longrightarrow> sig = 0) \<and>
    (\<forall>bin args environ. EvSpawn bin args environ \<in> set (new_events w w') \<longrightarrow>
       bin = (if i_netbird_bin i = [] then ''netbird'' else i_netbird_bin i) \<and>
       args = [''service'', ''run'', ''--config'', p_config_json p, ''--daemon-addr'', p_daemon_addr p,
               ''--log-file'', p_log_file p, ''--log-level'', ''info''] \<and>
       effective environ ''NB_STATE_DIR'' = Some (p_state_dir p)) \<and>
    (r = Inr () \<longrightarrow> fst (recorded_alive p w) \<noteq> Inr None \<or> map_of (w_fs w') (p_socket_path p) \<noteq> None)"
proof -
  have ev: "start_event i p e" if "e \<in> set (new_events w w')" for e
    using keeps_new_events [OF start_events, of e w i p extra] that assms by simp
  have "f \<in> {OpRead (p_pid_file p), OpMkdirAll (path_dir (p_socket_path p)) 493,
          OpRemove (p_socket_path p), OpMkdirAll (p_state_dir p) 448, OpWriteFile (p_pid_file p) 420,
          OpStat (p_socket_path p)}" if "EvFs f \<in> set (new_events w w')" for f
    using ev [OF that] by (simp add: start_event_def)
  moreover have "sig = 0" if "EvKill pid sig \<in> set (new_events w w')" for pid sig
    using ev [OF that] by (simp add: start_event_def)
  moreover have "bin = runner_bin (i_netbird_bin i) \<and>
        args = service_run_args (p_config_json p) (p_daemon_addr p) (p_log_file p) log_level \<and>
        effective environ ''NB_STATE_DIR'' = Some (p_state_dir p)"
    if "EvSpawn bin args environ \<in> set (new_events w w')" for bin args environ
    using ev [OF that] by (simp add: start_event_def)
  moreover have "fst (recorded_alive p w) \<noteq> Inr None \<or> map_of (w_fs w') (p_socket_path p) \<noteq> None"
    if "r = Inr ()"
    using start_success assms that by blast
  ultimately show ?thesis
    unfolding runner_bin_def default_bin_def service_run_args_def log_level_def by blast
qed

section \<open>A concrete daemon\<close>

text \<open>A process 4242 that lives until it gets SIGTERM or SIGKILL; its pid is on record.  A
  spawned daemon makes its socket.\<close>

definition daemon_env :: env where
  "daemon_env = example_env\<lparr>
     e_kill := (\<lambda>h pid sig. if EvKill 4242 15 \<in> set h \<or> EvKill 4242 9 \<in> set h then Some ESRCH else None),
     e_step := (\<lambda>h f. case h of EvSpawn _ _ _ # _ \<Rightarrow> fs_put f ''/run/a.sock'' (File [] 420) | _ \<Rightarrow> f)\<rparr>"

definition daemon_params :: params where
  "daemon_params =
     \<lparr>p_dir = ''/r/a'', p_toml_path = ''/r/a/instance.toml'', p_config_json = ''/r/a/config.json'',
      p_log_file = ''/r/a/daemon.log'', p_socket_path = ''/run/a.sock'',
      p_daemon_addr = ''unix:///run/a.sock'', p_pid_file = ''/run/a.pid'', p_wg_port = 51900,
      p_state_dir = ''/r/a/state''\<rparr>"

lemma daemon_params_derived: "daemon_params = derive_params (example_inst ''a'' 0) ''/r'' ''/run''"
  by code_simp

definition daemon_world :: "fs \<Rightarrow> world" where
  "daemon_world f = \<lparr>w_fs = f, w_hist = [], w_clock = 0, w_env = daemon_env\<rparr>"

definition running_fs :: fs where
  "running_fs = [(''/run'', Dir 493), (''/run/a.pid'', File ''4242'' 420), (''/run/a.sock'', File [] 420)]"

theorem signals_only_recorded_witness:
  "EvKill 4242 15 \<in> set (new_events (daemon_world running_fs) (snd (stop daemon_params (daemon_world running_fs)))) \<and>
   get_file running_fs (p_pid_file daemon_params) = Inr ''4242''"
proof -
  have e: "EvKill 4242 15 \<in> set (new_events (daemon_world running_fs) (snd (stop daemon_params (daemon_world running_fs))))"
    by code_simp
  have "get_file running_fs (p_pid_file daemon_params) = Inr ''4242''" by code_simp
  moreover from e have "(0 :: int) < 4242" using signals_only_recorded [of 4242 15] by blast
  ultimately show ?thesis using e by blast
qed

lemma stop_example:
  "fst (read_pid daemon_params (daemon_world running_fs)) = Inr (Some 4242)"
  "fst (alive 4242 (snd (read_pid daemon_params (daemon_world running_fs)))) = Inr True"
  "fst (stop daemon_params (daemon_world running_fs)) = Inr ()"
  by code_simp+


theorem waits_bounded_witness:
  "w_clock (snd (stop daemon_params (daemon_world running_fs))) \<le> 10100 \<and>
   w_clock (snd (nuke daemon_params (daemon_world running_fs))) \<le> 5100"
  using waits_bounded [of "daemon_world running_fs" daemon_params]
  by (simp add: daemon_world_def daemon_env_def example_env_def)


theorem start_isolates_witness:
  "fst (start (example_inst ''a'' 0) daemon_params [] (daemon_world [])) = Inr () \<and>
   map_of (w_fs (snd (start (example_inst ''a'' 0) daemon_params [] (daemon_world [])))) (p_socket_path daemon_params) \<noteq> None"
proof -
  have "fst (start (example_inst ''a'' 0) daemon_params [] (daemon_world [])) = Inr ()"
    "fst (recorded_alive daemon_params (daemon_world [])) = Inr None" by code_simp+
  with start_isolates [of "example_inst ''a'' 0" daemon_params "[]" "daemon_world []"]
  show ?thesis by (metis prod.collapse)
qed

end
