(* ===== verification/NbGrpc.thy ===== *)
theory NbGrpc
  imports Daemon
begin

text \<open>
  \<^verbatim>\<open>internal/nbgrpc/client.go\<close>: the client of the daemon's gRPC service.  The service itself is
  netbird's; its answers are part of the environment (\<open>e_status\<close>, \<open>e_login\<close>, \<open>e_rpc\<close>, ...).  What is
  modelled is what the client sends, what it makes of the answers, and its readiness loop.
\<close>

section \<open>Requests\<close>

record login_params =
  l_setup_key :: string
  l_management_url :: string
  l_hostname :: string

record sso_challenge =
  ch_user_code :: string
  ch_uri :: string

definition login_hint :: "string \<Rightarrow> string" where
  "login_hint key =
     (if key = [] then ''check the management URL''
      else ''check the management URL and that the setup key is valid and not expired'')"

definition login_answer :: "login_reply \<Rightarrow> sso_challenge option" where
  "login_answer r =
     (if lr_needs_sso r
      then Some \<lparr>ch_user_code = lr_user_code r,
                 ch_uri = (if lr_uri_complete r = [] then lr_uri r else lr_uri_complete r)\<rparr>
      else None)"

definition login :: "string \<Rightarrow> login_params \<Rightarrow> sso_challenge option op" where
  "login sock p =
     bnd (wrap (''login against '' @ l_management_url p @ '' failed - '' @ login_hint (l_setup_key p))
            (rpc_login sock (l_setup_key p) (l_management_url p) (l_hostname p))) (\<lambda>r.
     ret (login_answer r))"

definition wait_sso_login :: "string \<Rightarrow> sso_challenge \<Rightarrow> string \<Rightarrow> unit op" where
  "wait_sso_login sock ch hostname =
     wrap (''waiting for SSO login - complete it at '' @ ch_uri ch)
       (rpc_call sock (RpcWaitSSO (ch_user_code ch) hostname))"

record set_config_params =
  sc_management_url :: string
  sc_interface_name :: string
  sc_wireguard_port :: int
  sc_disable_dns :: bool
  sc_custom_dns_address :: string

text \<open>The daemon resets \<^verbatim>\<open>customDNSAddress\<close> when the field is absent, so it is always sent; the
  literal \<^verbatim>\<open>empty\<close> clears it.\<close>

definition set_config_request :: "set_config_params \<Rightarrow> rpc" where
  "set_config_request p =
     RpcSetConfig ''default''
       (if sc_custom_dns_address p = [] then ''empty'' else sc_custom_dns_address p)
       (sc_management_url p) (sc_wireguard_port p) (sc_disable_dns p) (sc_interface_name p)"

definition set_config :: "string \<Rightarrow> set_config_params \<Rightarrow> unit op" where
  "set_config sock p = wrap ''updating daemon config'' (rpc_call sock (set_config_request p))"

definition networks :: "string \<Rightarrow> network list op" where
  "networks sock = wrap ''listing networks'' (rpc_networks sock)"

definition dns_domains :: "status_response \<Rightarrow> string list" where
  "dns_domains st = concat (map ng_domains (filter ng_enabled (fs_dns_servers (st_full st))))"

definition engine_up :: "string \<Rightarrow> unit op" where
  "engine_up sock = wrap ''bringing the engine up'' (rpc_call sock RpcUp)"

definition engine_down :: "string \<Rightarrow> unit op" where
  "engine_down sock = wrap ''bringing the engine down'' (rpc_call sock RpcDown)"

definition status :: "string \<Rightarrow> status_response op" where
  "status sock = wrap ''querying daemon status'' (rpc_status sock True)"

section \<open>Readiness\<close>

text \<open>The loop of \<^verbatim>\<open>WaitReady\<close>: poll until the daemon answers, the deadline has passed or the
  context is cancelled.\<close>

lemma later_rpc_status: "keeps later (rpc_status sock full)"
  unfolding rpc_status_def by (rule later_callout)

lemma ready_step:
  assumes "rpc_status sock full w = (r, w1)" and "\<not> w_clock w1 > deadline"
  shows "Suc deadline - w_clock (snd (sleep 200 w1)) < Suc deadline - w_clock w"
proof -
  have "w_clock w \<le> w_clock w1" using keepsD [OF later_rpc_status assms(1)] by (simp add: later_def)
  with assms(2) sleep_clock [of w1 200] show ?thesis by simp
qed

function ready_loop :: "string \<Rightarrow> nat \<Rightarrow> world \<Rightarrow> (err + unit) \<times> world" where
  "ready_loop sock deadline w =
     (let (r, w1) = rpc_status sock False w
      in case r of
           Inr _ \<Rightarrow> (Inr (), w1)
         | Inl e \<Rightarrow>
             if w_clock w1 > deadline then (Inl (Wrap ''daemon did not become ready'' e), w1)
             else if e_cancelled (w_env w1) (w_hist w1) then (Inl (ErrMsg ''context canceled''), w1)
             else ready_loop sock deadline (snd (sleep 200 w1)))"
  by auto
termination
  by (relation "measure (\<lambda>(sock, deadline, w). Suc deadline - w_clock w)") (auto, metis ready_step)

declare ready_loop.simps [simp del]

definition wait_ready :: "string \<Rightarrow> nat \<Rightarrow> unit op" where
  "wait_ready sock timeout = bnd now (\<lambda>t. ready_loop sock (t + timeout))"

section \<open>Facts\<close>

lemma emits_ready_loop [frame_intros]:
  assumes "P (EvRpc sock (RpcStatus False))" and "P (EvSleep 200)"
  shows "keeps (emits P) (ready_loop sock deadline)"
proof -
  have "emits P w (snd (ready_loop sock deadline w))" for w
    using assms
  proof (induction sock deadline w rule: ready_loop.induct)
    case (1 sock deadline w)
    obtain r w1 where st: "rpc_status sock False w = (r, w1)" by (cases "rpc_status sock False w")
    have 1: "emits P w w1" by (rule keepsD [OF keeps_calls(6) st]) (rule "1.prems")
    have 2: "emits P w (snd (sleep 200 w1))"
      using emits_trans [OF 1, of "snd (sleep 200 w1)"] keeps_calls(1) [of P 200] "1.prems"(2)
      by (simp add: keeps_def)
    show ?case
      using 1 "1.IH" [OF st [symmetric] refl] "1.prems" emits_trans [OF 2]
      by (subst ready_loop.simps) (auto simp: st split: sum.split)
  qed
  then show ?thesis by (simp add: keeps_def)
qed

lemma emits_wait_ready [frame_intros]:
  "P (EvRpc sock (RpcStatus False)) \<Longrightarrow> P (EvSleep 200) \<Longrightarrow> keeps (emits P) (wait_ready sock t)"
  unfolding wait_ready_def by (intro frame_intros)

lemma emits_client [frame_intros]:
  "P (EvRpc sock (RpcLogin (l_setup_key lp) (l_management_url lp) (l_hostname lp))) \<Longrightarrow>
     keeps (emits P) (login sock lp)"
  "P (EvRpc sock (RpcWaitSSO (ch_user_code ch) h)) \<Longrightarrow> keeps (emits P) (wait_sso_login sock ch h)"
  "P (EvRpc sock (set_config_request cp)) \<Longrightarrow> keeps (emits P) (set_config sock cp)"
  "P (EvRpc sock RpcListNetworks) \<Longrightarrow> keeps (emits P) (networks sock)"
  "P (EvRpc sock RpcUp) \<Longrightarrow> keeps (emits P) (engine_up sock)"
  "P (EvRpc sock RpcDown) \<Longrightarrow> keeps (emits P) (engine_down sock)"
  "P (EvRpc sock (RpcStatus True)) \<Longrightarrow> keeps (emits P) (status sock)"
  unfolding login_def wait_sso_login_def set_config_def networks_def engine_up_def engine_down_def
    status_def
  by (intro frame_intros; assumption)+

text \<open>A daemon that answered is what a successful wait ends with.\<close>

lemma ready_loop_answered:
  "ready_loop sock deadline w = (Inr (), w') \<Longrightarrow>
     \<exists>v st. rpc_status sock False v = (Inr st, w')"
proof (induction sock deadline w arbitrary: w' rule: ready_loop.induct)
  case (1 sock deadline w)
  obtain r w1 where st: "rpc_status sock False w = (r, w1)" by (cases "rpc_status sock False w")
  show ?case
  proof (cases r)
    case (Inr a)
    with "1.prems" st have "w' = w1" by (subst (asm) ready_loop.simps) simp
    with st Inr show ?thesis by blast
  next
    case (Inl e)
    have "\<not> w_clock w1 > deadline" "\<not> e_cancelled (w_env w1) (w_hist w1)"
      "ready_loop sock deadline (snd (sleep 200 w1)) = (Inr (), w')"
      using "1.prems" Inl by (subst (asm) ready_loop.simps; simp add: st split: if_splits)+
    with "1.IH" [OF st [symmetric] refl Inl] show ?thesis by simp
  qed
qed

lemma ready_loop_bound:
  assumes "no_drift w"
  shows "w_clock (snd (ready_loop sock deadline w)) \<le> max (w_clock w) (deadline + 200)"
  using assms
proof (induction sock deadline w rule: ready_loop.induct)
  case (1 sock deadline w)
  obtain r w1 where st: "rpc_status sock False w = (r, w1)" by (cases "rpc_status sock False w")
  have w1: "w_clock w1 = w_clock w" "no_drift w1"
    using st "1.prems" by (auto simp: rpc_status_def callout_def no_drift_def)
  note IH = "1.IH" [OF st [symmetric] refl]
  show ?case
  proof (cases "is_ok r \<or> w_clock w1 > deadline \<or> e_cancelled (w_env w1) (w_hist w1)")
    case True
    then show ?thesis using w1 by (subst ready_loop.simps) (auto simp: st split: sum.split)
  next
    case False
    then obtain e where e: "r = Inl e" by (auto simp: not_is_ok_iff)
    with False have "w_clock (snd (ready_loop sock deadline (snd (sleep 200 w1))))
        \<le> max (w_clock w1 + 200) (deadline + 200)"
      using IH [OF e] no_drift_clock(3,4) [OF w1(2), of 200] by auto
    with False e show ?thesis by (subst ready_loop.simps) (auto simp: st)
  qed
qed

section \<open>Properties\<close>

text \<open>The setup key does not leak through a failed login.  Whatever the daemon answers, the error
  of a login with one non-empty key is the error of the same login with another.\<close>

theorem login_error_hides_key:
  assumes "l_setup_key p \<noteq> []" and "key \<noteq> []"
    and "fst (login sock p w) = Inl e"
  shows "fst (login sock (p\<lparr>l_setup_key := key\<rparr>) w) = Inl e"
  using assms
  by (auto simp: login_def bnd_def wrap_def rpc_login_def callout_def login_hint_def
      split: sum.splits prod.splits)

text \<open>C39: Waiting for the daemon.  If \<^verbatim>\<open>WaitReady\<close> succeeds, the daemon has just answered a status
  request; and where only sleeping takes time it gives up within the timeout and one poll.\<close>

theorem wait_ready_sound:
  assumes "wait_ready sock timeout w = (r, w')"
  shows "(r = Inr () \<longrightarrow> (\<exists>v st. rpc_status sock False v = (Inr st, w'))) \<and>
    ((\<forall>h. e_drift (w_env w) h = 0) \<longrightarrow> w_clock w' \<le> w_clock w + timeout + 200)"
  using assms ready_loop_answered ready_loop_bound [of w sock "w_clock w + timeout"]
  by (auto simp: wait_ready_def now_def no_drift_def)

section \<open>Concrete runs\<close>

theorem login_error_hides_key_witness:
  "let w = (example_world [])\<lparr>w_env := example_env\<lparr>e_login := \<lambda>_ _. Inl ''denied''\<rparr>\<rparr>;
       p = \<lparr>l_setup_key = ''A'', l_management_url = ''u'', l_hostname = ''h''\<rparr>
   in fst (login ''s'' p w) = fst (login ''s'' (p\<lparr>l_setup_key := ''B''\<rparr>) w) \<and>
      \<not> is_ok (fst (login ''s'' p w))"
proof -
  let ?w = "(example_world [])\<lparr>w_env := example_env\<lparr>e_login := \<lambda>_ _. Inl ''denied''\<rparr>\<rparr>"
  let ?p = "\<lparr>l_setup_key = ''A'', l_management_url = ''u'', l_hostname = ''h''\<rparr>"
  have "\<not> is_ok (fst (login ''s'' ?p ?w))" by code_simp
  then obtain e where e: "fst (login ''s'' ?p ?w) = Inl e" by (auto simp: not_is_ok_iff)
  have "fst (login ''s'' (?p\<lparr>l_setup_key := ''B''\<rparr>) ?w) = Inl e"
    by (rule login_error_hides_key [OF _ _ e]) simp_all
  with e show ?thesis by (simp add: Let_def)
qed

theorem wait_ready_sound_witness:
  "fst (wait_ready ''s'' 400 (example_world [])) = Inr () \<and>
   w_clock (snd (wait_ready ''s'' 400 (example_world []))) \<le> 600"
proof -
  have "fst (wait_ready ''s'' 400 (example_world [])) = Inr ()"
    by (simp add: wait_ready_def now_def ready_loop.simps rpc_status_def callout_def example_world_def
        example_env_def)
  moreover have "\<forall>h. e_drift (w_env (example_world [])) h = 0" "w_clock (example_world []) = 0"
    by (simp_all add: example_env_def example_world_def)
  ultimately show ?thesis
    using wait_ready_sound [OF prod.collapse [symmetric], of "''s''" 400 "example_world []"] by simp
qed

end
