(* ===== verification/Platform.thy ===== *)
theory Platform
  imports Scutil NbGrpc
begin

text \<open>
  \<^verbatim>\<open>internal/platform\<close>: the operating system's part.  Every operation of the interface
  \<^verbatim>\<open>Platform\<close> is here in its darwin and its linux implementation, and dispatched on the
  environment's operating system, as the build tags do.
\<close>

section \<open>Directories and names\<close>

definition home_dir :: "string op" where
  "home_dir = bnd (asks (\<lambda>w. e_home (w_env w))) (\<lambda>h.
     case h of None \<Rightarrow> fail (Wrap ''finding home directory'' (ErrSys ''HOME'')) | Some d \<Rightarrow> ret d)"

definition darwin_config_root :: "string op" where
  "darwin_config_root =
     bnd (getenv ''MULTIBIRD_CONFIG_ROOT'') (\<lambda>r.
       if r \<noteq> [] then ret r
       else bnd home_dir (\<lambda>home.
         ret (path_join [home, ''Library'', ''Application Support'', ''multibird''])))"

definition linux_config_root :: "string op" where
  "linux_config_root =
     bnd (getenv ''MULTIBIRD_CONFIG_ROOT'') (\<lambda>r.
       if r \<noteq> [] then ret r
       else bnd (getenv ''XDG_CONFIG_HOME'') (\<lambda>x.
         if x \<noteq> [] then ret (path_join [x, ''multibird''])
         else bnd home_dir (\<lambda>home. ret (path_join [home, ''.config'', ''multibird'']))))"

definition run_dir :: string where "run_dir = ''/var/run/multibird''"

definition default_dns_mode :: "os \<Rightarrow> dns_mode" where
  "default_dns_mode os = (case os of Darwin \<Rightarrow> DNSMultibird | Linux \<Rightarrow> DNSNative)"

definition daemon_env_of :: "os \<Rightarrow> (string \<times> string) list" where
  "daemon_env_of os = (case os of Darwin \<Rightarrow> [(''NB_USE_LEGACY_ROUTING'', ''true'')] | Linux \<Rightarrow> [])"

definition by_os :: "'a op \<Rightarrow> 'a op \<Rightarrow> 'a op" where
  "by_os darwin linux =
     bnd (asks (\<lambda>w. e_os (w_env w))) (\<lambda>os. case os of Darwin \<Rightarrow> darwin | Linux \<Rightarrow> linux)"

definition config_root :: "string op" where
  "config_root = by_os darwin_config_root linux_config_root"

section \<open>Interfaces and routes\<close>

text \<open>\<^verbatim>\<open>fmt.Sscanf(name, "utun%d", &n)\<close>: a number after the literal; what follows it is not read.\<close>

definition utun_unit :: "string \<Rightarrow> int option" where
  "utun_unit name =
     (case cut_prefix name ''utun'' of
        None \<Rightarrow> None
      | Some t \<Rightarrow>
          (let (sign, u) = (case t of
                 c # cs \<Rightarrow> if c = CHR ''-'' then (-1, cs) else if c = CHR ''+'' then (1, cs) else (1, t)
               | [] \<Rightarrow> (1, []));
               ds = takeWhile is_digit u
           in if ds = [] then None
              else let n = sign * int (digits_val ds)
                   in if - (2 ^ 63) \<le> n \<and> n < 2 ^ 63 then Some n else None))"

definition darwin_interface_hint :: "int \<Rightarrow> string op" where
  "darwin_interface_hint i =
     bnd (attempt net_interfaces) (\<lambda>r.
       let used = (case r of Inl _ \<Rightarrow> [] | Inr l \<Rightarrow> List.map_filter utun_unit (map fst l))
       in ret (''utun'' @ itoa (first_unused used (210 + i))))"

definition linux_interface_hint :: "int \<Rightarrow> string op" where
  "linux_interface_hint i = ret (''wt-mb-'' @ itoa i)"

definition interface_hint :: "int \<Rightarrow> string op" where
  "interface_hint i = by_os (darwin_interface_hint i) (linux_interface_hint i)"

definition carries :: "addr \<Rightarrow> string \<times> addr list option \<Rightarrow> bool" where
  "carries a iface =
     (case snd iface of None \<Rightarrow> False | Some l \<Rightarrow> list_ex (\<lambda>b. unmap b = unmap a) l)"

definition discover_interface :: "addr \<Rightarrow> string op" where
  "discover_interface a =
     bnd (wrap ''listing network interfaces'' net_interfaces) (\<lambda>l.
       case find (carries a) l of
         Some iface \<Rightarrow> ret (fst iface)
       | None \<Rightarrow> fail (ErrMsg ''no interface carries the address''))"

fun dev_after :: "string list \<Rightarrow> string option" where
  "dev_after (f # g # fs') = (if f = ''dev'' then Some g else dev_after (g # fs'))"
| "dev_after _ = None"

definition parse_route_dev :: "string \<Rightarrow> string option" where
  "parse_route_dev out = dev_after (str_fields out)"

definition interface_line :: "string \<Rightarrow> string option" where
  "interface_line line = map_option trim_space (cut_prefix (trim_space line) ''interface:'')"

definition parse_route_get :: "string \<Rightarrow> string option" where
  "parse_route_get out =
     (case List.map_filter interface_line (split_on CHR 0x0A out) of [] \<Rightarrow> None | x # _ \<Rightarrow> Some x)"

definition found :: "string option \<Rightarrow> string op" where
  "found r = (case r of None \<Rightarrow> fail (ErrMsg ''no device in route lookup output'') | Some x \<Rightarrow> ret x)"

definition route_interface :: "addr \<Rightarrow> string op" where
  "route_interface a = by_os
     (bnd (wrap ''route get'' (exec [''route'', ''-n'', ''get'', addr_string a] [])) (\<lambda>out.
        found (parse_route_get out)))
     (bnd (wrap ''route get'' (exec [''ip'', ''route'', ''get'', addr_string a] [])) (\<lambda>out.
        found (parse_route_dev out)))"

section \<open>Host DNS\<close>

definition require_root :: "unit op" where
  "require_root = bnd (asks (\<lambda>w. e_uid (w_env w))) (\<lambda>u. if u \<noteq> 0 then fail ErrNeedsRoot else ret ())"

definition exec_scutil :: "string \<Rightarrow> string op" where
  "exec_scutil script =
     bnd (wrap ''scutil'' (exec [''/usr/sbin/scutil''] script)) (\<lambda>out.
       case scutil_output_error out of
         Some l \<Rightarrow> fail (Wrap ''scutil'' (ErrMsg l))
       | None \<Rightarrow> ret out)"

definition list_multibird_keys :: "string list op" where
  "list_multibird_keys = bnd (exec_scutil list_script) (\<lambda>out. ret (parse_listed_keys out))"

definition flush_dns_cache :: "unit op" where
  "flush_dns_cache =
     thn (wrap ''dscacheutil'' (exec [''/usr/bin/dscacheutil'', ''-flushcache''] []))
    (thn (wrap ''killall'' (exec [''killall'', ''-HUP'', ''mDNSResponder''] [])) (ret ()))"

definition darwin_apply_host_dns :: "string \<Rightarrow> spec \<Rightarrow> unit op" where
  "darwin_apply_host_dns name sp =
     thn require_root
    (bnd (wrap ''listing dynamic-store keys'' list_multibird_keys) (\<lambda>existing.
       let stale = keys_of_instance existing name;
           keys = host_dns_keys name sp
       in if stale = [] \<and> keys = [] then ret ()
          else thn (wrap ''writing DNS keys'' (exec_scutil (render_apply_script stale keys (sp_listen sp))))
                   (wrap ''cache flush failed'' flush_dns_cache)))"

definition darwin_remove_host_dns :: "string \<Rightarrow> unit op" where
  "darwin_remove_host_dns name =
     bnd (wrap ''listing dynamic-store keys'' list_multibird_keys) (\<lambda>existing.
       let keys = keys_of_instance existing name
       in if keys = [] then ret ()
          else thn require_root
              (thn (wrap ''removing DNS keys'' (exec_scutil (render_remove_script keys)))
                   (wrap ''cache flush failed'' flush_dns_cache)))"

definition apply_host_dns :: "string \<Rightarrow> spec \<Rightarrow> unit op" where
  "apply_host_dns name sp = by_os (darwin_apply_host_dns name sp)
     (fail (ErrMsg ''dns_mode multibird is not supported on linux''))"

definition remove_host_dns :: "string \<Rightarrow> unit op" where
  "remove_host_dns name = by_os (darwin_remove_host_dns name) (ret ())"

definition list_host_dns_owners :: "string list op" where
  "list_host_dns_owners =
     by_os (bnd list_multibird_keys (\<lambda>keys. ret (owners_from_keys keys))) (ret [])"

definition stock_netbird_dns_present :: "bool op" where
  "stock_netbird_dns_present = by_os
     (bnd (exec_scutil (''list State:/Network/Service/NetBird-.*/DNS'' @ nl @ ''quit'' @ nl)) (\<lambda>out.
        ret (str_contains out ''State:/Network/Service/NetBird-'')))
     (ret False)"

section \<open>Facts\<close>

lemma emits_by_os [frame_intros]:
  "keeps (emits P) d \<Longrightarrow> keeps (emits P) l \<Longrightarrow> keeps (emits P) (by_os d l)"
  unfolding by_os_def by (auto intro!: frame_intros split: os.split)

lemma emits_exec_scutil [frame_intros]:
  "P (EvExec [''/usr/sbin/scutil''] script) \<Longrightarrow> keeps (emits P) (exec_scutil script)"
  unfolding exec_scutil_def by (intro frame_intros)

lemma emits_routes [frame_intros]:
  "(\<And>argv. P (EvExec argv [])) \<Longrightarrow> keeps (emits P) (route_interface a)"
  unfolding route_interface_def found_def by (intro frame_intros)

lemma emits_owners [frame_intros]:
  "P (EvExec [''/usr/sbin/scutil''] list_script) \<Longrightarrow> keeps (emits P) list_host_dns_owners"
  unfolding list_host_dns_owners_def list_multibird_keys_def by (intro frame_intros)

lemma emits_stock [frame_intros]:
  "(\<And>script. P (EvExec [''/usr/sbin/scutil''] script)) \<Longrightarrow> keeps (emits P) stock_netbird_dns_present"
  unfolding stock_netbird_dns_present_def by (intro frame_intros)

lemma emits_interfaces [frame_intros]:
  assumes "P EvIfaces"
  shows "keeps (emits P) (interface_hint i)" and "keeps (emits P) (discover_interface a)"
  unfolding interface_hint_def discover_interface_def darwin_interface_hint_def linux_interface_hint_def
  by (intro frame_intros assms)+

lemma emits_config_root [frame_intros]: "keeps (emits P) config_root"
  unfolding config_root_def darwin_config_root_def linux_config_root_def home_dir_def
  by (intro frame_intros)

section \<open>Listings\<close>

text \<open>The output of \<^verbatim>\<open>scutil\<close>'s \<^verbatim>\<open>list\<close>: one numbered line for each key.\<close>

definition listing_line :: "nat \<Rightarrow> string \<Rightarrow> string" where
  "listing_line n k = ''  subKey ['' @ utoa n @ ''] = '' @ k"

fun listing_from :: "nat \<Rightarrow> string list \<Rightarrow> string" where
  "listing_from n [] = []"
| "listing_from n (k # ks) = listing_line n k @ nl @ listing_from (Suc n) ks"

lemma is_token_ends: "is_token k \<Longrightarrow> \<not> is_space (hd k) \<and> \<not> is_space (last k)"
  by (cases k) (auto simp: is_token_def list_all_iff)

lemma cut_skip: "\<not> has_prefix (c # s) sep \<Longrightarrow> cut (c # s) sep = map_option (\<lambda>(b, a). (c # b, a)) (cut s sep)"
  by (simp split: option.split)

lemma cut_eq_sign:
  "CHR ''='' \<notin> set b \<Longrightarrow> cut (b @ ''= '' @ a) ''= '' = Some (b, a)"
  by (induction b) auto

lemma listed_line:
  assumes "is_token k"
  shows "listed_key (listing_line n k) = (if has_prefix k dyn_store_prefix then Some k else None)"
proof -
  have "CHR ''='' \<notin> set (''  subKey ['' @ utoa n @ ''] '')"
    using utoa_no [of "CHR ''=''" n] by (simp add: is_digit_def)
  from cut_eq_sign [OF this, of k] have "cut (listing_line n k) ''= '' = Some (''  subKey ['' @ utoa n @ ''] '', k)"
    by (simp add: listing_line_def)
  moreover have "trim_space k = k" using is_token_ends [OF assms] by (intro trim_space_id) simp
  ultimately show ?thesis by (simp add: listed_key_def)
qed

lemma listing_line_no_nl: "is_token k \<Longrightarrow> CHR 0x0A \<notin> set (listing_line n k)"
  using is_token_no_nl [of k] is_token_no_nl [OF utoa_token [of n]] by (simp add: listing_line_def)

lemma parse_listing:
  "list_all is_token ks \<Longrightarrow>
     parse_listed_keys (listing_from n ks) = filter (\<lambda>k. has_prefix k dyn_store_prefix) ks"
proof (induction ks arbitrary: n)
  case Nil
  then show ?case by code_simp
next
  case (Cons k ks)
  then have k: "is_token k" by simp
  have "split_on CHR 0x0A (listing_from n (k # ks)) =
      listing_line n k # split_on CHR 0x0A (listing_from (Suc n) ks)"
    using split_on_append [of "CHR 0x0A" "listing_line n k" "listing_from (Suc n) ks"]
      split_on_no_sep [OF listing_line_no_nl [OF k, of n]]
    by (simp add: nl_def)
  with Cons listed_line [OF k, of n] show ?case
    by (simp add: parse_listed_keys_def List.map_filter_simps)
qed

section \<open>Properties\<close>

text \<open>Reading the store.  From scutil's listing of any keys, the program reads exactly those under
  its own prefix, in order; so the keys it finds for an instance are the keys of that instance in the
  store, none missed and none of stock NetBird's among them.\<close>

theorem listing_round_trip:
  assumes "list_all is_token ks" and "name \<noteq> []"
  shows "parse_listed_keys (listing_from n ks) = filter (\<lambda>k. has_prefix k dyn_store_prefix) ks \<and>
    keys_of_instance (parse_listed_keys (listing_from n ks)) name = filter (\<lambda>k. owner_of_key k = name) ks"
proof -
  have "has_prefix k dyn_store_prefix" if "owner_of_key k = name" for k
    using that assms(2) by (auto simp: owner_of_key_def cut_prefix_def split: option.splits if_splits)
  then have "filter (\<lambda>k. owner_of_key k = name) (filter (\<lambda>k. has_prefix k dyn_store_prefix) ks) =
      filter (\<lambda>k. owner_of_key k = name) ks"
    by (auto simp: filter_filter intro!: filter_cong)
  with parse_listing [OF assms(1)] show ?thesis by (simp add: keys_of_instance_def)
qed

theorem listing_round_trip_witness:
  "keys_of_instance (parse_listed_keys (listing_from 0
       [''State:/Network/Service/NetBird-Match-0/DNS'', key_name ''vpn'' ''Match'' 0,
        key_name ''vpn-a'' ''Match'' 0])) ''vpn'' = [key_name ''vpn'' ''Match'' 0]"
proof -
  let ?ks = "[''State:/Network/Service/NetBird-Match-0/DNS'', key_name ''vpn'' ''Match'' 0,
        key_name ''vpn-a'' ''Match'' 0]"
  have "list_all is_token ?ks" by code_simp
  then have "keys_of_instance (parse_listed_keys (listing_from 0 ?ks)) ''vpn'' =
      filter (\<lambda>k. owner_of_key k = ''vpn'') ?ks"
    by (rule listing_round_trip [THEN conjunct2]) simp
  then show ?thesis by (simp add: example_owners)
qed

text \<open>Host DNS writes on macOS.  Without root an apply fails at once with \<^verbatim>\<open>ErrNeedsRoot\<close>: nothing
  is run.  With root, a successful apply has run the listing, then one script, the one that removes
  the listed keys of this instance and writes its new ones, then the cache flush, and nothing else;
  or, when there is nothing to remove and nothing to write, only the listing.\<close>

theorem darwin_apply_runs:
  assumes "darwin_apply_host_dns name sp w = (r, w')"
  shows "(e_uid (w_env w) \<noteq> 0 \<longrightarrow> r = Inl ErrNeedsRoot \<and> w' = w) \<and>
    (r = Inr () \<longrightarrow> (\<exists>existing v. list_multibird_keys w = (Inr existing, v) \<and>
       w_hist w' =
         (if keys_of_instance existing name = [] \<and> host_dns_keys name sp = [] then []
          else [EvExec [''killall'', ''-HUP'', ''mDNSResponder''] [],
                EvExec [''/usr/bin/dscacheutil'', ''-flushcache''] [],
                EvExec [''/usr/sbin/scutil'']
                  (render_apply_script (keys_of_instance existing name) (host_dns_keys name sp) (sp_listen sp))]) @
         EvExec [''/usr/sbin/scutil''] list_script # w_hist w))"
proof (intro conjI impI)
  show "r = Inl ErrNeedsRoot" "w' = w" if "e_uid (w_env w) \<noteq> 0"
    using assms that by (simp_all add: darwin_apply_host_dns_def require_root_def thn_def bnd_def)
  have scutil: "w_hist v' = EvExec [''/usr/sbin/scutil''] script # w_hist v"
    if "exec_scutil script v = (Inr out, v')" for script v out v'
    using that by (auto simp: exec_scutil_def exec_def callout_def wrap_def bnd_def split: sum.splits option.splits)
  have flush: "w_hist v' = EvExec [''killall'', ''-HUP'', ''mDNSResponder''] [] #
      EvExec [''/usr/bin/dscacheutil'', ''-flushcache''] [] # w_hist v"
    if "flush_dns_cache v = (Inr (), v')" for v v'
    using that
    by (auto simp: flush_dns_cache_def thn_def exec_def callout_def wrap_def bnd_def split: sum.splits)
  assume ok: "r = Inr ()"
  then obtain existing v where l: "list_multibird_keys w = (Inr existing, v)"
    and rest: "(if keys_of_instance existing name = [] \<and> host_dns_keys name sp = [] then ret ()
          else thn (wrap ''writing DNS keys'' (exec_scutil
                 (render_apply_script (keys_of_instance existing name) (host_dns_keys name sp) (sp_listen sp))))
               (wrap ''cache flush failed'' flush_dns_cache)) v = (Inr (), w')"
    using assms
    by (auto simp: darwin_apply_host_dns_def require_root_def thn_def bnd_result Let_def split: if_splits)
  have v: "w_hist v = EvExec [''/usr/sbin/scutil''] list_script # w_hist w"
    using l by (auto simp: list_multibird_keys_def bnd_result dest: scutil)
  have "w_hist w' = (if keys_of_instance existing name = [] \<and> host_dns_keys name sp = [] then []
          else [EvExec [''killall'', ''-HUP'', ''mDNSResponder''] [],
                EvExec [''/usr/bin/dscacheutil'', ''-flushcache''] [],
                EvExec [''/usr/sbin/scutil'']
                  (render_apply_script (keys_of_instance existing name) (host_dns_keys name sp) (sp_listen sp))]) @
         EvExec [''/usr/sbin/scutil''] list_script # w_hist w"
    using rest v by (auto simp: thn_result dest!: scutil flush split: if_splits)
  with l show "\<exists>existing v. list_multibird_keys w = (Inr existing, v) \<and>
       w_hist w' =
         (if keys_of_instance existing name = [] \<and> host_dns_keys name sp = [] then []
          else [EvExec [''killall'', ''-HUP'', ''mDNSResponder''] [],
                EvExec [''/usr/bin/dscacheutil'', ''-flushcache''] [],
                EvExec [''/usr/sbin/scutil'']
                  (render_apply_script (keys_of_instance existing name) (host_dns_keys name sp) (sp_listen sp))]) @
         EvExec [''/usr/sbin/scutil''] list_script # w_hist w" by blast
qed

theorem darwin_apply_runs_witness:
  "let w = (example_world [])\<lparr>w_env := example_env\<lparr>e_uid := 501\<rparr>\<rparr>;
       w1 = snd (darwin_apply_host_dns ''vpn'' example_spec (example_world []))
   in darwin_apply_host_dns ''vpn'' example_spec w = (Inl ErrNeedsRoot, w) \<and>
      length (w_hist w1) = 4 \<and> last (w_hist w1) = EvExec [''/usr/sbin/scutil''] list_script"
proof -
  let ?w = "(example_world [])\<lparr>w_env := example_env\<lparr>e_uid := 501\<rparr>\<rparr>"
  have "darwin_apply_host_dns ''vpn'' example_spec ?w = (Inl ErrNeedsRoot, ?w)"
    using darwin_apply_runs [of "''vpn''" example_spec ?w, OF prod.collapse [symmetric]]
    by (simp add: prod_eq_iff)
  have ok: "fst (darwin_apply_host_dns ''vpn'' example_spec (example_world [])) = Inr ()"
    "host_dns_keys ''vpn'' example_spec \<noteq> []" by code_simp+
  from darwin_apply_runs [of "''vpn''" example_spec "example_world []", OF prod.collapse [symmetric]] ok
  have "length (w_hist (snd (darwin_apply_host_dns ''vpn'' example_spec (example_world [])))) = 4 \<and>
      last (w_hist (snd (darwin_apply_host_dns ''vpn'' example_spec (example_world [])))) =
        EvExec [''/usr/sbin/scutil''] list_script"
    by (auto simp: example_world_def)
  with \<open>darwin_apply_host_dns ''vpn'' example_spec ?w = (Inl ErrNeedsRoot, ?w)\<close>
  show ?thesis by (simp add: Let_def)
qed

text \<open>The requested interface.  On linux two instances with different indices ask for different
  names, and up to index 999999999 a name fits the 15 characters of the kernel; on macOS the requested
  unit is at least 210 plus the index and is not the unit of any interface that is listed.\<close>

theorem interface_hints:
  "(0 \<le> i \<and> 0 \<le> j \<and> i \<noteq> j \<longrightarrow> ''wt-mb-'' @ itoa i \<noteq> ''wt-mb-'' @ itoa j) \<and>
   (0 \<le> i \<and> i < 10 ^ 9 \<longrightarrow> fst (linux_interface_hint i w) = Inr (''wt-mb-'' @ itoa i) \<and>
      length (''wt-mb-'' @ itoa i) \<le> 15) \<and>
   (\<exists>n. fst (darwin_interface_hint i w) = Inr (''utun'' @ itoa n) \<and> 210 + i \<le> n \<and>
      (\<forall>l. fst (net_interfaces w) = Inr l \<longrightarrow> (\<forall>iface \<in> set l. utun_unit (fst iface) \<noteq> Some n)))"
  (is "?A \<and> ?B \<and> ?C")
proof (intro conjI)
  show ?A using itoa_inject by auto
  show ?B
  proof (intro impI conjI)
    assume i: "0 \<le> i \<and> i < 10 ^ 9"
    then show "fst (linux_interface_hint i w) = Inr (''wt-mb-'' @ itoa i)"
      by (simp add: linux_interface_hint_def)
    have "nat i < 10 ^ 9" using i by (simp add: nat_less_iff)
    from utoa_length [OF _ this] i show "length (''wt-mb-'' @ itoa i) \<le> 15" by (simp add: itoa_def)
  qed
  obtain r v where r: "net_interfaces w = (r, v)" by (cases "net_interfaces w")
  let ?used = "case r of Inl _ \<Rightarrow> [] | Inr l \<Rightarrow> List.map_filter utun_unit (map fst l)"
  let ?n = "first_unused ?used (210 + i)"
  have "fst (darwin_interface_hint i w) = Inr (''utun'' @ itoa ?n)"
    by (simp add: darwin_interface_hint_def bnd_def attempt_def r Let_def)
  moreover have "?n \<notin> set ?used" "210 + i \<le> ?n" using first_unused_props [of ?used "210 + i"] by auto
  ultimately show ?C
    using r by (intro exI [of _ ?n]) (force simp: List.map_filter_def)
qed

theorem interface_hints_witness:
  "fst (linux_interface_hint 7 (example_world [])) = Inr ''wt-mb-7'' \<and> length ''wt-mb-7'' \<le> 15 \<and>
   fst (darwin_interface_hint 0 ((example_world [])\<lparr>w_env := example_env\<lparr>e_ifaces :=
     \<lambda>_. Some [(''lo0'', None), (''utun210'', None), (''utun7'', None)]\<rparr>\<rparr>)) = Inr ''utun211''"
proof -
  have "''wt-mb-'' @ itoa 7 = ''wt-mb-7''" by code_simp
  moreover have "fst (darwin_interface_hint 0 ((example_world [])\<lparr>w_env := example_env\<lparr>e_ifaces :=
     \<lambda>_. Some [(''lo0'', None), (''utun210'', None), (''utun7'', None)]\<rparr>\<rparr>)) = Inr ''utun211''"
    by code_simp
  ultimately show ?thesis using interface_hints [of 7 0 "example_world []"] by simp
qed

end
