(* ===== verification/Registry.thy ===== *)
theory Registry
  imports Platform
begin

text \<open>
  The first part of \<^verbatim>\<open>internal/ops/ops.go\<close>: building the environment of a command, and the
  commands' view of the store, which migrates old instances as it reads them.  Go's \<^verbatim>\<open>Env\<close> is the
  store here: its platform is the operating system of the world, and its two printers are events.

  The abstract view of a store is a map from names to instances (\<open>registry\<close>).  Every operation on the
  store refines an update of that map, and keeps the well-formedness \<open>registry_ok\<close>.

  Messages keep the code's wording up to its first dash; the advice after it is left out.
\<close>

section \<open>Messages\<close>

text \<open>\<^verbatim>\<open>%q\<close> on the printable bytes.\<close>

definition quote :: "string \<Rightarrow> string" where
  "quote s = CHR 0x22 # concat (map (\<lambda>c. if c \<in> {CHR 0x22, CHR 0x5C} then [CHR 0x5C, c] else [c]) s) @ [CHR 0x22]"

text \<open>\<^verbatim>\<open>err.Error()\<close>.\<close>

fun err_text :: "err \<Rightarrow> string" where
  "err_text (ErrMsg m) = m"
| "err_text (ErrSys m) = m"
| "err_text (ErrNotExist p) = p @ '': no such file or directory''"
| "err_text ErrNeedsRoot = ''writing host DNS needs root''"
| "err_text ErrPrimaryClaim = ''daemon claims the primary resolver''"
| "err_text ErrPanic = ''panic''"
| "err_text (Wrap s e) = s @ '': '' @ err_text e"

definition about :: "string \<Rightarrow> string" where
  "about name = ''instance '' @ quote name"

section \<open>Operations\<close>

definition new_env :: "store op" where
  "new_env =
     bnd config_root (\<lambda>root.
     thn (wrap (''creating config root '' @ root) (mkdir_all root 448))
         (ret \<lparr>s_root = root, s_run = run_dir\<rparr>))"

text \<open>What \<^verbatim>\<open>Load\<close> and \<^verbatim>\<open>List\<close> of the commands do with an instance the store returned.\<close>

definition migrate :: "store \<Rightarrow> inst \<Rightarrow> inst op" where
  "migrate s i =
     (let (changed, i') = normalize i
      in if changed then thn (save s i') (ret i') else ret i')"

definition load_instance :: "store \<Rightarrow> string \<Rightarrow> inst op" where
  "load_instance s name = bnd (load s name) (migrate s)"

definition list_instances :: "store \<Rightarrow> inst list op" where
  "list_instances s = bnd (list_store s) (each (migrate s))"

text \<open>\<^verbatim>\<open>Add\<close> changes the instance it is given; the model returns the changed one.\<close>

definition add :: "store \<Rightarrow> inst \<Rightarrow> inst op" where
  "add s i =
     (if \<not> valid_name (i_name i) then fail (ErrMsg (''invalid instance name '' @ quote (i_name i)))
      else bnd (attempt (load s (i_name i))) (\<lambda>r.
        if is_ok r then fail (ErrMsg (about (i_name i) @ '' already exists''))
        else bnd (next_index s) (\<lambda>idx.
             bnd (asks (\<lambda>w. e_os (w_env w))) (\<lambda>os.
               let i' = i\<lparr>i_index := idx,
                          i_dns_mode := (if i_dns_mode i = [] then default_dns_mode os else i_dns_mode i)\<rparr>
               in thn (save s i') (ret i')))))"

section \<open>The abstract registry\<close>

type_synonym registry = "string \<Rightarrow> inst option"

definition registry :: "store \<Rightarrow> world \<Rightarrow> registry" where
  "registry s w = (\<lambda>n. if valid_name n then stored s w n else None)"

definition migrated :: "inst \<Rightarrow> inst" where
  "migrated i = snd (normalize i)"

text \<open>A well-formed registry: the store is well-formed, its root is there, and every registered instance
  sits in its own directory and carries its own name.\<close>

definition registry_ok :: "store \<Rightarrow> world \<Rightarrow> bool" where
  "registry_ok s w \<longleftrightarrow> store_ok s w \<and> clean (s_root s) = s_root s \<and> is_dir (w_fs w) (s_root s) \<and>
     (\<forall>n i. registry s w n = Some i \<longrightarrow> i_name i = n \<and> placed s w n)"

lemma migrated_simps [simp]:
  "i_name (migrated i) = i_name i" "i_index (migrated i) = i_index i"
  "i_dns_mode (migrated i) \<noteq> []" "migrated (migrated i) = migrated i"
  "i_setup_key (migrated i) = i_setup_key i" "i_logged_in (migrated i) = i_logged_in i"
  "i_dns_mode i \<noteq> [] \<Longrightarrow> migrated i = i"
  by (simp_all add: migrated_def normalize_def)

lemma migrate_alt:
  "migrate s i = (if i_dns_mode i = [] then thn (save s (migrated i)) (ret (migrated i)) else ret i)"
  by (simp add: migrate_def migrated_def normalize_def)

lemma store_ok_same: "store_ok s w \<Longrightarrow> w_fs w' = w_fs w \<Longrightarrow> same_run w w' \<Longrightarrow> store_ok s w'"
  by (simp add: store_ok_def faultless_same toml_ok_same)

lemma registry_same: "w_fs w' = w_fs w \<Longrightarrow> same_run w w' \<Longrightarrow> registry s w' = registry s w"
  by (rule ext) (simp add: registry_def stored_same)

lemma registry_ok_same: "registry_ok s w \<Longrightarrow> w_fs w' = w_fs w \<Longrightarrow> same_run w w' \<Longrightarrow> registry_ok s w'"
  using registry_same [of w' w s] store_ok_same [of s w w'] by (simp add: registry_ok_def placed_def)

lemma registry_valid: "registry s w n = Some i \<Longrightarrow> valid_name n"
  by (simp add: registry_def split: if_splits)

lemma registry_named: "registry_ok s w \<Longrightarrow> registry s w n = Some i \<Longrightarrow> i_name i = n"
  by (simp add: registry_ok_def)

lemma registry_stored: "registry s w n = Some i \<longleftrightarrow> valid_name n \<and> stored s w n = Some i"
  by (simp add: registry_def)

text \<open>The registry depends on the files and the library only.\<close>

lemma registry_files:
  assumes "w_fs w' = w_fs w" and "e_toml_dec (w_env w') = e_toml_dec (w_env w)"
  shows "registry s w' = registry s w"
  unfolding registry_def stored_def assms ..

lemma registry_ok_files:
  assumes "registry_ok s w" and "w_fs w' = w_fs w" and "e_toml_dec (w_env w') = e_toml_dec (w_env w)"
    and "e_toml_enc (w_env w') = e_toml_enc (w_env w)" and "e_fault (w_env w') = e_fault (w_env w)"
  shows "registry_ok s w'"
  using assms(1)
  unfolding registry_ok_def store_ok_def placed_def faultless_def toml_ok_def
    registry_files [OF assms(2,3)] assms(2-5) .

lemma registry_cong: "w_fs w' = w_fs w \<Longrightarrow> w_env w' = w_env w \<Longrightarrow> registry s w' = registry s w"
  by (rule registry_files) simp_all

lemma registry_ok_cong:
  "registry_ok s w \<Longrightarrow> w_fs w' = w_fs w \<Longrightarrow> w_env w' = w_env w \<Longrightarrow> registry_ok s w'"
  by (rule registry_ok_files) simp_all

subsection \<open>Events of the store\<close>

lemma emits_save [frame_intros]:
  assumes "P (EvFs (OpMkdirAll (p_dir (store_params s i)) 448))"
    and "P (EvFs (OpOpenTrunc (p_toml_path (store_params s i)) 384))"
    and "P (EvFs (OpWrite (p_toml_path (store_params s i))))"
    and "P (EvFs (OpClose (p_toml_path (store_params s i))))"
  shows "keeps (emits P) (save s i)"
  unfolding save_def Let_def by (intro frame_intros assms)

lemma emits_load [frame_intros]:
  "P (EvFs (OpRead (toml_file s n))) \<Longrightarrow> keeps (emits P) (load s n)"
  unfolding load_def by (intro frame_intros)

lemma emits_load_entries:
  assumes "\<And>q. P (EvFs (OpStat q))" and "\<And>q. P (EvFs (OpRead q))"
  shows "keeps (emits P) (load_entries s es)"
proof (induction s es rule: load_entries.induct)
  case (2 s name dir es)
  then show ?case by (cases dir) (auto intro!: frame_intros simp: assms)
qed (unfold load_entries.simps, rule ev.keeps_ret)

lemma emits_list_store [frame_intros]:
  assumes "P (EvFs (OpReadDir (s_root s)))" and "\<And>q. P (EvFs (OpStat q))" and "\<And>q. P (EvFs (OpRead q))"
  shows "keeps (emits P) (list_store s)"
  unfolding list_store_def by (intro frame_intros emits_load_entries assms)

lemma emits_migrate:
  "(\<And>f. P (EvFs f)) \<Longrightarrow> keeps (emits P) (migrate s i)"
  unfolding migrate_alt by (intro frame_intros)

lemma emits_list_instances:
  "(\<And>f. P (EvFs f)) \<Longrightarrow> keeps (emits P) (list_instances s)"
  unfolding list_instances_def by (intro frame_intros emits_migrate)

subsection \<open>Directories stay\<close>

lemma save_dirs:
  assumes "store_ok s w" and "valid_name (i_name i)"
  shows "is_dir (w_fs w) d \<Longrightarrow> is_dir (w_fs (snd (save s i w))) d"
    and "is_dir (w_fs (snd (save s i w))) (path_join [s_root s, i_name i])"
proof -
  obtain w' where w': "save s i w = (Inr (), w')" and look: "\<forall>q. q \<noteq> toml_file s (i_name i) \<longrightarrow>
      map_of (w_fs w') q = (if q \<in> set (ancestors (path_join [s_root s, i_name i])) \<and> map_of (w_fs w) q = None
        then Some (Dir 448) else map_of (w_fs w) q)"
    using save_effect [OF assms] by auto
  have nd: "no_dir (w_fs w) (toml_file s (i_name i))" using assms by (simp add: store_ok_def)
  show "is_dir (w_fs w) d \<Longrightarrow> is_dir (w_fs (snd (save s i w))) d"
    using look nd w' by (cases "d = toml_file s (i_name i)") (auto simp: is_dir_def no_dir_def split: option.splits node.splits)
  have "path_join [s_root s, i_name i] \<in> set (ancestors (path_join [s_root s, i_name i]))"
    using ancestors_join [OF valid_name_plain(1) [OF assms(2)]] by simp
  moreover have "no_file (w_fs w) (path_join [s_root s, i_name i])" using assms by (simp add: store_ok_def)
  moreover have "path_join [s_root s, i_name i] \<noteq> toml_file s (i_name i)"
    using instance_dir_not_toml [OF assms(2,2)] by metis
  ultimately show "is_dir (w_fs (snd (save s i w))) (path_join [s_root s, i_name i])"
    using look w' by (auto simp: is_dir_def no_file_def split: option.splits node.splits)
qed

lemma instance_dirs_apart:
  assumes "valid_name n" and "valid_name m" and "n \<noteq> m"
  shows "path_join [s_root s, n] \<noteq> path_join [s_root s, m]"
    and "\<not> below (path_join [s_root s, m]) (path_join [s_root s, n])"
    and "s_root s \<noteq> path_join [s_root s, m]" and "\<not> below (path_join [s_root s, m]) (s_root s)"
proof -
  note parts = instance_dir_parts(1) [OF assms(1), of s] instance_dir_parts(1) [OF assms(2), of s]
  show "path_join [s_root s, n] \<noteq> path_join [s_root s, m]"
    using parts assms(3) by (metis list.inject)
  show "s_root s \<noteq> path_join [s_root s, m]" using parts by (metis not_Cons_self2)
  show "\<not> below (path_join [s_root s, m]) (path_join [s_root s, n])"
    "\<not> below (path_join [s_root s, m]) (s_root s)"
    by (auto simp: below_def parts dest: arg_cong [where f = length])
qed

lemma remove_dirs:
  assumes "store_ok s w" and "valid_name (i_name i)" and "is_dir (w_fs w) d"
    and "d \<noteq> path_join [s_root s, i_name i]" and "\<not> below (path_join [s_root s, i_name i]) d"
  shows "is_dir (w_fs (snd (store_remove s i purge w))) d"
proof (cases "d = ''/''")
  case False
  with assms(3) have "d \<noteq> toml_file s (i_name i)"
    using assms(1,2) by (auto simp: store_ok_def no_dir_def is_dir_def split: option.splits node.splits)
  with remove_effect [OF assms(1,2), of purge] assms(3-5) show ?thesis
    by (auto simp: store_params_paths(1) is_dir_def)
qed (simp add: is_dir_def)

subsection \<open>Each operation on the abstract side\<close>

lemma save_refines:
  assumes "store_ok s w" and "valid_name (i_name i)"
  shows "fst (save s i w) = Inr ()"
    and "registry s (snd (save s i w)) = (registry s w)(i_name i \<mapsto> i)"
    and "registry_ok s w \<Longrightarrow> registry_ok s (snd (save s i w))"
    and "same_run w (snd (save s i w))"
proof -
  show "fst (save s i w) = Inr ()" "same_run w (snd (save s i w))"
    using save_effect [OF assms] by auto
  show reg: "registry s (snd (save s i w)) = (registry s w)(i_name i \<mapsto> i)"
    using tomls.get_put [OF assms] assms(2) by (auto simp: registry_def fun_eq_iff)
  show "registry_ok s w \<Longrightarrow> registry_ok s (snd (save s i w))"
    using tomls.put_ok [OF assms] save_dirs [OF assms] by (auto simp: registry_ok_def reg placed_def split: if_splits)
qed

lemma remove_refines:
  assumes "store_ok s w" and "valid_name (i_name i)"
  shows "fst (store_remove s i purge w) = Inr ()"
    and "registry s (snd (store_remove s i purge w)) = (registry s w)(i_name i := None)"
    and "registry_ok s w \<Longrightarrow> registry_ok s (snd (store_remove s i purge w))"
proof -
  show "fst (store_remove s i purge w) = Inr ()" using remove_effect [OF assms, of purge] by auto
  show reg: "registry s (snd (store_remove s i purge w)) = (registry s w)(i_name i := None)"
    using tomls.get_del [OF assms] assms(2) by (auto simp: registry_def fun_eq_iff)
  show "registry_ok s (snd (store_remove s i purge w))" if ok: "registry_ok s w"
  proof -
    have "valid_name n \<and> placed s (snd (store_remove s i purge w)) n" if "registry s w n = Some j" "n \<noteq> i_name i" for n j
    proof -
      have v: "valid_name n" by (rule registry_valid [OF that(1)])
      have "is_dir (w_fs w) (s_root s)" "is_dir (w_fs w) (path_join [s_root s, n])"
        using that(1) ok by (auto simp: registry_ok_def placed_def)
      with v show ?thesis
        unfolding placed_def using instance_dirs_apart [OF v assms(2) that(2)] remove_dirs [OF assms] by blast
    qed
    moreover have "is_dir (w_fs (snd (store_remove s i purge w))) (s_root s)"
    proof (rule remove_dirs [OF assms])
      have "path_parts (s_root s) \<noteq> path_parts (path_join [s_root s, i_name i])"
        by (simp add: instance_dir_parts(1) [OF assms(2)])
      then show "s_root s \<noteq> path_join [s_root s, i_name i]" by metis
      show "\<not> below (path_join [s_root s, i_name i]) (s_root s)"
        by (auto simp: below_def instance_dir_parts(1) [OF assms(2)] dest: arg_cong [where f = length])
    qed (use ok in \<open>simp add: registry_ok_def\<close>)
    ultimately show ?thesis
      using tomls.del_ok [OF assms] ok by (auto simp: registry_ok_def reg split: if_splits)
  qed
qed

lemma migrate_refines:
  assumes "registry_ok s w" and "registry s w (i_name i) \<in> {Some i, Some (migrated i)}"
  shows "fst (migrate s i w) = Inr (migrated i)"
    and "registry s (snd (migrate s i w)) = (registry s w)(i_name i \<mapsto> migrated i)"
    and "registry_ok s (snd (migrate s i w))"
    and "same_run w (snd (migrate s i w))"
proof -
  have i: "store_ok s w" "valid_name (i_name (migrated i))"
    using assms registry_valid by (auto simp: registry_ok_def)
  note sv = save_refines [OF i]
  have "thn (save s (migrated i)) (ret (migrated i)) w = (Inr (migrated i), snd (save s (migrated i) w))"
    using sv(1) by (simp add: thn_def bnd_def split_beta split: sum.splits)
  then show "fst (migrate s i w) = Inr (migrated i)"
    "registry s (snd (migrate s i w)) = (registry s w)(i_name i \<mapsto> migrated i)"
    "registry_ok s (snd (migrate s i w))" "same_run w (snd (migrate s i w))"
    using sv(2,3,4) assms by (auto simp: migrate_alt same_run_def fun_upd_idem)
qed

lemma each_migrate:
  assumes "registry_ok s w" and "\<And>i. i \<in> set l \<Longrightarrow> registry s w (i_name i) \<in> {Some i, Some (migrated i)}"
    and "inj_on i_name (set l)"
  shows "fst (each (migrate s) l w) = Inr (map migrated l) \<and>
    registry_ok s (snd (each (migrate s) l w)) \<and> same_run w (snd (each (migrate s) l w)) \<and>
    registry s (snd (each (migrate s) l w)) =
      (\<lambda>n. if n \<in> i_name ` set l then map_option migrated (registry s w n) else registry s w n)"
  using assms
proof (induction l arbitrary: w)
  case Nil
  then show ?case by (simp add: same_run_def)
next
  case (Cons i l)
  let ?w1 = "snd (migrate s i w)"
  from migrate_refines [OF Cons.prems(1)] Cons.prems(2) [of i]
  have 1: "fst (migrate s i w) = Inr (migrated i)" "registry_ok s ?w1" "same_run w ?w1"
    "registry s ?w1 = (registry s w)(i_name i \<mapsto> migrated i)" by auto
  have "registry s ?w1 (i_name j) \<in> {Some j, Some (migrated j)}" if "j \<in> set l" for j
    using Cons.prems(2) [of j] Cons.prems(3) that by (auto simp: 1(4) inj_on_def)
  from Cons.IH [OF 1(2) this] Cons.prems(3) obtain w2 where 2: "each (migrate s) l ?w1 = (Inr (map migrated l), w2)"
    "registry_ok s w2" "same_run ?w1 w2" "registry s w2 = (\<lambda>n. if n \<in> i_name ` set l
       then map_option migrated (registry s ?w1 n) else registry s ?w1 n)"
    by (auto simp: inj_on_def prod_eq_iff)
  have run: "each (migrate s) (i # l) w = (Inr (map migrated (i # l)), w2)"
    using 1(1) 2(1) by (simp add: bnd_def split_beta)
  have "same_run w w2" by (rule same_run_trans [OF 1(3) 2(3)])
  moreover have "registry s w2 = (\<lambda>n. if n \<in> i_name ` set (i # l)
      then map_option migrated (registry s w n) else registry s w n)"
    using Cons.prems(2) [of i] by (auto simp: 2(4) 1(4) fun_eq_iff)
  ultimately show ?case unfolding run using 2(2) by simp
qed

lemma load_refines:
  assumes "registry_ok s w"
  shows "case registry s w n of
       None \<Rightarrow> \<not> is_ok (fst (load_instance s n w)) \<and> registry s (snd (load_instance s n w)) = registry s w
     | Some i \<Rightarrow> fst (load_instance s n w) = Inr (migrated i) \<and>
         registry s (snd (load_instance s n w)) = (registry s w)(n \<mapsto> migrated i)"
    and "registry_ok s (snd (load_instance s n w))"
proof -
  obtain r w1 where ld: "load s n w = (r, w1)" by (cases "load s n w")
  note same = load_effect(1,2) [OF ld]
  have ok1: "registry_ok s w1" by (rule registry_ok_same [OF assms same])
  have "(case registry s w n of
       None \<Rightarrow> \<not> is_ok (fst (load_instance s n w)) \<and> registry s (snd (load_instance s n w)) = registry s w
     | Some i \<Rightarrow> fst (load_instance s n w) = Inr (migrated i) \<and>
         registry s (snd (load_instance s n w)) = (registry s w)(n \<mapsto> migrated i))
     \<and> registry_ok s (snd (load_instance s n w))"
  proof (cases "registry s w n")
    case None
    have "\<exists>e. r = Inl e" using load_effect(3) [OF ld] None by (cases r) (auto simp: registry_def)
    with None ld ok1 registry_same [OF same] show ?thesis
      by (auto simp: load_instance_def bnd_def)
  next
    case (Some i)
    then have "r = Inr i"
      using load_effect(4) [OF ld] assms by (auto simp: registry_def registry_ok_def store_ok_def split: if_splits)
    then have li: "load_instance s n w = migrate s i w1" using ld by (simp add: load_instance_def bnd_def)
    have "i_name i = n" using Some assms by (simp add: registry_ok_def)
    moreover have "registry s w1 n = Some i" using Some registry_same [OF same] by simp
    ultimately show ?thesis
      using migrate_refines [OF ok1, of i] Some registry_same [OF same] unfolding li by simp
  qed
  then show "case registry s w n of
       None \<Rightarrow> \<not> is_ok (fst (load_instance s n w)) \<and> registry s (snd (load_instance s n w)) = registry s w
     | Some i \<Rightarrow> fst (load_instance s n w) = Inr (migrated i) \<and>
         registry s (snd (load_instance s n w)) = (registry s w)(n \<mapsto> migrated i)"
    and "registry_ok s (snd (load_instance s n w))" by blast+
qed

lemma list_refines:
  assumes "registry_ok s w" and "list_store s w = (Inr l, w1)"
  shows "\<forall>i \<in> set l. registry s w (i_name i) = Some i"
    and "inj_on i_name (set l)"
    and "registry_ok s w1 \<and> same_run w w1 \<and> registry s w1 = registry s w"
    and "registry s w n = Some i \<Longrightarrow> i \<in> set l"
proof -
  have "registry s w (i_name i) = Some i" if "i \<in> set l" for i
    using list_effect(4) [OF assms(2) refl that] registry_named [OF assms(1)]
    by (metis registry_stored)
  then show "\<forall>i \<in> set l. registry s w (i_name i) = Some i" "inj_on i_name (set l)"
    by (auto simp: inj_on_def) (metis option.inject)
  note same = list_effect(1,2) [OF assms(2)]
  from registry_ok_same [OF assms(1) same] registry_same [OF same] same(2)
  show "registry_ok s w1 \<and> same_run w w1 \<and> registry s w1 = registry s w" by simp
  show "i \<in> set l" if "registry s w n = Some i"
  proof -
    have "valid_name n" "placed s w n" "stored s w n = Some i"
      using that assms(1) by (auto simp: registry_stored registry_ok_def)
    moreover from this have "map_of (w_fs w) (toml_file s n) \<noteq> None"
      by (cases "map_of (w_fs w) (toml_file s n)") (simp_all add: stored_def)
    moreover have "faultless w" "clean (s_root s) = s_root s" using assms(1) by (auto simp: registry_ok_def store_ok_def)
    ultimately show ?thesis using list_effect(5) [OF assms(2) refl] by fastforce
  qed
qed

lemma next_index_refines:
  assumes "registry_ok s w" and "next_index s w = (Inr n, w')"
  shows "registry_ok s w' \<and> same_run w w' \<and> registry s w' = registry s w"
    and "0 \<le> n" and "registry s w m = Some i \<Longrightarrow> i_index i \<noteq> n"
proof -
  from assms(2) obtain l where l: "list_store s w = (Inr l, w')" and n: "n = first_unused (map i_index l) 0"
    by (auto simp: next_index_def bnd_result)
  show "registry_ok s w' \<and> same_run w w' \<and> registry s w' = registry s w" by (rule list_refines(3) [OF assms(1) l])
  have "n \<notin> i_index ` set l" "0 \<le> n" using first_unused_props [of "map i_index l" 0] n by auto
  then show "0 \<le> n" "registry s w m = Some i \<Longrightarrow> i_index i \<noteq> n"
    using list_refines(4) [OF assms(1) l] by blast+
qed

lemma list_store_failed:
  assumes "registry_ok s w" and "list_store s w = (Inl e, w1)"
  shows "registry_ok s w1 \<and> registry s w1 = registry s w"
  using registry_ok_same [OF assms(1) list_effect(1,2) [OF assms(2)]] registry_same [OF list_effect(1,2) [OF assms(2)]]
  by simp

lemma list_instances_refines:
  assumes "registry_ok s w"
  shows "case fst (list_instances s w) of
      Inl _ \<Rightarrow> registry s (snd (list_instances s w)) = registry s w
    | Inr l \<Rightarrow> set l = {migrated i | n i. registry s w n = Some i} \<and>
        registry s (snd (list_instances s w)) = map_option migrated \<circ> registry s w"
    and "registry_ok s (snd (list_instances s w))"
proof -
  have "(case fst (list_instances s w) of
      Inl _ \<Rightarrow> registry s (snd (list_instances s w)) = registry s w
    | Inr l \<Rightarrow> set l = {migrated i | n i. registry s w n = Some i} \<and>
        registry s (snd (list_instances s w)) = map_option migrated \<circ> registry s w) \<and>
    registry_ok s (snd (list_instances s w))"
  proof (cases "fst (list_store s w)")
    case (Inl e)
    then obtain w1 where l: "list_store s w = (Inl e, w1)" by (metis prod.collapse)
    with list_store_failed [OF assms l] show ?thesis by (simp add: list_instances_def bnd_def)
  next
    case (Inr l)
    then obtain w1 where l: "list_store s w = (Inr l, w1)" by (metis prod.collapse)
    note lr = list_refines [OF assms l]
    have run: "list_instances s w = each (migrate s) l w1" using l by (simp add: list_instances_def bnd_def)
    have mem: "n \<in> i_name ` set l \<longleftrightarrow> registry s w n \<noteq> None" for n
    proof
      assume "n \<in> i_name ` set l"
      then show "registry s w n \<noteq> None" using lr(1) by auto
    next
      assume "registry s w n \<noteq> None"
      then obtain i where "registry s w n = Some i" by auto
      then show "n \<in> i_name ` set l" using lr(4) registry_named [OF assms] by blast
    qed
    have "registry s w1 (i_name i) \<in> {Some i, Some (migrated i)}" if "i \<in> set l" for i
      using lr(1,3) that by simp
    note em = each_migrate [OF conjunct1 [OF lr(3)] this lr(2)]
    have "fst (each (migrate s) l w1) = Inr (map migrated l)" "registry_ok s (snd (each (migrate s) l w1))"
      "registry s (snd (each (migrate s) l w1)) =
         (\<lambda>n. if n \<in> i_name ` set l then map_option migrated (registry s w1 n) else registry s w1 n)"
      using em by blast+
    moreover have "set (map migrated l) = {migrated i | n i. registry s w n = Some i}"
      using lr(1) lr(4) by (auto simp: image_iff)
    moreover have "(\<lambda>n. if n \<in> i_name ` set l then map_option migrated (registry s w1 n) else registry s w1 n)
        = map_option migrated \<circ> registry s w"
      by (rule ext) (simp add: mem lr(3))
    ultimately show ?thesis by (simp add: run)
  qed
  then show "case fst (list_instances s w) of
      Inl _ \<Rightarrow> registry s (snd (list_instances s w)) = registry s w
    | Inr l \<Rightarrow> set l = {migrated i | n i. registry s w n = Some i} \<and>
        registry s (snd (list_instances s w)) = map_option migrated \<circ> registry s w"
    and "registry_ok s (snd (list_instances s w))" by blast+
qed

definition added :: "os \<Rightarrow> int \<Rightarrow> inst \<Rightarrow> inst" where
  "added os n i = i\<lparr>i_index := n,
     i_dns_mode := (if i_dns_mode i = [] then default_dns_mode os else i_dns_mode i)\<rparr>"

lemma added_simps [simp]:
  "i_name (added os n i) = i_name i" "i_index (added os n i) = n" "i_dns_mode (added os n i) \<noteq> []"
  by (simp_all add: added_def default_dns_mode_def split: os.split)

definition fresh_in :: "registry \<Rightarrow> int \<Rightarrow> bool" where
  "fresh_in m n \<longleftrightarrow> 0 \<le> n \<and> (\<forall>k i. m k = Some i \<longrightarrow> i_index i \<noteq> n)"

lemma add_refines:
  assumes "registry_ok s w"
  shows "case fst (add s i w) of
      Inl _ \<Rightarrow> registry s (snd (add s i w)) = registry s w
    | Inr i' \<Rightarrow> valid_name (i_name i) \<and> registry s w (i_name i) = None \<and>
        (\<exists>n. fresh_in (registry s w) n \<and> i' = added (e_os (w_env w)) n i) \<and>
        registry s (snd (add s i w)) = (registry s w)(i_name i \<mapsto> i')"
    (is ?A) and "registry_ok s (snd (add s i w))" (is ?B)
proof -
  have "?A \<and> ?B"
  proof (cases "valid_name (i_name i)")
    case False
    with assms show ?thesis by (simp add: add_def)
  next
    case v: True
    obtain r w1 where ld: "load s (i_name i) w = (r, w1)" by (cases "load s (i_name i) w")
    note same = load_effect(1,2) [OF ld]
    have 1: "registry_ok s w1" "registry s w1 = registry s w" "w_env w1 = w_env w"
      using registry_ok_same [OF assms same] registry_same [OF same] same(2) by (auto simp: same_run_def)
    obtain ri w2 where ni: "next_index s w1 = (ri, w2)" by (cases "next_index s w1")
    show ?thesis
    proof (cases "is_ok r")
      case True
      with v ld 1 show ?thesis by (simp add: add_def bnd_def attempt_def)
    next
      case False
      then obtain e where r: "r = Inl e" by (auto simp: not_is_ok_iff)
      have none: "registry s w (i_name i) = None"
        using load_effect(4) [OF ld] r v assms by (cases "stored s w (i_name i)")
          (auto simp: registry_def registry_ok_def store_ok_def)
      show ?thesis
      proof (cases ri)
        case (Inl e')
        then have "registry_ok s w2 \<and> registry s w2 = registry s w1"
          using ni list_store_failed [OF 1(1), of e' w2]
          by (auto simp: next_index_def bnd_def split: prod.splits sum.splits)
        with v ld ni r 1 Inl show ?thesis by (simp add: add_def bnd_def attempt_def)
      next
        case (Inr n)
        let ?i = "added (e_os (w_env w)) n i"
        note nr = next_index_refines [OF 1(1) ni [unfolded Inr]]
        have "w_env w2 = w_env w" using nr(1) 1(3) by (simp add: same_run_def)
        then have run: "add s i w = thn (save s ?i) (ret ?i) w2"
          using v ld ni r Inr by (simp add: add_def bnd_def attempt_def added_def Let_def)
        have "store_ok s w2" "valid_name (i_name ?i)" using nr(1) v by (simp_all add: registry_ok_def)
        note sv = save_refines [OF this]
        have "thn (save s ?i) (ret ?i) w2 = (Inr ?i, snd (save s ?i w2))"
          using sv(1) by (simp add: thn_def bnd_def split_beta split: sum.splits)
        moreover have "fresh_in (registry s w) n" using nr(2,3) 1(2) by (auto simp: fresh_in_def)
        ultimately show ?thesis using v sv nr(1) 1(2) none by (auto simp: run)
      qed
    qed
  qed
  then show ?A and ?B by blast+
qed

section \<open>Properties\<close>

text \<open>C12: The commands refine a map from names to instances.  In a well-formed registry, loading looks
  the name up and stores the migrated instance back; listing returns exactly the registered
  instances, migrated, and migrates them all; adding succeeds only for a new valid name, with an index
  no other instance has, and then adds exactly that entry; removing deletes exactly one entry; and an
  operation that fails leaves the map as it was.\<close>

theorem registry_refinement:
  assumes "registry_ok s w"
  shows "(case registry s w n of
       None \<Rightarrow> \<not> is_ok (fst (load_instance s n w)) \<and> registry s (snd (load_instance s n w)) = registry s w
     | Some i \<Rightarrow> fst (load_instance s n w) = Inr (migrated i) \<and>
         registry s (snd (load_instance s n w)) = (registry s w)(n \<mapsto> migrated i)) \<and>
    (case fst (list_instances s w) of
       Inl _ \<Rightarrow> registry s (snd (list_instances s w)) = registry s w
     | Inr l \<Rightarrow> set l = {migrated i | n i. registry s w n = Some i} \<and>
         registry s (snd (list_instances s w)) = map_option migrated \<circ> registry s w) \<and>
    (case fst (add s i w) of
       Inl _ \<Rightarrow> registry s (snd (add s i w)) = registry s w
     | Inr i' \<Rightarrow> valid_name (i_name i) \<and> registry s w (i_name i) = None \<and>
         (\<exists>n. fresh_in (registry s w) n \<and> i' = added (e_os (w_env w)) n i) \<and>
         registry s (snd (add s i w)) = (registry s w)(i_name i \<mapsto> i')) \<and>
    (valid_name (i_name i) \<longrightarrow> fst (store_remove s i purge w) = Inr () \<and>
       registry s (snd (store_remove s i purge w)) = (registry s w)(i_name i := None))"
proof (intro conjI impI)
  have "store_ok s w" using assms by (simp add: registry_ok_def)
  from remove_refines [OF this] show "valid_name (i_name i) \<Longrightarrow> fst (store_remove s i purge w) = Inr ()"
    and "valid_name (i_name i) \<Longrightarrow> registry s (snd (store_remove s i purge w)) = (registry s w)(i_name i := None)"
    by auto
qed (rule load_refines(1) [OF assms] list_instances_refines(1) [OF assms] add_refines(1) [OF assms])+

definition indices_distinct :: "registry \<Rightarrow> bool" where
  "indices_distinct m \<longleftrightarrow> (\<forall>k l i j. m k = Some i \<and> m l = Some j \<and> i_index i = i_index j \<longrightarrow> k = l)"

text \<open>C25: The invariant of the registry.  Loading, listing, adding and removing keep the registry
  well-formed (every instance in its own directory under its own name) and its indices distinct; and
  every instance a command gets from them is migrated: it has a DNS mode, and reading it again
  changes nothing more.\<close>

theorem registry_invariant:
  assumes "registry_ok s w" and "indices_distinct (registry s w)"
    and "w' \<in> {snd (load_instance s n w), snd (list_instances s w), snd (add s i w)} \<or>
         (w' = snd (store_remove s i purge w) \<and> valid_name (i_name i))"
  shows "registry_ok s w' \<and> indices_distinct (registry s w') \<and>
    (\<forall>j. fst (load_instance s n w) = Inr j \<or> (\<exists>l. fst (list_instances s w) = Inr l \<and> j \<in> set l) \<or>
         fst (add s i w) = Inr j \<longrightarrow> i_dns_mode j \<noteq> [] \<and> migrated j = j)"
proof -
  have upd: "indices_distinct (m(k := None))" if "indices_distinct m" for m :: registry and k
    using that by (simp add: indices_distinct_def)
  have mig: "indices_distinct (map_option migrated \<circ> registry s w)"
    unfolding indices_distinct_def
  proof (intro allI impI, elim conjE)
    fix k l i j
    assume "(map_option migrated \<circ> registry s w) k = Some i" "(map_option migrated \<circ> registry s w) l = Some j"
    then obtain i' j' where "registry s w k = Some i'" "i = migrated i'" "registry s w l = Some j'" "j = migrated j'"
      by auto
    moreover assume "i_index i = i_index j"
    ultimately show "k = l" using assms(2) by (simp add: indices_distinct_def)
  qed
  have one: "indices_distinct ((registry s w)(n \<mapsto> migrated j))" if "registry s w n = Some j" for j
    using assms(2) that unfolding indices_distinct_def by (metis fun_upd_apply migrated_simps(2) option.inject)
  have new: "indices_distinct (m(k \<mapsto> added os f j))" if "indices_distinct m" "fresh_in m f" for m k os f j
    using that unfolding indices_distinct_def fresh_in_def by (metis added_simps(2) fun_upd_apply option.inject)
  have l: "indices_distinct (registry s (snd (load_instance s n w)))"
    using load_refines(1) [OF assms(1), of n] one assms(2) by (auto split: option.splits)
  have li: "indices_distinct (registry s (snd (list_instances s w)))"
    using list_instances_refines(1) [OF assms(1)] mig assms(2) by (auto split: sum.splits)
  have a: "indices_distinct (registry s (snd (add s i w)))"
    using add_refines(1) [OF assms(1), of i] new assms(2) by (auto split: sum.splits)
  have r: "registry_ok s (snd (store_remove s i purge w)) \<and> indices_distinct (registry s (snd (store_remove s i purge w)))"
    if "valid_name (i_name i)"
  proof -
    have "store_ok s w" using assms(1) by (simp add: registry_ok_def)
    note rr = remove_refines [OF this that, where purge = purge]
    from rr(3) [OF assms(1)] upd [OF assms(2)] show ?thesis by (simp only: rr(2))
  qed
  have "i_dns_mode j \<noteq> [] \<and> migrated j = j"
    if "fst (load_instance s n w) = Inr j \<or> (\<exists>l. fst (list_instances s w) = Inr l \<and> j \<in> set l) \<or> fst (add s i w) = Inr j" for j
  proof -
    have "fst (load_instance s n w) = Inr j \<Longrightarrow> \<exists>i. j = migrated i"
      using load_refines(1) [OF assms(1), of n] by (cases "registry s w n") auto
    moreover have "fst (list_instances s w) = Inr l \<Longrightarrow> j \<in> set l \<Longrightarrow> \<exists>i. j = migrated i" for l
      using list_instances_refines(1) [OF assms(1)] by auto
    moreover have "fst (add s i w) = Inr j \<Longrightarrow> i_dns_mode j \<noteq> []"
      using add_refines(1) [OF assms(1), of i] by auto
    ultimately show ?thesis using that by (metis migrated_simps(3,4,7))
  qed
  then show ?thesis
    using assms(3) l li a r load_refines(2) [OF assms(1)] list_instances_refines(2) [OF assms(1)] add_refines(2) [OF assms(1)]
    by auto
qed

section \<open>A concrete registry\<close>

definition one_root :: world where
  "one_root = example_world [(''/r'', Dir 448)]"

lemma empty_registry:
  "registry example_store_at empty_root = Map.empty" "registry_ok example_store_at empty_root"
proof -
  have "stored example_store_at empty_root n = None" if "valid_name n" for n
  proof -
    have "toml_file example_store_at n \<noteq> ''/r''"
      using toml_file_parts(1) [OF that, of example_store_at]
      by (auto simp: example_store_at_def path_parts_def split_on_def clean_step_def)
    then show ?thesis by (auto simp: stored_def empty_root_def)
  qed
  then show r: "registry example_store_at empty_root = Map.empty" by (auto simp: registry_def)
  have "clean (s_root example_store_at) = s_root example_store_at" "is_dir (w_fs empty_root) (s_root example_store_at)"
    by code_simp+
  then show "registry_ok example_store_at empty_root"
    by (simp add: registry_ok_def r example_store_ok)
qed

theorem registry_refinement_witness:
  "registry_ok example_store_at empty_root \<and>
   (\<exists>i'. fst (add example_store_at (example_inst ''a'' 7) empty_root) = Inr i' \<and>
     registry example_store_at (snd (add example_store_at (example_inst ''a'' 7) empty_root)) = [''a'' \<mapsto> i'])"
proof -
  have "is_ok (fst (add example_store_at (example_inst ''a'' 7) empty_root))" by code_simp
  then obtain i' where "fst (add example_store_at (example_inst ''a'' 7) empty_root) = Inr i'"
    by (auto simp: is_ok_iff)
  with registry_refinement [OF empty_registry(2), where i = "example_inst ''a'' 7"] show ?thesis
    by (simp add: empty_registry)
qed

theorem registry_invariant_witness:
  "registry_ok example_store_at (snd (add example_store_at (example_inst ''a'' 7) empty_root)) \<and>
   indices_distinct (registry example_store_at (snd (add example_store_at (example_inst ''a'' 7) empty_root)))"
  using registry_invariant [OF empty_registry(2), where i = "example_inst ''a'' 7"
      and w' = "snd (add example_store_at (example_inst ''a'' 7) empty_root)"]
  by (simp add: empty_registry(1) indices_distinct_def)

end
