(* ===== verification/HostSync.thy ===== *)
theory HostSync
  imports Registry
begin

text \<open>
  \<^verbatim>\<open>internal/ops/dns.go\<close>, the parts that run once: registering an instance's resolvers from a live
  status, the synchronisation of one instance, and the sweep of registrations whose instance is gone.
  The watch loop is in the theory \<^theory_text>\<open>Watch\<close>.

  A panic in the derivation stops the program; \<open>caught\<close> is the handling of an error that a panic
  passes through.
\<close>

section \<open>Operations\<close>

definition caught :: "'a op \<Rightarrow> (err + 'a) op" where
  "caught m = bnd (attempt m) (\<lambda>r.
     case r of
       Inl e \<Rightarrow> if err_cause e = ErrPanic then fail e else ret (Inl e)
     | Inr x \<Rightarrow> ret (Inr x))"

definition derive_text :: "derive_error \<Rightarrow> string" where
  "derive_text e =
     (case e of
        DEResolver (NotCIDR s) \<Rightarrow> ''netbird IP '' @ quote s @ '' is not a CIDR''
      | DEResolver (NeedsV4 s) \<Rightarrow> ''IPv6 network '' @ quote s
      | DEPrimaryClaim \<Rightarrow> []
      | DEPanic \<Rightarrow> [])"

definition apply_from_status :: "inst \<Rightarrow> status_response \<Rightarrow> unit op" where
  "apply_from_status i st =
     (if i_dns_mode i \<noteq> DNSMultibird then ret ()
      else if lp_ip (fs_local (st_full st)) = [] then ret ()
      else case derive st of
             Inl DEPanic \<Rightarrow> fail ErrPanic
           | Inl DEPrimaryClaim \<Rightarrow> fail (Wrap (about (i_name i)) ErrPrimaryClaim)
           | Inl e \<Rightarrow> fail (Wrap (about (i_name i) @ '': deriving DNS spec'') (ErrMsg (derive_text e)))
           | Inr sp \<Rightarrow> wrap (about (i_name i)) (apply_host_dns (i_name i) sp))"

definition dns_sync :: "store \<Rightarrow> inst \<Rightarrow> unit op" where
  "dns_sync s i =
     (let p = store_params s i
      in bnd (if i_dns_mode i \<noteq> DNSMultibird then ret False else running p) (\<lambda>live.
           if \<not> live then wrap (about (i_name i) @ '': removing host DNS'') (remove_host_dns (i_name i))
           else thn (dial (p_socket_path p))
               (bnd (wrap (about (i_name i)) (status (p_socket_path p))) (\<lambda>st.
                  apply_from_status i st))))"

text \<open>The loop of \<^verbatim>\<open>DNSCleanupStrays\<close>: the names cleaned, and the error it stopped at.\<close>

fun sweep :: "string list \<Rightarrow> string list \<Rightarrow> (string list \<times> err option) op" where
  "sweep known [] = ret ([], None)"
| "sweep known (x # xs) =
     (if x \<in> set known then sweep known xs
      else bnd (attempt (remove_host_dns x)) (\<lambda>r.
        case r of
          Inl e \<Rightarrow> ret ([], Some (Wrap (''removing stray host DNS of '' @ quote x) e))
        | Inr _ \<Rightarrow> bnd (sweep known xs) (\<lambda>(cleaned, e). ret (x # cleaned, e))))"

definition dns_cleanup_strays :: "store \<Rightarrow> (string list \<times> err option) op" where
  "dns_cleanup_strays s =
     bnd (attempt list_host_dns_owners) (\<lambda>r.
       case r of
         Inl e \<Rightarrow> ret ([], Some (Wrap ''listing host DNS registrations'' e))
       | Inr owners \<Rightarrow>
           bnd (attempt (list_instances s)) (\<lambda>l.
             case l of
               Inl e \<Rightarrow> ret ([], Some e)
             | Inr insts \<Rightarrow> sweep (map i_name insts) owners))"

definition remove_quietly :: "string \<Rightarrow> unit op" where
  "remove_quietly name =
     bnd (attempt (remove_host_dns name)) (\<lambda>r.
       case r of
         Inl e \<Rightarrow> warnf (about name @ '': could not remove host DNS registration: '' @ err_text e)
       | Inr _ \<Rightarrow> ret ())"

section \<open>Whose keys are touched\<close>

text \<open>A script that lists, or changes only keys of one owner.\<close>

definition key_script :: "string \<Rightarrow> string \<Rightarrow> bool" where
  "key_script name script \<longleftrightarrow>
     script \<in> {[], list_script} \<or>
     (\<exists>ks. script = render_remove_script ks \<and> (\<forall>k \<in> set ks. owner_of_key k = name)) \<or>
     (\<exists>stale keys listen. script = render_apply_script stale keys listen \<and>
        (\<forall>k \<in> set stale \<union> k_key ` set keys. owner_of_key k = name))"

lemma key_script_simps [simp]:
  "key_script name []" "key_script name list_script"
  "key_script name (render_remove_script (keys_of_instance ks name))"
proof -
  show "key_script name []" "key_script name list_script" unfolding key_script_def by blast+
  have "\<forall>k \<in> set (keys_of_instance ks name). owner_of_key k = name" by (simp add: keys_of_instance_def)
  then show "key_script name (render_remove_script (keys_of_instance ks name))" unfolding key_script_def by blast
qed

lemma key_script_apply:
  assumes "valid_name name"
  shows "key_script name (render_apply_script (keys_of_instance ks name) (host_dns_keys name sp) listen)"
proof -
  have "\<forall>k \<in> set (keys_of_instance ks name) \<union> k_key ` set (host_dns_keys name sp). owner_of_key k = name"
    using host_dns_keys_owner [OF assms] by (auto simp: keys_of_instance_def)
  then show ?thesis unfolding key_script_def by blast
qed

lemma emits_caught [frame_intros]: "keeps (emits P) m \<Longrightarrow> keeps (emits P) (caught m)"
  unfolding caught_def by (intro frame_intros)

lemma emits_remove_own:
  assumes "\<And>argv script. key_script name script \<Longrightarrow> P (EvExec argv script)"
  shows "keeps (emits P) (remove_host_dns name)"
  unfolding remove_host_dns_def darwin_remove_host_dns_def list_multibird_keys_def require_root_def
    flush_dns_cache_def Let_def
  by (intro frame_intros) (simp_all add: assms)

lemma emits_apply_own:
  assumes "valid_name name" and "\<And>argv script. key_script name script \<Longrightarrow> P (EvExec argv script)"
  shows "keeps (emits P) (apply_host_dns name sp)"
  unfolding apply_host_dns_def darwin_apply_host_dns_def list_multibird_keys_def require_root_def
    flush_dns_cache_def Let_def
  by (intro frame_intros) (simp_all add: assms key_script_apply)

lemma emits_apply_from_status:
  assumes "valid_name (i_name i)" and "\<And>argv script. key_script (i_name i) script \<Longrightarrow> P (EvExec argv script)"
  shows "keeps (emits P) (apply_from_status i st)"
  unfolding apply_from_status_def
  by (auto split: sum.split derive_error.split intro!: frame_intros emits_apply_own intro: assms)

lemma emits_remove_quietly:
  assumes "\<And>argv script. key_script name script \<Longrightarrow> P (EvExec argv script)" and "\<And>t. P (EvWarn t)"
  shows "keeps (emits P) (remove_quietly name)"
  unfolding remove_quietly_def by (intro frame_intros emits_remove_own assms)

lemma emits_sweep:
  assumes "\<And>x argv script. x \<in> set xs \<Longrightarrow> x \<notin> set known \<Longrightarrow> key_script x script \<Longrightarrow> P (EvExec argv script)"
  shows "keeps (emits P) (sweep known xs)"
  using assms
proof (induction known xs rule: sweep.induct)
  case (2 known x xs)
  then show ?case by (auto intro!: frame_intros emits_remove_own)
qed (simp add: frame_intros)

lemma still_owners: "keeps fs_still list_host_dns_owners"
  unfolding list_host_dns_owners_def list_multibird_keys_def exec_scutil_def by_os_def
  by (auto intro!: still_intros split: os.split)

section \<open>Properties\<close>

lemma sweep_result:
  assumes "sweep known xs w = (Inr (cleaned, e), w')"
  shows "case e of
      None \<Rightarrow> cleaned = filter (\<lambda>x. x \<notin> set known) xs
    | Some err \<Rightarrow> \<exists>x rest c v v'. filter (\<lambda>x. x \<notin> set known) xs = cleaned @ x # rest \<and>
        remove_host_dns x v = (Inl c, v') \<and> err = Wrap (''removing stray host DNS of '' @ quote x) c"
  using assms
proof (induction known xs arbitrary: cleaned w rule: sweep.induct)
  case (2 known x xs)
  show ?case
  proof (cases "x \<in> set known")
    case True
    with 2 show ?thesis by (cases e) auto
  next
    case False
    obtain r w1 where rm: "remove_host_dns x w = (r, w1)" by (cases "remove_host_dns x w")
    show ?thesis
    proof (cases r)
      case (Inl c)
      with "2.prems" False rm have
        "e = Some (Wrap (''removing stray host DNS of '' @ quote x) c)" "cleaned = []"
        by (auto simp: bnd_def attempt_def)
      with False rm Inl show ?thesis by simp blast
    next
      case (Inr u)
      with "2.prems" False rm obtain c' where c': "sweep known xs w1 = (Inr (c', e), w')" "cleaned = x # c'"
        by (auto simp: bnd_def attempt_def split: sum.splits prod.splits)
      from "2.IH"(2) [OF False c'(1)] c'(2) False show ?thesis by (cases e) auto
    qed
  qed
qed simp

lemma sweep_never_fails: "\<exists>c e. fst (sweep known xs w) = Inr (c, e)"
proof (induction known xs arbitrary: w rule: sweep.induct)
  case (2 known x xs)
  show ?case
  proof (cases "x \<in> set known \<or> (\<exists>c. fst (remove_host_dns x w) = Inl c)")
    case True
    with 2 show ?thesis by (auto simp: bnd_def attempt_def split: prod.splits sum.splits)
  next
    case False
    then obtain u w1 where "remove_host_dns x w = (Inr u, w1)" by (metis prod.collapse sum.exhaust)
    with 2(2) [of w1] False show ?thesis
      by (auto simp: bnd_def attempt_def split: prod.splits sum.splits) 
  qed
qed simp

text \<open>C16: The sweep removes strays and nothing else.  With a well-formed registry and no other process
  writing files, every name it reports as cleaned is an owner of keys that is not a registered
  instance; without an error these are all such owners; and every script it runs only lists, or removes
  keys of one owner that is not registered: no registered instance loses a key.\<close>

theorem sweep_spares_instances:
  assumes "registry_ok s w" and "quiet w" and "dns_cleanup_strays s w = (r, w')"
  shows "(\<exists>cleaned e. r = Inr (cleaned, e) \<and> (\<forall>x \<in> set cleaned. registry s w x = None) \<and>
      (e = None \<longrightarrow> (\<exists>owners v. list_host_dns_owners w = (Inr owners, v) \<and>
         cleaned = filter (\<lambda>x. registry s w x = None) owners))) \<and>
    (\<forall>argv script. EvExec argv script \<in> set (new_events w w') \<longrightarrow>
       (\<exists>x. registry s w x = None \<and> key_script x script))"
proof -
  define P where "P e \<longleftrightarrow> (\<forall>argv script. e = EvExec argv script \<longrightarrow> (\<exists>x. registry s w x = None \<and> key_script x script))"
    for e
  obtain r1 w1 where 1: "list_host_dns_owners w = (r1, w1)" by (cases "list_host_dns_owners w")
  have fs1: "w_fs w1 = w_fs w" "w_env w1 = w_env w"
    using keepsD [OF still_owners 1] assms(2) by (simp_all add: fs_still_def)
  have reg1: "registry_ok s w1" "registry s w1 = registry s w"
    using registry_ok_cong [OF assms(1) fs1] registry_cong [OF fs1] by auto
  obtain r2 w2 where 2: "list_instances s w1 = (r2, w2)" by (cases "list_instances s w1")
  have none: "registry s w [] = None" by (simp add: registry_def)
  have e1: "emits P w w1"
    by (rule keepsD [OF emits_owners 1]) (use none in \<open>auto simp: P_def\<close>)
  have e2: "emits P w w2"
    by (rule emits_trans [OF e1 keepsD [OF emits_list_instances 2]]) (simp add: P_def)
  show ?thesis
  proof (cases "is_ok r1 \<and> is_ok r2")
    case False
    then have "\<exists>e. r = Inr ([], Some e)" "w' \<in> {w1, w2}"
      using assms(3) 1 2 by (auto simp: dns_cleanup_strays_def bnd_def attempt_def split: sum.splits)
    moreover have "\<forall>argv script. EvExec argv script \<in> set (new_events w w') \<longrightarrow>
       (\<exists>x. registry s w x = None \<and> key_script x script)"
      using calculation(2) emits_new_events [OF e1] emits_new_events [OF e2] by (auto simp: P_def)
    ultimately show ?thesis by auto
  next
    case True
    then obtain owners insts where ok: "r1 = Inr owners" "r2 = Inr insts" by (auto simp: is_ok_iff)
    have "set insts = {migrated i | n i. registry s w1 n = Some i}"
      using list_instances_refines(1) [OF reg1(1)] 2 ok by simp
    then have known: "x \<in> set (map i_name insts) \<longleftrightarrow> registry s w x \<noteq> None" for x
      using registry_named [OF assms(1)] reg1(2) by (auto simp: image_iff) force
    have sw: "sweep (map i_name insts) owners w2 = (r, w')"
      using assms(3) 1 2 ok by (simp add: dns_cleanup_strays_def bnd_def attempt_def)
    obtain cleaned e where r: "r = Inr (cleaned, e)"
      using sweep_never_fails [of "map i_name insts" owners w2] sw by auto
    have "emits P w2 w'"
      by (rule keepsD [OF emits_sweep sw]) (use known in \<open>auto simp: P_def\<close>)
    then have ev: "\<forall>argv script. EvExec argv script \<in> set (new_events w w') \<longrightarrow>
       (\<exists>x. registry s w x = None \<and> key_script x script)"
      using emits_new_events [OF emits_trans [OF e2]] by (auto simp: P_def)
    have flt: "filter (\<lambda>x. x \<notin> set (map i_name insts)) owners = filter (\<lambda>x. registry s w x = None) owners"
      using known by (auto intro: filter_cong)
    have res: "case e of None \<Rightarrow> cleaned = filter (\<lambda>x. registry s w x = None) owners
       | Some err \<Rightarrow> \<exists>x rest. filter (\<lambda>x. registry s w x = None) owners = cleaned @ x # rest"
      using sweep_result [OF sw [unfolded r]] unfolding flt by (cases e) auto
    have "set cleaned \<subseteq> set (filter (\<lambda>x. registry s w x = None) owners)"
      using res
    proof (cases e)
      case (Some err)
      with res obtain x rest where "filter (\<lambda>x. registry s w x = None) owners = cleaned @ x # rest" by auto
      then show ?thesis by auto
    qed auto
    then show ?thesis using r res 1 ok ev by auto
  qed
qed

section \<open>A concrete sweep\<close>

definition stray_world :: world where
  "stray_world = empty_root\<lparr>w_env := example_env\<lparr>e_os := Darwin,
     e_exec := \<lambda>_ _ script. Inr (if script = list_script
       then ''  subKey [0] = '' @ key_name ''gone'' ''Match'' 0 @ nl else [])\<rparr>\<rparr>"

lemma stray_registry:
  "registry_ok example_store_at stray_world" "registry example_store_at stray_world = Map.empty" "quiet stray_world"
proof -
  have same: "w_fs stray_world = w_fs empty_root" "e_toml_dec (w_env stray_world) = e_toml_dec (w_env empty_root)"
    "e_toml_enc (w_env stray_world) = e_toml_enc (w_env empty_root)"
    "e_fault (w_env stray_world) = e_fault (w_env empty_root)"
    by (simp_all add: stray_world_def empty_root_def example_world_def example_env_def)
  show "registry_ok example_store_at stray_world" by (rule registry_ok_files [OF empty_registry(2) same])
  show "registry example_store_at stray_world = Map.empty"
    using registry_files [OF same(1,2)] empty_registry(1) by simp
  show "quiet stray_world" by (simp add: quiet_def stray_world_def example_env_def)
qed

theorem sweep_spares_instances_witness:
  "fst (dns_cleanup_strays example_store_at stray_world) = Inr ([''gone''], None) \<and>
   registry example_store_at stray_world ''gone'' = None"
proof -
  have "fst (dns_cleanup_strays example_store_at stray_world) = Inr ([''gone''], None)" by code_simp
  with sweep_spares_instances [OF stray_registry(1,3) prod.collapse [symmetric]] show ?thesis by auto
qed

end
