(* ===== verification/Preflight.thy ===== *)
theory Preflight
  imports Netip "HOL-Library.Multiset"
begin

text \<open>
  \<^verbatim>\<open>internal/preflight\<close>: conflicts between running instances.  Overlapping netbird ranges and
  overlapping selected routes are the pairs a double loop finds; DNS conflicts are several
  primary-resolver claims or one match domain served by several instances.

  The double loop is used twice with two relations, so its contract is a locale over a
  symmetric relation: the loop reports exactly the related pairs, and which pairs it reports
  does not depend on the order in which the instances are listed.
\<close>

section \<open>The double loop\<close>

text \<open>\<^verbatim>\<open>for i { for j := i + 1 ... }\<close>, as the list of the pairs it visits.\<close>

fun pairs :: "'a list \<Rightarrow> ('a \<times> 'a) list" where
  "pairs [] = []"
| "pairs (x # xs) = map (Pair x) xs @ pairs xs"

definition scan :: "('a \<Rightarrow> 'a \<Rightarrow> bool) \<Rightarrow> 'a list \<Rightarrow> ('a \<times> 'a) list" where
  "scan rel xs = filter (\<lambda>(a, b). rel a b) (pairs xs)"

lemma set_pairs: "set (pairs xs) = {(xs ! i, xs ! j) | i j. i < j \<and> j < length xs}"
proof (induction xs)
  case Nil
  then show ?case by simp
next
  case (Cons x xs)
  have "{((x # xs) ! i, (x # xs) ! j) | i j. i < j \<and> j < length (x # xs)} =
        Pair x ` set xs \<union> {(xs ! i, xs ! j) | i j. i < j \<and> j < length xs}"
    (is "?A = ?B \<union> ?C")
  proof
    show "?A \<subseteq> ?B \<union> ?C"
    proof
      fix p assume "p \<in> ?A"
      then obtain i j where p: "p = ((x # xs) ! i, (x # xs) ! j)" "i < j" "j < length (x # xs)"
        by blast
      then show "p \<in> ?B \<union> ?C" by (cases i; cases j) auto
    qed
    have "(x, xs ! k) \<in> ?A" if "k < length xs" for k
      using that by (intro CollectI exI [of _ 0] exI [of _ "Suc k"]) auto
    moreover have "(xs ! i, xs ! j) \<in> ?A" if "i < j" "j < length xs" for i j
      using that by (intro CollectI exI [of _ "Suc i"] exI [of _ "Suc j"]) auto
    ultimately show "?B \<union> ?C \<subseteq> ?A" by (auto simp: in_set_conv_nth)
  qed
  with Cons show ?case by simp
qed

lemma scan_iff:
  "(a, b) \<in> set (scan rel xs) \<longleftrightarrow>
   (\<exists>i j. i < j \<and> j < length xs \<and> a = xs ! i \<and> b = xs ! j \<and> rel a b)"
  by (auto simp: scan_def set_pairs)

lemma scan_Nil_iff: "scan rel xs = [] \<longleftrightarrow> sorted_wrt (\<lambda>a b. \<not> rel a b) xs"
  by (induction xs) (auto simp: scan_def filter_empty_conv)

lemma pairs_iff_mset:
  "(a, b) \<in> set (pairs xs) \<or> (b, a) \<in> set (pairs xs) \<longleftrightarrow> {#a, b#} \<subseteq># mset xs"
proof (induction xs)
  case Nil
  then show ?case by simp
next
  case (Cons x xs)
  have "{#a, b#} \<subseteq># mset (x # xs) \<longleftrightarrow>
      {#a, b#} \<subseteq># mset xs \<or> a = x \<and> b \<in> set xs \<or> b = x \<and> a \<in> set xs"
    by (auto simp: insert_subset_eq_iff add_mset_commute [of a b]
        dest: mset_subset_eqD split: if_splits)
  with Cons show ?case by auto
qed

locale symmetric_scan =
  fixes rel :: "'a \<Rightarrow> 'a \<Rightarrow> bool"
  assumes rel_sym: "rel a b = rel b a"
begin

lemma scan_sound:
  "(a, b) \<in> set (scan rel xs) \<Longrightarrow> a \<in> set xs \<and> b \<in> set xs \<and> rel a b"
  by (auto simp: scan_iff)

text \<open>Up to the order within a pair, the reported pairs depend on the multiset only.\<close>

lemma scan_mset_iff:
  "(a, b) \<in> set (scan rel xs) \<or> (b, a) \<in> set (scan rel xs) \<longleftrightarrow> rel a b \<and> {#a, b#} \<subseteq># mset xs"
proof -
  have "(a, b) \<in> set (scan rel xs) \<or> (b, a) \<in> set (scan rel xs) \<longleftrightarrow>
      rel a b \<and> ((a, b) \<in> set (pairs xs) \<or> (b, a) \<in> set (pairs xs))"
    using rel_sym [of a b] by (auto simp: scan_def)
  then show ?thesis by (simp add: pairs_iff_mset)
qed

lemma scan_perm:
  assumes "mset xs = mset ys" and "(a, b) \<in> set (scan rel xs)"
  shows "(a, b) \<in> set (scan rel ys) \<or> (b, a) \<in> set (scan rel ys)"
  using assms scan_mset_iff [of a b xs] scan_mset_iff [of a b ys] by auto

lemma scan_Nil_perm:
  assumes "mset xs = mset ys"
  shows "scan rel xs = [] \<longleftrightarrow> scan rel ys = []"
proof -
  have "scan rel zs = [] \<longleftrightarrow> (\<forall>a b. \<not> (rel a b \<and> {#a, b#} \<subseteq># mset zs))" for zs
    using scan_mset_iff [of _ _ zs] by (metis (full_types) ex_in_conv set_empty surj_pair)
  then show ?thesis using assms by simp
qed

end

section \<open>Netbird ranges\<close>

record net =
  n_instance :: string
  n_prefix :: prefix

record conflict =
  c_a :: net
  c_b :: net

text \<open>\<^verbatim>\<open>ParseAddr\<close>: CIDR, or a bare address taken as /16 (v4) or /64 (v6).\<close>

definition parse_net :: "string \<Rightarrow> string \<Rightarrow> net option" where
  "parse_net instance_name s =
     (case parse_prefix s of
        Some p \<Rightarrow> Some \<lparr>n_instance = instance_name, n_prefix = masked p\<rparr>
      | None \<Rightarrow>
          (case parse_addr s of
             None \<Rightarrow> None
           | Some ip \<Rightarrow>
               (case addr_prefix ip (if is6 ip then 64 else 16) of
                  None \<Rightarrow> None
                | Some p \<Rightarrow> Some \<lparr>n_instance = instance_name, n_prefix = p\<rparr>)))"

definition net_overlap :: "net \<Rightarrow> net \<Rightarrow> bool" where
  "net_overlap a b = overlaps (n_prefix a) (n_prefix b)"

definition ip_range_conflicts :: "net list \<Rightarrow> conflict list" where
  "ip_range_conflicts nets = map (\<lambda>(a, b). \<lparr>c_a = a, c_b = b\<rparr>) (scan net_overlap nets)"

interpretation net_scan: symmetric_scan net_overlap
  by unfold_locales (simp add: net_overlap_def overlaps_sym)

section \<open>Routes\<close>

record route =
  rt_instance :: string
  rt_prefix :: prefix
  rt_selected :: bool

record route_conflict =
  rc_a :: route
  rc_b :: route
  rc_winner :: string

definition route_clash :: "route \<Rightarrow> route \<Rightarrow> bool" where
  "route_clash a b =
     (if rt_instance a = rt_instance b \<or> \<not> rt_selected a \<or> \<not> rt_selected b then False
      else overlaps (rt_prefix a) (rt_prefix b))"

definition route_conflicts :: "route list \<Rightarrow> route_conflict list" where
  "route_conflicts routes =
     map (\<lambda>(a, b). \<lparr>rc_a = a, rc_b = b, rc_winner = []\<rparr>) (scan route_clash routes)"

interpretation route_scan: symmetric_scan route_clash
  by unfold_locales (auto simp: route_clash_def overlaps_sym)

section \<open>DNS\<close>

record dns_intent =
  di_instance :: string
  di_manages_dns :: bool
  di_mode :: string
  di_domains :: "string list"

record dns_conflict =
  dc_kind :: string
  dc_instances :: "string list"
  dc_domain :: string

definition primary :: "dns_intent \<Rightarrow> bool" where
  "primary d =
     (if \<not> di_manages_dns d then False
      else if di_domains d = [] then True
      else list_ex (\<lambda>dm. dm = [] \<or> dm = ''.'') (di_domains d))"

definition fold_domain :: "string \<Rightarrow> string" where
  "fold_domain dm = trim_suffix (to_lower dm) ''.''"

text \<open>The domains an intent adds to \<^verbatim>\<open>byDomain\<close>: folded, without the empty one, each once.\<close>

definition served :: "dns_intent \<Rightarrow> string list" where
  "served d =
     (if \<not> di_manages_dns d then []
      else remdups (filter (\<lambda>dm. dm \<noteq> []) (map fold_domain (di_domains d))))"

definition by_domain :: "dns_intent list \<Rightarrow> string \<Rightarrow> string list" where
  "by_domain intents dm = map di_instance (filter (\<lambda>d. dm \<in> set (served d)) intents)"

definition contested :: "dns_intent list \<Rightarrow> string list" where
  "contested intents =
     filter (\<lambda>dm. length (by_domain intents dm) > 1) (remdups (concat (map served intents)))"

definition dns_conflicts :: "dns_intent list \<Rightarrow> dns_conflict list" where
  "dns_conflicts intents =
     (let primaries = map di_instance (filter primary intents)
      in (if length primaries > 1
          then [\<lparr>dc_kind = ''primary'', dc_instances = sort primaries, dc_domain = []\<rparr>]
          else []) @
         map (\<lambda>dm. \<lparr>dc_kind = ''domain'', dc_instances = sort (by_domain intents dm),
                     dc_domain = dm\<rparr>)
           (sort (contested intents)))"

section \<open>Facts\<close>

lemma parse_net_valid: "parse_net i s = Some n \<Longrightarrow> valid_prefix (n_prefix n) \<and> n_instance n = i"
  by (auto simp: parse_net_def parse_prefix_valid dest: addr_prefix_Some
      split: option.splits)

lemma mapped_scan_iff:
  "x \<in> set (map (\<lambda>(a, b). f a b) (scan rel xs)) \<longleftrightarrow>
   (\<exists>i j. i < j \<and> j < length xs \<and> x = f (xs ! i) (xs ! j) \<and> rel (xs ! i) (xs ! j))"
proof -
  have "x \<in> set (map (\<lambda>(a, b). f a b) ps) \<longleftrightarrow> (\<exists>a b. (a, b) \<in> set ps \<and> x = f a b)" for ps
    by (induction ps) auto
  from this [of "scan rel xs"] show ?thesis unfolding scan_iff by (elim ssubst) fast
qed

lemma ip_range_conflicts_iff:
  "c \<in> set (ip_range_conflicts nets) \<longleftrightarrow>
   (\<exists>i j. i < j \<and> j < length nets \<and> c = \<lparr>c_a = nets ! i, c_b = nets ! j\<rparr> \<and>
          net_overlap (nets ! i) (nets ! j))"
  unfolding ip_range_conflicts_def by (rule mapped_scan_iff)

lemma route_conflicts_iff:
  "c \<in> set (route_conflicts rs) \<longleftrightarrow>
   (\<exists>i j. i < j \<and> j < length rs \<and> c = \<lparr>rc_a = rs ! i, rc_b = rs ! j, rc_winner = []\<rparr> \<and>
          route_clash (rs ! i) (rs ! j))"
  unfolding route_conflicts_def by (rule mapped_scan_iff)

lemma length_filter_gt_1:
  "Suc 0 < length (filter P xs) \<longleftrightarrow> (\<exists>i j. i < j \<and> j < length xs \<and> P (xs ! i) \<and> P (xs ! j))"
proof -
  let ?I = "{i. i < length xs \<and> P (xs ! i)}"
  have "length (filter P xs) = card ?I" by (rule length_filter_conv_card)
  moreover have "card ?I \<le> Suc 0 \<longleftrightarrow> (\<forall>i \<in> ?I. \<forall>j \<in> ?I. i = j)"
    by (rule card_le_Suc0_iff_eq) simp
  moreover have "(\<forall>i \<in> ?I. \<forall>j \<in> ?I. i = j) \<longleftrightarrow>
      \<not> (\<exists>i j. i < j \<and> j < length xs \<and> P (xs ! i) \<and> P (xs ! j))"
  proof
    assume "\<forall>i \<in> ?I. \<forall>j \<in> ?I. i = j"
    then show "\<not> (\<exists>i j. i < j \<and> j < length xs \<and> P (xs ! i) \<and> P (xs ! j))"
      by (auto dest: less_trans)
  next
    assume none: "\<not> (\<exists>i j. i < j \<and> j < length xs \<and> P (xs ! i) \<and> P (xs ! j))"
    show "\<forall>i \<in> ?I. \<forall>j \<in> ?I. i = j"
    proof (intro ballI)
      fix i j assume "i \<in> ?I" "j \<in> ?I"
      with none show "i = j" by (cases i j rule: linorder_cases) auto
    qed
  qed
  ultimately have "length (filter P xs) \<le> Suc 0 \<longleftrightarrow>
      \<not> (\<exists>i j. i < j \<and> j < length xs \<and> P (xs ! i) \<and> P (xs ! j))"
    by (simp only:)
  then show ?thesis by (simp only: not_le [symmetric] not_not)
qed

lemma served_iff:
  "dm \<in> set (served d) \<longleftrightarrow>
   di_manages_dns d \<and> dm \<noteq> [] \<and> (\<exists>x \<in> set (di_domains d). fold_domain x = dm)"
  by (auto simp: served_def)

lemma contested_iff:
  "dm \<in> set (contested intents) \<longleftrightarrow>
   (\<exists>i j. i < j \<and> j < length intents \<and>
      dm \<in> set (served (intents ! i)) \<and> dm \<in> set (served (intents ! j)))"
proof -
  have "\<exists>d \<in> set intents. dm \<in> set (served d)" if "Suc 0 < length (by_domain intents dm)"
    using that by (auto simp: by_domain_def length_filter_gt_1)
  then have "dm \<in> set (contested intents) \<longleftrightarrow> Suc 0 < length (by_domain intents dm)"
    by (auto simp: contested_def)
  then show ?thesis by (simp add: by_domain_def length_filter_gt_1)
qed

lemma distinct_contested [simp]: "distinct (contested intents)"
  by (simp add: contested_def)

lemma dns_conflicts_domain_part:
  "filter (\<lambda>c. dc_kind c = ''domain'') (dns_conflicts intents) =
   map (\<lambda>dm. \<lparr>dc_kind = ''domain'', dc_instances = sort (by_domain intents dm), dc_domain = dm\<rparr>)
     (sort (contested intents))"
  by (simp add: dns_conflicts_def Let_def filter_map o_def)

lemma dns_conflicts_primary_part:
  "(\<exists>c \<in> set (dns_conflicts intents). dc_kind c = ''primary'') \<longleftrightarrow>
   Suc 0 < length (filter primary intents)"
  by (auto simp: dns_conflicts_def Let_def)

lemma dns_conflicts_instances_sorted:
  "c \<in> set (dns_conflicts intents) \<Longrightarrow> sorted (dc_instances c)"
  by (auto simp: dns_conflicts_def Let_def split: if_splits)

section \<open>Properties\<close>

text \<open>C26: The range check is exact.  Among the networks the daemons reported (all of them parse to
  valid prefixes), \<^verbatim>\<open>IPRangeConflicts\<close> reports the pair at positions \<open>i < j\<close> exactly when
  some address belongs to both networks, and it reports nothing exactly when the networks are
  pairwise disjoint.\<close>

theorem ip_range_conflicts_exact:
  assumes "\<forall>n \<in> set nets. valid_prefix (n_prefix n)"
  shows "(\<forall>c. c \<in> set (ip_range_conflicts nets) \<longleftrightarrow>
            (\<exists>i j. i < j \<and> j < length nets \<and> c = \<lparr>c_a = nets ! i, c_b = nets ! j\<rparr> \<and>
               (\<exists>a. contains (n_prefix (nets ! i)) a \<and> contains (n_prefix (nets ! j)) a))) \<and>
         (ip_range_conflicts nets = [] \<longleftrightarrow>
            (\<forall>i j. i < j \<and> j < length nets \<longrightarrow>
               (\<nexists>a. contains (n_prefix (nets ! i)) a \<and> contains (n_prefix (nets ! j)) a)))"
proof -
  have common: "net_overlap (nets ! i) (nets ! j) \<longleftrightarrow>
      (\<exists>a. contains (n_prefix (nets ! i)) a \<and> contains (n_prefix (nets ! j)) a)"
    if "i < j" "j < length nets" for i j
    using assms that by (simp add: net_overlap_def overlaps_iff_common)
  have "ip_range_conflicts nets = [] \<longleftrightarrow> (\<forall>i j. i < j \<and> j < length nets \<longrightarrow>
      \<not> net_overlap (nets ! i) (nets ! j))"
    by (auto simp: ip_range_conflicts_def scan_Nil_iff sorted_wrt_iff_nth_less)
  with common ip_range_conflicts_iff [of _ nets] show ?thesis
    by (simp cong: conj_cong)
qed

theorem ip_range_conflicts_exact_witness:
  "ip_range_conflicts
     [\<lparr>n_instance = ''home'', n_prefix = Prefix (V4 0x645C0000) 16\<rparr>,
      \<lparr>n_instance = ''lab'', n_prefix = Prefix (V4 0x64650000) 16\<rparr>] = [] \<longleftrightarrow>
   (\<forall>i j. i < j \<and> j < length
     [\<lparr>n_instance = ''home'', n_prefix = Prefix (V4 0x645C0000) 16\<rparr>,
      \<lparr>n_instance = ''lab'', n_prefix = Prefix (V4 0x64650000) 16\<rparr>] \<longrightarrow>
     (\<nexists>a. contains (n_prefix ([\<lparr>n_instance = ''home'', n_prefix = Prefix (V4 0x645C0000) 16\<rparr>,
             \<lparr>n_instance = ''lab'', n_prefix = Prefix (V4 0x64650000) 16\<rparr>] ! i)) a \<and>
           contains (n_prefix ([\<lparr>n_instance = ''home'', n_prefix = Prefix (V4 0x645C0000) 16\<rparr>,
             \<lparr>n_instance = ''lab'', n_prefix = Prefix (V4 0x64650000) 16\<rparr>] ! j)) a))"
  by (rule ip_range_conflicts_exact [THEN conjunct2]) simp

text \<open>C30: The route check is exact.  \<^verbatim>\<open>RouteConflicts\<close> reports the routes at positions \<open>i < j\<close>
  exactly when they belong to different instances, both are selected (only selected routes are
  installed) and some destination address lies in both prefixes.\<close>

theorem route_conflicts_exact:
  assumes "\<forall>r \<in> set rs. valid_prefix (rt_prefix r)"
  shows "c \<in> set (route_conflicts rs) \<longleftrightarrow>
    (\<exists>i j. i < j \<and> j < length rs \<and> c = \<lparr>rc_a = rs ! i, rc_b = rs ! j, rc_winner = []\<rparr> \<and>
       rt_instance (rs ! i) \<noteq> rt_instance (rs ! j) \<and>
       rt_selected (rs ! i) \<and> rt_selected (rs ! j) \<and>
       (\<exists>a. contains (rt_prefix (rs ! i)) a \<and> contains (rt_prefix (rs ! j)) a))"
proof -
  have "route_clash (rs ! i) (rs ! j) \<longleftrightarrow>
      rt_instance (rs ! i) \<noteq> rt_instance (rs ! j) \<and> rt_selected (rs ! i) \<and> rt_selected (rs ! j) \<and>
      (\<exists>a. contains (rt_prefix (rs ! i)) a \<and> contains (rt_prefix (rs ! j)) a)"
    if "i < j" "j < length rs" for i j
    using assms that by (auto simp: route_clash_def overlaps_iff_common)
  then show ?thesis by (simp add: route_conflicts_iff cong: conj_cong)
qed

theorem route_conflicts_exact_witness:
  "\<lparr>rc_a = \<lparr>rt_instance = ''home'', rt_prefix = Prefix (V4 0xC0A80100) 24, rt_selected = True\<rparr>,
    rc_b = \<lparr>rt_instance = ''lab'', rt_prefix = Prefix (V4 0xC0A80000) 16, rt_selected = True\<rparr>,
    rc_winner = []\<rparr> \<in>
   set (route_conflicts
     [\<lparr>rt_instance = ''home'', rt_prefix = Prefix (V4 0xC0A80100) 24, rt_selected = True\<rparr>,
      \<lparr>rt_instance = ''lab'', rt_prefix = Prefix (V4 0xC0A80000) 16, rt_selected = True\<rparr>])"
  (is "?c \<in> set (route_conflicts ?rs)")
proof -
  have "contains (rt_prefix (?rs ! 0)) (V4 0xC0A80101) \<and> contains (rt_prefix (?rs ! 1)) (V4 0xC0A80101)"
    by code_simp
  then have "\<exists>a. contains (rt_prefix (?rs ! 0)) a \<and> contains (rt_prefix (?rs ! 1)) a" by blast
  moreover have "\<forall>r \<in> set ?rs. valid_prefix (rt_prefix r)" by simp
  note route_conflicts_exact [OF this]
  ultimately show ?thesis
    by (simp only:) (intro exI [of _ 0] exI [of _ 1], simp)
qed

text \<open>The verdict does not depend on the order of the instances.  Listing the same networks
  and the same routes in another order, the checks find a conflict in one order exactly when
  they find one in the other, and a reported pair is reported again, at most with its two
  sides swapped.\<close>

theorem conflict_verdict_order_independent:
  assumes "mset nets = mset nets'" and "mset rs = mset rs'"
  shows "(ip_range_conflicts nets = [] \<longleftrightarrow> ip_range_conflicts nets' = []) \<and>
         (route_conflicts rs = [] \<longleftrightarrow> route_conflicts rs' = []) \<and>
         (\<lparr>c_a = a, c_b = b\<rparr> \<in> set (ip_range_conflicts nets) \<longrightarrow>
            \<lparr>c_a = a, c_b = b\<rparr> \<in> set (ip_range_conflicts nets') \<or>
            \<lparr>c_a = b, c_b = a\<rparr> \<in> set (ip_range_conflicts nets')) \<and>
         (\<lparr>rc_a = r, rc_b = q, rc_winner = []\<rparr> \<in> set (route_conflicts rs) \<longrightarrow>
            \<lparr>rc_a = r, rc_b = q, rc_winner = []\<rparr> \<in> set (route_conflicts rs') \<or>
            \<lparr>rc_a = q, rc_b = r, rc_winner = []\<rparr> \<in> set (route_conflicts rs'))"
proof -
  have ip: "\<lparr>c_a = x, c_b = y\<rparr> \<in> set (ip_range_conflicts ns) \<longleftrightarrow> (x, y) \<in> set (scan net_overlap ns)"
    for x y ns by (auto simp: ip_range_conflicts_iff scan_iff)
  have rt: "\<lparr>rc_a = x, rc_b = y, rc_winner = []\<rparr> \<in> set (route_conflicts ns) \<longleftrightarrow>
      (x, y) \<in> set (scan route_clash ns)"
    for x y ns by (auto simp: route_conflicts_iff scan_iff)
  show ?thesis
    using net_scan.scan_Nil_perm [OF assms(1)] route_scan.scan_Nil_perm [OF assms(2)]
      net_scan.scan_perm [OF assms(1), of a b] route_scan.scan_perm [OF assms(2), of r q]
    by (simp add: ip rt) (simp add: ip_range_conflicts_def route_conflicts_def)
qed

theorem conflict_verdict_order_independent_witness:
  "ip_range_conflicts
     [\<lparr>n_instance = ''a'', n_prefix = Prefix (V4 0) 16\<rparr>, \<lparr>n_instance = ''b'', n_prefix = Prefix (V4 1) 8\<rparr>] = [] \<longleftrightarrow>
   ip_range_conflicts
     [\<lparr>n_instance = ''b'', n_prefix = Prefix (V4 1) 8\<rparr>, \<lparr>n_instance = ''a'', n_prefix = Prefix (V4 0) 16\<rparr>] = []"
  by (rule conflict_verdict_order_independent [of _ _ "[]" "[]", THEN conjunct1]) simp_all

text \<open>The DNS check is exact.  A primary conflict is reported exactly when two of the
  intents claim the primary resolver; a domain is reported exactly when two instances that
  manage DNS serve it (up to case and a trailing dot); each domain is reported once, the domains
  and the instance lists come sorted.\<close>

theorem dns_conflicts_exact:
  "((\<exists>c \<in> set (dns_conflicts intents). dc_kind c = ''primary'') \<longleftrightarrow>
      (\<exists>i j. i < j \<and> j < length intents \<and> primary (intents ! i) \<and> primary (intents ! j))) \<and>
   ((\<exists>c \<in> set (dns_conflicts intents). dc_kind c = ''domain'' \<and> dc_domain c = dm) \<longleftrightarrow>
      (\<exists>i j. i < j \<and> j < length intents \<and> dm \<in> set (served (intents ! i)) \<and>
             dm \<in> set (served (intents ! j)))) \<and>
   sorted_wrt (<) (map dc_domain (filter (\<lambda>c. dc_kind c = ''domain'') (dns_conflicts intents))) \<and>
   list_all (\<lambda>c. sorted (dc_instances c)) (dns_conflicts intents)"
proof -
  have "(\<exists>c \<in> set (dns_conflicts intents). dc_kind c = ''domain'' \<and> dc_domain c = dm) \<longleftrightarrow>
      dm \<in> dc_domain ` set (filter (\<lambda>c. dc_kind c = ''domain'') (dns_conflicts intents))"
    by auto
  also have "\<dots> \<longleftrightarrow> dm \<in> set (contested intents)"
    unfolding dns_conflicts_domain_part by (simp add: image_image)
  finally have "(\<exists>c \<in> set (dns_conflicts intents). dc_kind c = ''domain'' \<and> dc_domain c = dm) \<longleftrightarrow>
      dm \<in> set (contested intents)" .
  moreover have "sorted_wrt (<) (sort (contested intents))"
    by (simp add: strict_sorted_iff)
  ultimately show ?thesis
    by (simp add: dns_conflicts_primary_part length_filter_gt_1 contested_iff
        dns_conflicts_domain_part o_def list_all_iff dns_conflicts_instances_sorted)
qed

end
