(* ===== verification/Snapshot.thy ===== *)
theory Snapshot
  imports HostSync Preflight
begin

text \<open>
  \<^verbatim>\<open>internal/ops/preflight.go\<close>: what is running, and the conflicts among it.  The pure part, which
  findings a set of snapshots has, is separated from asking the daemons and the routing table; the
  texts are those of the \<^verbatim>\<open>String\<close> methods of package \<^verbatim>\<open>preflight\<close>, up to the advice.
\<close>

section \<open>Snapshots\<close>

record snapshot =
  sn_name :: string
  sn_iface :: string
  sn_net :: "net option"
  sn_routes :: "route list"
  sn_intent :: dns_intent

definition snap_net :: "inst \<Rightarrow> status_response \<Rightarrow> net option op" where
  "snap_net i st =
     (let ip = lp_ip (fs_local (st_full st))
      in if ip = [] then ret None
         else case parse_net (i_name i) ip of
                Some n \<Rightarrow> ret (Some n)
              | None \<Rightarrow> thn (warnf (about (i_name i) @ '' reported unparseable netbird address '' @ quote ip))
                            (ret None))"

text \<open>DNS-routed networks have no CIDR range and are left out.\<close>

definition route_of :: "string \<Rightarrow> network \<Rightarrow> route option" where
  "route_of name nw =
     (case parse_prefix (nw_range nw) of
        None \<Rightarrow> None
      | Some p \<Rightarrow> Some \<lparr>rt_instance = name, rt_prefix = masked p, rt_selected = nw_selected nw\<rparr>)"

definition snap_routes :: "inst \<Rightarrow> string \<Rightarrow> route list op" where
  "snap_routes i sock =
     bnd (attempt (networks sock)) (\<lambda>r.
       case r of
         Inl e \<Rightarrow> thn (warnf (about (i_name i) @ '': '' @ err_text e @ '' (route-overlap preflight incomplete)''))
                      (ret [])
       | Inr nets \<Rightarrow> ret (List.map_filter (route_of (i_name i)) nets))"

definition intent_of :: "inst \<Rightarrow> status_response \<Rightarrow> dns_intent" where
  "intent_of i st =
     \<lparr>di_instance = i_name i, di_manages_dns = (i_dns_mode i \<noteq> DNSDisabled),
      di_mode = i_dns_mode i, di_domains = dns_domains st\<rparr>"

definition snapshot_from :: "inst \<Rightarrow> string \<Rightarrow> status_response \<Rightarrow> snapshot option op" where
  "snapshot_from i sock st =
     bnd (snap_net i st) (\<lambda>net.
     bnd (snap_routes i sock) (\<lambda>routes.
       ret (Some \<lparr>sn_name = i_name i, sn_iface = i_interface i, sn_net = net,
                  sn_routes = routes, sn_intent = intent_of i st\<rparr>)))"

text \<open>One round of the loop of \<^verbatim>\<open>snapshotRunning\<close>; \<^verbatim>\<open>continue\<close> is \<open>None\<close>.\<close>

definition snapshot_one :: "store \<Rightarrow> inst \<Rightarrow> snapshot option op" where
  "snapshot_one s i =
     (let sock = p_socket_path (store_params s i)
      in bnd (running (store_params s i)) (\<lambda>live.
         if \<not> live then ret None
         else bnd (attempt (dial sock)) (\<lambda>d.
           if \<not> is_ok d then ret None
           else bnd (attempt (status sock)) (\<lambda>r.
             case r of Inl _ \<Rightarrow> ret None | Inr st \<Rightarrow> snapshot_from i sock st))))"

definition snapshot_running :: "store \<Rightarrow> snapshot list op" where
  "snapshot_running s =
     bnd (list_store s) (\<lambda>insts.
     bnd (each (snapshot_one s) insts) (\<lambda>l. ret (List.map_filter (\<lambda>a. a) l)))"

section \<open>Findings\<close>

definition involves :: "string \<Rightarrow> string list \<Rightarrow> bool" where
  "involves name insts \<longleftrightarrow> name = [] \<or> name \<in> set insts"

definition all_nets :: "snapshot list \<Rightarrow> net list" where
  "all_nets snaps = List.map_filter sn_net snaps"

definition all_routes :: "snapshot list \<Rightarrow> route list" where
  "all_routes snaps = concat (map sn_routes snaps)"

text \<open>The map from interfaces to instances; a later snapshot overwrites an earlier one.\<close>

definition iface_owner :: "snapshot list \<Rightarrow> string \<Rightarrow> string" where
  "iface_owner snaps iface =
     (case map_of (rev (map (\<lambda>s. (sn_iface s, sn_name s)) (filter (\<lambda>s. sn_iface s \<noteq> []) snaps))) iface of
        None \<Rightarrow> []
      | Some n \<Rightarrow> n)"

definition range_findings :: "string \<Rightarrow> snapshot list \<Rightarrow> conflict list" where
  "range_findings name snaps =
     filter (\<lambda>c. involves name [n_instance (c_a c), n_instance (c_b c)]) (ip_range_conflicts (all_nets snaps))"

definition route_findings :: "string \<Rightarrow> snapshot list \<Rightarrow> route_conflict list" where
  "route_findings name snaps =
     filter (\<lambda>c. involves name [rt_instance (rc_a c), rt_instance (rc_b c)]) (route_conflicts (all_routes snaps))"

definition dns_findings :: "string \<Rightarrow> snapshot list \<Rightarrow> dns_conflict list" where
  "dns_findings name snaps =
     filter (\<lambda>c. involves name (dc_instances c)) (dns_conflicts (map sn_intent snaps))"

definition range_text :: "conflict \<Rightarrow> string" where
  "range_text c =
     ''instances '' @ quote (n_instance (c_a c)) @ '' ('' @ prefix_string (n_prefix (c_a c)) @ '') and '' @
     quote (n_instance (c_b c)) @ '' ('' @ prefix_string (n_prefix (c_b c)) @
     '') have overlapping netbird IP ranges''"

definition route_text :: "route_conflict \<Rightarrow> string" where
  "route_text c =
     ''instances '' @ quote (rt_instance (rc_a c)) @ '' and '' @ quote (rt_instance (rc_b c)) @
     '' both route overlapping prefixes ('' @ prefix_string (rt_prefix (rc_a c)) @ '' vs '' @
     prefix_string (rt_prefix (rc_b c)) @ '')'' @
     (if rc_winner c \<noteq> []
      then '' - the OS routing table currently sends this traffic to '' @ quote (rc_winner c)
      else '' - which mesh wins is up to the OS routing table and may change'')"

definition dns_text :: "dns_conflict \<Rightarrow> string" where
  "dns_text c =
     (if dc_kind c = ''primary''
      then ''instances '' @ join (dc_instances c) '', '' @ '' all want to manage the host's primary DNS resolver''
      else ''instances '' @ join (dc_instances c) '', '' @ '' both serve DNS for domain '' @ quote (dc_domain c))"

text \<open>The narrower prefix is looked up in the routing table; a failed lookup leaves no winner.\<close>

definition probe_addr :: "route_conflict \<Rightarrow> addr" where
  "probe_addr c =
     pfx_addr (if pfx_bits (rt_prefix (rc_b c)) > pfx_bits (rt_prefix (rc_a c))
               then rt_prefix (rc_b c) else rt_prefix (rc_a c))"

definition settle_route :: "(string \<Rightarrow> string) \<Rightarrow> route_conflict \<Rightarrow> string op" where
  "settle_route owner c =
     bnd (attempt (route_interface (probe_addr c))) (\<lambda>r.
       ret (route_text (case r of Inl _ \<Rightarrow> c | Inr iface \<Rightarrow> c\<lparr>rc_winner := owner iface\<rparr>)))"

definition conflicts_involving :: "store \<Rightarrow> string \<Rightarrow> string list op" where
  "conflicts_involving s name =
     bnd (snapshot_running s) (\<lambda>snaps.
     bnd (each (settle_route (iface_owner snaps)) (route_findings name snaps)) (\<lambda>routes.
       ret (map range_text (range_findings name snaps) @ routes @ map dns_text (dns_findings name snaps))))"

section \<open>The reference: pairs of instances that clash\<close>

definition share_range :: "snapshot \<Rightarrow> snapshot \<Rightarrow> bool" where
  "share_range a b \<longleftrightarrow>
     (\<exists>m n x. sn_net a = Some m \<and> sn_net b = Some n \<and> contains (n_prefix m) x \<and> contains (n_prefix n) x)"

definition share_route :: "snapshot \<Rightarrow> snapshot \<Rightarrow> bool" where
  "share_route a b \<longleftrightarrow>
     (\<exists>q \<in> set (sn_routes a). \<exists>r \<in> set (sn_routes b). \<exists>x. rt_selected q \<and> rt_selected r \<and>
        contains (rt_prefix q) x \<and> contains (rt_prefix r) x)"

definition share_dns :: "snapshot \<Rightarrow> snapshot \<Rightarrow> bool" where
  "share_dns a b \<longleftrightarrow>
     (primary (sn_intent a) \<and> primary (sn_intent b)) \<or>
     (\<exists>dm. dm \<in> set (served (sn_intent a)) \<and> dm \<in> set (served (sn_intent b)))"

definition clash :: "snapshot \<Rightarrow> snapshot \<Rightarrow> bool" where
  "clash a b \<longleftrightarrow> share_range a b \<or> share_route a b \<or> share_dns a b"

text \<open>What \<^verbatim>\<open>snapshotRunning\<close> builds: everything in a snapshot carries its instance's name, and the
  prefixes are valid.\<close>

definition snapshot_ok :: "snapshot \<Rightarrow> bool" where
  "snapshot_ok a \<longleftrightarrow>
     (\<forall>n. sn_net a = Some n \<longrightarrow> n_instance n = sn_name a \<and> valid_prefix (n_prefix n)) \<and>
     (\<forall>r \<in> set (sn_routes a). rt_instance r = sn_name a \<and> valid_prefix (rt_prefix r)) \<and>
     di_instance (sn_intent a) = sn_name a"

lemma ex_positions_iff:
  assumes "\<And>a b. Q a b \<Longrightarrow> Q b a" and "distinct xs \<or> (\<forall>a. \<not> Q a a)"
  shows "(\<exists>i j. i < j \<and> j < length xs \<and> Q (xs ! i) (xs ! j)) \<longleftrightarrow>
    (\<exists>a \<in> set xs. \<exists>b \<in> set xs. a \<noteq> b \<and> Q a b)"
proof
  assume "\<exists>i j. i < j \<and> j < length xs \<and> Q (xs ! i) (xs ! j)"
  then obtain i j where ij: "i < j" "j < length xs" "Q (xs ! i) (xs ! j)" by blast
  then have "xs ! i \<noteq> xs ! j" using assms(2) by (auto simp: nth_eq_iff_index_eq)
  with ij show "\<exists>a \<in> set xs. \<exists>b \<in> set xs. a \<noteq> b \<and> Q a b" by (meson less_trans nth_mem)
next
  assume "\<exists>a \<in> set xs. \<exists>b \<in> set xs. a \<noteq> b \<and> Q a b"
  then obtain i j where "i < length xs" "j < length xs" "xs ! i \<noteq> xs ! j" "Q (xs ! i) (xs ! j)"
    by (metis in_set_conv_nth)
  then show "\<exists>i j. i < j \<and> j < length xs \<and> Q (xs ! i) (xs ! j)"
    using assms(1) by (cases i j rule: linorder_cases) auto
qed

lemma ex_scanned_iff:
  "(\<exists>c \<in> set (map (\<lambda>(a, b). f a b) (scan rel xs)). P c) \<longleftrightarrow>
   (\<exists>i j. i < j \<and> j < length xs \<and> rel (xs ! i) (xs ! j) \<and> P (f (xs ! i) (xs ! j)))"
  unfolding Bex_def mapped_scan_iff by blast

lemma named_once:
  assumes "distinct (map sn_name snaps)" and "a \<in> set snaps" and "b \<in> set snaps" and "sn_name a = sn_name b"
  shows "a = b"
  using assms by (metis distinct_map inj_onD)

lemma all_nets_iff: "n \<in> set (all_nets snaps) \<longleftrightarrow> (\<exists>a \<in> set snaps. sn_net a = Some n)"
  by (force simp: all_nets_def map_filter_def)

lemma all_nets_distinct:
  "distinct (map sn_name snaps) \<Longrightarrow> list_all snapshot_ok snaps \<Longrightarrow> distinct (map n_instance (all_nets snaps))"
proof (induction snaps)
  case (Cons a snaps)
  then have "sn_name a \<notin> n_instance ` set (all_nets snaps)"
    by (auto simp: all_nets_iff list_all_iff snapshot_ok_def)
  with Cons show ?case
    by (auto simp: all_nets_def map_filter_simps snapshot_ok_def split: option.split)
qed (simp add: all_nets_def map_filter_simps)

section \<open>The findings are the clashing pairs\<close>

lemma involves_pair: "involves name [x, y] \<longleftrightarrow> name = [] \<or> name \<in> {x, y}"
  by (simp add: involves_def)

lemma range_findings_iff:
  assumes "distinct (map sn_name snaps)" and "list_all snapshot_ok snaps"
  shows "range_findings name snaps \<noteq> [] \<longleftrightarrow>
    (\<exists>a \<in> set snaps. \<exists>b \<in> set snaps. a \<noteq> b \<and> (name = [] \<or> name \<in> {sn_name a, sn_name b}) \<and>
       share_range a b)"
    (is "_ \<longleftrightarrow> ?R")
proof -
  let ?Q = "\<lambda>m n. net_overlap m n \<and> (name = [] \<or> name \<in> {n_instance m, n_instance n})"
  have "range_findings name snaps \<noteq> [] \<longleftrightarrow> (\<exists>c \<in> set (ip_range_conflicts (all_nets snaps)).
      name = [] \<or> name \<in> {n_instance (c_a c), n_instance (c_b c)})"
    by (auto simp: range_findings_def filter_empty_conv involves_pair)
  also have "\<dots> \<longleftrightarrow> (\<exists>i j. i < j \<and> j < length (all_nets snaps) \<and> ?Q (all_nets snaps ! i) (all_nets snaps ! j))"
    unfolding ip_range_conflicts_def ex_scanned_iff by simp
  also have "\<dots> \<longleftrightarrow> (\<exists>m \<in> set (all_nets snaps). \<exists>n \<in> set (all_nets snaps). m \<noteq> n \<and> ?Q m n)"
    by (rule ex_positions_iff)
      (use all_nets_distinct [OF assms] net_scan.rel_sym in \<open>auto simp: distinct_map\<close>)
  also have "\<dots> \<longleftrightarrow> ?R"
  proof
    assume "\<exists>m \<in> set (all_nets snaps). \<exists>n \<in> set (all_nets snaps). m \<noteq> n \<and> ?Q m n"
    then obtain m n a b where mn: "a \<in> set snaps" "b \<in> set snaps" "sn_net a = Some m" "sn_net b = Some n"
      "m \<noteq> n" "?Q m n" by (auto simp: all_nets_iff)
    then have ok: "n_instance m = sn_name a" "n_instance n = sn_name b" "valid_prefix (n_prefix m)" "valid_prefix (n_prefix n)"
      using assms(2) by (auto simp: list_all_iff snapshot_ok_def)
    then obtain x where "contains (n_prefix m) x" "contains (n_prefix n) x"
      using mn(6) overlaps_iff_common by (auto simp: net_overlap_def)
    moreover have "a \<noteq> b" using mn by auto
    ultimately show ?R using mn ok unfolding share_range_def by force
  next
    assume ?R
    then obtain a b m n x where ab: "a \<in> set snaps" "b \<in> set snaps" "a \<noteq> b" "name = [] \<or> name \<in> {sn_name a, sn_name b}"
      "sn_net a = Some m" "sn_net b = Some n" "contains (n_prefix m) x" "contains (n_prefix n) x" unfolding share_range_def by blast
    then have ok: "n_instance m = sn_name a" "n_instance n = sn_name b" "valid_prefix (n_prefix m)" "valid_prefix (n_prefix n)"
      using assms(2) by (auto simp: list_all_iff snapshot_ok_def)
    have "net_overlap m n" using ab(7,8) ok(3,4) overlaps_iff_common by (auto simp: net_overlap_def)
    moreover have "m \<noteq> n" using named_once [OF assms(1) ab(1,2)] ab(3) ok by auto
    ultimately show "\<exists>m \<in> set (all_nets snaps). \<exists>n \<in> set (all_nets snaps). m \<noteq> n \<and> ?Q m n"
      using ab ok by (intro bexI [of _ m] bexI [of _ n]) (auto simp: all_nets_iff)
  qed
  finally show ?thesis .
qed

lemma all_routes_iff: "r \<in> set (all_routes snaps) \<longleftrightarrow> (\<exists>a \<in> set snaps. r \<in> set (sn_routes a))"
  by (auto simp: all_routes_def)

lemma route_findings_iff:
  assumes "distinct (map sn_name snaps)" and "list_all snapshot_ok snaps"
  shows "route_findings name snaps \<noteq> [] \<longleftrightarrow>
    (\<exists>a \<in> set snaps. \<exists>b \<in> set snaps. a \<noteq> b \<and> (name = [] \<or> name \<in> {sn_name a, sn_name b}) \<and>
       share_route a b)"
    (is "_ \<longleftrightarrow> ?R")
proof -
  let ?Q = "\<lambda>q r. route_clash q r \<and> (name = [] \<or> name \<in> {rt_instance q, rt_instance r})"
  have "route_findings name snaps \<noteq> [] \<longleftrightarrow> (\<exists>c \<in> set (route_conflicts (all_routes snaps)).
      name = [] \<or> name \<in> {rt_instance (rc_a c), rt_instance (rc_b c)})"
    by (auto simp: route_findings_def filter_empty_conv involves_pair)
  also have "\<dots> \<longleftrightarrow> (\<exists>i j. i < j \<and> j < length (all_routes snaps) \<and> ?Q (all_routes snaps ! i) (all_routes snaps ! j))"
    unfolding route_conflicts_def ex_scanned_iff by simp
  also have "\<dots> \<longleftrightarrow> (\<exists>q \<in> set (all_routes snaps). \<exists>r \<in> set (all_routes snaps). q \<noteq> r \<and> ?Q q r)"
  proof (rule ex_positions_iff)
    show "?Q b a" if "?Q a b" for a b using that route_scan.rel_sym by auto
    show "distinct (all_routes snaps) \<or> (\<forall>a. \<not> ?Q a a)" by (simp add: route_clash_def)
  qed
  also have "\<dots> \<longleftrightarrow> ?R"
  proof
    assume "\<exists>q \<in> set (all_routes snaps). \<exists>r \<in> set (all_routes snaps). q \<noteq> r \<and> ?Q q r"
    then obtain q r a b where qr: "a \<in> set snaps" "b \<in> set snaps" "q \<in> set (sn_routes a)" "r \<in> set (sn_routes b)"
      "?Q q r" by (auto simp: all_routes_iff)
    then have ok: "rt_instance q = sn_name a" "rt_instance r = sn_name b" "valid_prefix (rt_prefix q)" "valid_prefix (rt_prefix r)"
      using assms(2) by (auto simp: list_all_iff snapshot_ok_def)
    then obtain x where "contains (rt_prefix q) x" "contains (rt_prefix r) x" "rt_selected q" "rt_selected r" "a \<noteq> b"
      using qr(5) overlaps_iff_common by (auto simp: route_clash_def split: if_splits)
    then show ?R using qr ok unfolding share_route_def by force
  next
    assume ?R
    then obtain a b q r x where ab: "a \<in> set snaps" "b \<in> set snaps" "a \<noteq> b" "name = [] \<or> name \<in> {sn_name a, sn_name b}"
      "q \<in> set (sn_routes a)" "r \<in> set (sn_routes b)" "rt_selected q" "rt_selected r"
      "contains (rt_prefix q) x" "contains (rt_prefix r) x" unfolding share_route_def by blast
    then have ok: "rt_instance q = sn_name a" "rt_instance r = sn_name b" "valid_prefix (rt_prefix q)" "valid_prefix (rt_prefix r)"
      using assms(2) by (auto simp: list_all_iff snapshot_ok_def)
    have ne: "sn_name a \<noteq> sn_name b" using named_once [OF assms(1) ab(1,2)] ab(3) by auto
    then have "route_clash q r" using ab ok overlaps_iff_common by (auto simp: route_clash_def)
    then show "\<exists>q \<in> set (all_routes snaps). \<exists>r \<in> set (all_routes snaps). q \<noteq> r \<and> ?Q q r"
      using ab ok ne by (intro bexI [of _ q] bexI [of _ r]) (auto simp: all_routes_iff)
  qed
  finally show ?thesis .
qed

text \<open>A DNS conflict of all intents with property \<open>P\<close> involves a name when the name has the property
  and so has another.\<close>

lemma shared_claim_iff:
  assumes "distinct (map sn_name snaps)" and "list_all snapshot_ok snaps"
  shows "(Suc 0 < length (filter P (map sn_intent snaps)) \<and>
      (name = [] \<or> name \<in> di_instance ` set (filter P (map sn_intent snaps)))) \<longleftrightarrow>
    (\<exists>a \<in> set snaps. \<exists>b \<in> set snaps. a \<noteq> b \<and> (name = [] \<or> name \<in> {sn_name a, sn_name b}) \<and>
       P (sn_intent a) \<and> P (sn_intent b))"
proof -
  have d: "distinct snaps" using assms(1) by (simp add: distinct_map)
  have "Suc 0 < length (filter P (map sn_intent snaps)) \<longleftrightarrow>
      (\<exists>i j. i < j \<and> j < length snaps \<and> P (sn_intent (snaps ! i)) \<and> P (sn_intent (snaps ! j)))"
    by (simp add: filter_map length_filter_gt_1)
  also have "\<dots> \<longleftrightarrow> (\<exists>a \<in> set snaps. \<exists>b \<in> set snaps. a \<noteq> b \<and> P (sn_intent a) \<and> P (sn_intent b))"
    by (rule ex_positions_iff) (use d in auto)
  finally have two: "Suc 0 < length (filter P (map sn_intent snaps)) \<longleftrightarrow>
    (\<exists>a \<in> set snaps. \<exists>b \<in> set snaps. a \<noteq> b \<and> P (sn_intent a) \<and> P (sn_intent b))" .
  have mem: "name \<in> di_instance ` set (filter P (map sn_intent snaps)) \<longleftrightarrow>
      (\<exists>c \<in> set snaps. P (sn_intent c) \<and> sn_name c = name)"
    using assms(2) by (force simp: list_all_iff snapshot_ok_def)
  show ?thesis unfolding two mem by auto metis+
qed

lemma dns_findings_iff:
  assumes "distinct (map sn_name snaps)" and "list_all snapshot_ok snaps"
  shows "dns_findings name snaps \<noteq> [] \<longleftrightarrow>
    (\<exists>a \<in> set snaps. \<exists>b \<in> set snaps. a \<noteq> b \<and> (name = [] \<or> name \<in> {sn_name a, sn_name b}) \<and>
       share_dns a b)"
proof -
  let ?is = "map sn_intent snaps"
  have "dns_findings name snaps \<noteq> [] \<longleftrightarrow>
      (Suc 0 < length (filter primary ?is) \<and> (name = [] \<or> name \<in> di_instance ` set (filter primary ?is))) \<or>
      (\<exists>dm \<in> set (contested ?is). name = [] \<or> name \<in> set (by_domain ?is dm))"
    by (auto simp: dns_findings_def filter_empty_conv dns_conflicts_def Let_def involves_def)
  also have "(\<exists>dm \<in> set (contested ?is). name = [] \<or> name \<in> set (by_domain ?is dm)) \<longleftrightarrow>
      (\<exists>dm. Suc 0 < length (filter (\<lambda>d. dm \<in> set (served d)) ?is) \<and>
        (name = [] \<or> name \<in> di_instance ` set (filter (\<lambda>d. dm \<in> set (served d)) ?is)))"
    unfolding Bex_def contested_iff length_filter_gt_1 by_domain_def by auto
  finally show ?thesis unfolding shared_claim_iff [OF assms] share_dns_def by blast
qed

lemma findings_iff_clash:
  assumes "distinct (map sn_name snaps)" and "list_all snapshot_ok snaps"
  shows "(range_findings name snaps = [] \<and> route_findings name snaps = [] \<and> dns_findings name snaps = []) \<longleftrightarrow>
    (\<forall>a \<in> set snaps. \<forall>b \<in> set snaps. a \<noteq> b \<and> (name = [] \<or> name \<in> {sn_name a, sn_name b}) \<longrightarrow> \<not> clash a b)"
  using range_findings_iff [OF assms, of name] route_findings_iff [OF assms, of name] dns_findings_iff [OF assms, of name]
  unfolding clash_def by blast

section \<open>What the snapshots are\<close>

lemma snapshot_one_ok:
  assumes "snapshot_one s i w = (Inr (Some a), w')"
  shows "snapshot_ok a \<and> sn_name a = i_name i"
proof -
  let ?sock = "p_socket_path (store_params s i)"
  from assms obtain st u where "snapshot_from i ?sock st u = (Inr (Some a), w')"
    by (auto simp: snapshot_one_def Let_def bnd_result split: if_splits) (fastforce split: sum.splits)
  then obtain net routes v v' where
      n: "snap_net i st u = (Inr net, v)" and r: "snap_routes i ?sock v = (Inr routes, v')"
      and a: "a = \<lparr>sn_name = i_name i, sn_iface = i_interface i, sn_net = net, sn_routes = routes,
                 sn_intent = intent_of i st\<rparr>"
    by (auto simp: snapshot_from_def bnd_result)
  have "\<forall>m. net = Some m \<longrightarrow> n_instance m = i_name i \<and> valid_prefix (n_prefix m)"
    using n by (auto simp: snap_net_def Let_def bnd_result thn_result dest: parse_net_valid
        split: if_splits option.splits)
  moreover have "\<forall>q \<in> set routes. rt_instance q = i_name i \<and> valid_prefix (rt_prefix q)"
  proof -
    obtain x u1 where "networks ?sock v = (x, u1)" by (cases "networks ?sock v")
    then have "routes = [] \<or> (\<exists>nets. routes = List.map_filter (route_of (i_name i)) nets)"
      using r by (cases x) (auto simp: snap_routes_def bnd_attempt thn_result)
    then show ?thesis
      by (auto simp: map_filter_def route_of_def dest!: parse_prefix_valid split: option.splits)
  qed
  ultimately show ?thesis by (simp add: a snapshot_ok_def intent_of_def)
qed

lemma each_snapshots:
  "each (snapshot_one s) insts w = (Inr l, w') \<Longrightarrow>
     list_all snapshot_ok (List.map_filter (\<lambda>a. a) l) \<and>
     (\<exists>keep. length keep = length insts \<and>
        map sn_name (List.map_filter (\<lambda>a. a) l) = map snd (filter fst (zip keep (map i_name insts))))"
proof (induction insts arbitrary: l w)
  case Nil
  then show ?case by (simp add: map_filter_simps)
next
  case (Cons i insts)
  then obtain o' l' w1 where 1: "snapshot_one s i w = (Inr o', w1)" "each (snapshot_one s) insts w1 = (Inr l', w')"
    "l = o' # l'" by (auto simp: bnd_result)
  from Cons.IH [OF 1(2)] obtain keep where IH: "list_all snapshot_ok (List.map_filter (\<lambda>a. a) l')"
    "length keep = length insts"
    "map sn_name (List.map_filter (\<lambda>a. a) l') = map snd (filter fst (zip keep (map i_name insts)))" by blast
  show ?case
  proof (cases o')
    case None
    with IH 1(3) show ?thesis by (auto simp: map_filter_simps intro!: exI [of _ "False # keep"])
  next
    case (Some a)
    with snapshot_one_ok 1(1) have "snapshot_ok a" "sn_name a = i_name i" by auto
    with Some IH 1(3) show ?thesis by (auto simp: map_filter_simps intro!: exI [of _ "True # keep"])
  qed
qed

lemma snapshot_running_ok:
  assumes "snapshot_running s w = (Inr snaps, w')"
  shows "list_all snapshot_ok snaps"
    and "list_store s w = (Inr insts, w1) \<Longrightarrow> distinct (map i_name insts) \<Longrightarrow> distinct (map sn_name snaps)"
proof -
  obtain l insts' w2 where 1: "list_store s w = (Inr insts', w2)" "each (snapshot_one s) insts' w2 = (Inr l, w')"
    "snaps = List.map_filter (\<lambda>a. a) l"
    using assms by (auto simp: snapshot_running_def bnd_result)
  from each_snapshots [OF 1(2)] obtain keep where k: "list_all snapshot_ok snaps" "length keep = length insts'"
    "map sn_name snaps = map snd (filter fst (zip keep (map i_name insts')))" unfolding 1(3) by auto
  show "list_all snapshot_ok snaps" by (rule k(1))
  show "distinct (map sn_name snaps)" if "list_store s w = (Inr insts, w1)" "distinct (map i_name insts)"
  proof -
    have "distinct (map snd (filter fst (zip keep ns)))" if "distinct ns" for keep and ns :: "string list"
      using that
    proof (induction ns arbitrary: keep)
      case (Cons n ns)
      then show ?case by (cases keep) (auto dest: set_zip_rightD)
    qed simp
    with that 1(1) k(3) show ?thesis by simp
  qed
qed

lemma conflicts_exact:
  assumes "conflicts_involving s name w = (Inr out, w')"
    and "list_store s w = (Inr insts, w1)" and "distinct (map i_name insts)"
  shows "\<exists>snaps w2. snapshot_running s w = (Inr snaps, w2) \<and>
    (out = [] \<longleftrightarrow> (\<forall>a \<in> set snaps. \<forall>b \<in> set snaps.
       a \<noteq> b \<and> (name = [] \<or> name \<in> {sn_name a, sn_name b}) \<longrightarrow> \<not> clash a b))"
proof -
  obtain snaps w2 routes where sn: "snapshot_running s w = (Inr snaps, w2)"
    and rt: "each (settle_route (iface_owner snaps)) (route_findings name snaps) w2 = (Inr routes, w')"
    and out: "out = map range_text (range_findings name snaps) @ routes @ map dns_text (dns_findings name snaps)"
    using assms(1) by (auto simp: conflicts_involving_def bnd_result)
  have "length routes = length cs" if "each (settle_route owner) cs v = (Inr routes, v')" for owner cs v v'
    using that by (induction cs arbitrary: v routes) (auto simp: bnd_result)
  from this [OF rt] have "routes = [] \<longleftrightarrow> route_findings name snaps = []" by (metis length_0_conv)
  with out have "out = [] \<longleftrightarrow> range_findings name snaps = [] \<and> route_findings name snaps = [] \<and> dns_findings name snaps = []"
    by auto
  also have "\<dots> \<longleftrightarrow> (\<forall>a \<in> set snaps. \<forall>b \<in> set snaps.
       a \<noteq> b \<and> (name = [] \<or> name \<in> {sn_name a, sn_name b}) \<longrightarrow> \<not> clash a b)"
    by (rule findings_iff_clash [OF snapshot_running_ok(2) [OF sn assms(2,3)] snapshot_running_ok(1) [OF sn]])
  finally show ?thesis using sn by blast
qed

section \<open>Properties\<close>

text \<open>C11: Preflight is exact.  Whenever the check of an instance runs through and the listed instances
  have different names, it returns nothing exactly when no other running instance clashes with this
  one: no address lies in both ranges, no destination in selected routes of both, not both claim the
  primary resolver, and no match domain is served by both.  With the empty name, as \<^verbatim>\<open>doctor\<close> asks,
  this is so for all pairs.\<close>

theorem preflight_exact:
  assumes "conflicts_involving s name w = (Inr out, w')"
    and "list_store s w = (Inr insts, w1)" and "distinct (map i_name insts)"
  shows "\<exists>snaps w2. snapshot_running s w = (Inr snaps, w2) \<and>
    (out = [] \<longleftrightarrow> (\<forall>a \<in> set snaps. \<forall>b \<in> set snaps.
       a \<noteq> b \<and> (name = [] \<or> name \<in> {sn_name a, sn_name b}) \<longrightarrow> \<not> clash a b))"
  by (rule conflicts_exact [OF assms])

section \<open>Events\<close>

text \<open>Preflight only looks: it reads files, probes processes with signal 0, asks daemons for status and
  networks, and runs route lookups.\<close>

definition looks :: "event \<Rightarrow> bool" where
  "looks e \<longleftrightarrow> (case e of
     EvFs f \<Rightarrow> (case f of OpRead _ \<Rightarrow> True | OpStat _ \<Rightarrow> True | OpReadDir _ \<Rightarrow> True | _ \<Rightarrow> False)
   | EvKill _ sig \<Rightarrow> sig = 0
   | EvRpc _ r \<Rightarrow> (case r of RpcStatus _ \<Rightarrow> True | RpcListNetworks \<Rightarrow> True | _ \<Rightarrow> False)
   | EvExec _ script \<Rightarrow> script = []
   | EvSpawn _ _ _ \<Rightarrow> False
   | EvHttp _ _ \<Rightarrow> False
   | _ \<Rightarrow> True)"

lemma emits_running_looks [frame_intros]: "keeps (emits looks) (running p)"
  unfolding running_def recorded_alive_def read_pid_def
  by (intro frame_intros) (simp_all add: looks_def)

lemma looks_snapshot: "keeps (emits looks) (snapshot_running s)"
  unfolding snapshot_running_def snapshot_one_def snapshot_from_def snap_net_def snap_routes_def Let_def
  by (intro frame_intros) (simp_all add: looks_def)

lemma looks_conflicts: "keeps (emits looks) (conflicts_involving s name)"
  unfolding conflicts_involving_def settle_route_def
  by (intro frame_intros looks_snapshot) (simp_all add: looks_def)

section \<open>Two running instances\<close>

definition two_running :: world where
  "two_running = (example_world (two_instances @
       [(''/run/a.pid'', File ''11'' 420), (''/run/b.pid'', File ''12'' 420)]))
     \<lparr>w_env := example_env\<lparr>e_kill := \<lambda>_ _ _. None,
        e_status := \<lambda>_ sock. Inr (example_status ''host.mesh.example''
          (if sock = ''/run/a.sock'' then ''100.92.1.1/16'' else ''100.92.7.7/16'') [] [])\<rparr>\<rparr>"

lemma two_running_check:
  "map_sum (\<lambda>_. ()) length (fst (conflicts_involving example_store_at ''a'' two_running)) = Inr 2"
  "fst (list_store example_store_at two_running) = Inr [example_inst ''a'' 2, example_inst ''b'' 0]"
  by code_simp+

theorem preflight_exact_witness:
  "\<exists>snaps a b. fst (snapshot_running example_store_at two_running) = Inr snaps \<and>
     a \<in> set snaps \<and> b \<in> set snaps \<and> a \<noteq> b \<and> ''a'' \<in> {sn_name a, sn_name b} \<and> clash a b"
proof -
  obtain out w' where out: "conflicts_involving example_store_at ''a'' two_running = (Inr out, w')" "out \<noteq> []"
    using two_running_check(1)
    by (cases "conflicts_involving example_store_at ''a'' two_running")
      (fastforce simp: map_sum_def split: sum.splits)
  obtain w1 where l: "list_store example_store_at two_running = (Inr [example_inst ''a'' 2, example_inst ''b'' 0], w1)"
    using two_running_check(2) by (metis prod.collapse)
  from preflight_exact [OF out(1) l] out(2) show ?thesis by fastforce
qed

end
