(* ===== verification/Lifecycle.thy ===== *)
theory Lifecycle
  imports Snapshot
begin

text \<open>
  The rest of \<^verbatim>\<open>internal/ops/ops.go\<close> and \<^verbatim>\<open>internal/ops/set.go\<close>: bringing an instance up and down,
  removing and nuking it, its status, and changing its settings.

  The code passes instances by pointer and changes them on the way; the operations below hand the
  changed instance on.
\<close>

section \<open>Up\<close>

definition host_addr :: "string \<Rightarrow> addr option" where
  "host_addr s = (case parse_prefix s of Some p \<Rightarrow> Some (pfx_addr p) | None \<Rightarrow> parse_addr s)"

definition instance_hostname :: "string \<Rightarrow> string op" where
  "instance_hostname name =
     bnd (asks (\<lambda>w. e_hostname (w_env w))) (\<lambda>h.
       case h of
         None \<Rightarrow> ret (''multibird-'' @ name)
       | Some h \<Rightarrow> ret (if h = [] then ''multibird-'' @ name else h @ ''-'' @ name))"

definition config_for :: "store \<Rightarrow> inst \<Rightarrow> string \<Rightarrow> set_config_params" where
  "config_for s i hint =
     \<lparr>sc_management_url = i_management_url i, sc_interface_name = hint,
      sc_wireguard_port = p_wg_port (store_params s i),
      sc_disable_dns = dns_disable_sys (i_dns_mode i), sc_custom_dns_address = []\<rparr>"

definition sso_flow :: "inst \<Rightarrow> string \<Rightarrow> string \<Rightarrow> sso_challenge \<Rightarrow> unit op" where
  "sso_flow i sock host ch =
     thn (if i_sso i then ret ()
          else warnf (about (i_name i) @ '': management server requested SSO login despite the setup key''))
    (thn (printf (about (i_name i) @ '': complete the login in your browser: '' @ ch_uri ch))
         (wrap (about (i_name i)) (wait_sso_login sock ch host)))"

text \<open>The first login: it creates the daemon's config file, then the isolation parameters go into it,
  and that this has happened is saved.\<close>

definition log_in :: "store \<Rightarrow> inst \<Rightarrow> inst op" where
  "log_in s i =
     (let sock = p_socket_path (store_params s i)
      in bnd (instance_hostname (i_name i)) (\<lambda>host.
         bnd (wrap (about (i_name i))
               (login sock \<lparr>l_setup_key = i_setup_key i, l_management_url = i_management_url i,
                            l_hostname = host\<rparr>)) (\<lambda>ch.
         thn (case ch of None \<Rightarrow> ret () | Some c \<Rightarrow> sso_flow i sock host c)
        (bnd (interface_hint (i_index i)) (\<lambda>hint.
         thn (wrap (about (i_name i)) (set_config sock (config_for s i hint)))
        (let i' = i\<lparr>i_logged_in := True\<rparr>
         in thn (save s i') (ret i')))))))"

definition record_interface :: "store \<Rightarrow> inst \<Rightarrow> status_response \<Rightarrow> inst op" where
  "record_interface s i st =
     (let ip = lp_ip (fs_local (st_full st))
      in if ip = [] then ret i
         else case host_addr ip of
                None \<Rightarrow> ret i
              | Some a \<Rightarrow>
                  bnd (attempt (discover_interface a)) (\<lambda>r.
                    case r of
                      Inl _ \<Rightarrow> ret i
                    | Inr iface \<Rightarrow>
                        if iface = i_interface i then ret i
                        else let i' = i\<lparr>i_interface := iface\<rparr>
                             in thn (save s i') (ret i')))"

definition warn_if_failed :: "err + unit \<Rightarrow> (string \<Rightarrow> string) \<Rightarrow> unit op" where
  "warn_if_failed r text = (case r of Inl e \<Rightarrow> warnf (text (err_text e)) | Inr _ \<Rightarrow> ret ())"

text \<open>The preflight at the end of \<^verbatim>\<open>Up\<close>.\<close>

definition check_conflicts :: "store \<Rightarrow> inst \<Rightarrow> bool \<Rightarrow> unit op" where
  "check_conflicts s i strict =
     bnd (attempt (conflicts_involving s (i_name i))) (\<lambda>r.
       case r of
         Inl e \<Rightarrow> warnf (''preflight check skipped: '' @ err_text e)
       | Inr cs \<Rightarrow>
           if cs \<noteq> [] \<and> strict
           then thn (ignore (engine_down (p_socket_path (store_params s i))))
                    (fail (ErrMsg (''preflight (--strict): '' @ hd cs @ '' - '' @ about (i_name i) @
                                   '' was brought back down'')))
           else thn (each (\<lambda>c. warnf (''preflight: '' @ c)) cs) (ret ()))"

text \<open>The part of \<^verbatim>\<open>Up\<close> after the engine has come up and answered a status request.\<close>

definition finish_up :: "store \<Rightarrow> inst \<Rightarrow> bool \<Rightarrow> status_response \<Rightarrow> unit op" where
  "finish_up s i strict st =
     bnd (record_interface s i st) (\<lambda>i'.
     bnd (caught (apply_from_status i' st)) (\<lambda>r.
     thn (warn_if_failed r (\<lambda>t. t))
         (check_conflicts s i' strict)))"

definition up :: "store \<Rightarrow> inst \<Rightarrow> bool \<Rightarrow> unit op" where
  "up s i strict =
     (let p = store_params s i; sock = p_socket_path p
      in bnd (asks (\<lambda>w. e_os (w_env w))) (\<lambda>os.
         thn (start i p (daemon_env_of os))
        (thn (dial sock)
        (thn (wrap (about (i_name i)) (wait_ready sock 15000))
        (bnd (if i_logged_in i then ret i else log_in s i) (\<lambda>i1.
         thn (wrap (about (i_name i)) (engine_up sock))
        (bnd (wrap (about (i_name i) @ '' came up but status failed'') (status sock))
             (finish_up s i1 strict))))))))"

section \<open>Down, remove, nuke\<close>

definition stop_engine :: "inst \<Rightarrow> string \<Rightarrow> unit op" where
  "stop_engine i sock =
     bnd (attempt (dial sock)) (\<lambda>d.
       if \<not> is_ok d then ret ()
       else bnd (attempt (engine_down sock)) (\<lambda>r.
         warn_if_failed r (\<lambda>t. about (i_name i) @ '': graceful engine down failed ('' @ t @
                               ''); stopping daemon anyway'')))"

definition down :: "store \<Rightarrow> inst \<Rightarrow> unit op" where
  "down s i =
     (let p = store_params s i
      in bnd (running p) (\<lambda>live.
         thn (if live then stop_engine i (p_socket_path p) else ret ())
        (thn (if i_dns_mode i = DNSMultibird then remove_quietly (i_name i) else ret ())
             (stop p))))"

definition remove_instance :: "store \<Rightarrow> inst \<Rightarrow> bool \<Rightarrow> unit op" where
  "remove_instance s i purge =
     bnd (attempt (down s i)) (\<lambda>r.
     thn (warn_if_failed r (\<lambda>t. about (i_name i) @ '': teardown before removal was incomplete: '' @ t))
    (thn (remove_quietly (i_name i))
    (thn (ignore (os_remove (p_socket_path (store_params s i))))
         (store_remove s i purge))))"

definition nuke_instance :: "store \<Rightarrow> inst \<Rightarrow> err list op" where
  "nuke_instance s i =
     bnd (nuke (store_params s i)) (\<lambda>errs.
     bnd (attempt (remove_host_dns (i_name i))) (\<lambda>r.
       ret (errs @ (case r of Inl e \<Rightarrow> [Wrap ''removing host DNS registration'' e] | Inr _ \<Rightarrow> []))))"

section \<open>Status\<close>

record instance_status =
  v_name :: string
  v_management_url :: string
  v_state :: string
  v_netbird_ip :: string
  v_peers :: nat
  v_interface :: string
  v_version :: string
  v_wg_port :: int
  v_log_file :: string

definition stopped_status :: "store \<Rightarrow> inst \<Rightarrow> instance_status" where
  "stopped_status s i =
     \<lparr>v_name = i_name i, v_management_url = i_management_url i, v_state = ''stopped'',
      v_netbird_ip = [], v_peers = 0, v_interface = i_interface i, v_version = [],
      v_wg_port = p_wg_port (store_params s i), v_log_file = p_log_file (store_params s i)\<rparr>"

definition live_status :: "status_response \<Rightarrow> instance_status \<Rightarrow> instance_status" where
  "live_status st v =
     v\<lparr>v_state := st_status st,
       v_version := (if st_daemon_version st \<noteq> [] then st_daemon_version st else v_version v),
       v_netbird_ip := lp_ip (fs_local (st_full st)),
       v_peers := length (fs_peers (st_full st))\<rparr>"

text \<open>The interface found later than \<^verbatim>\<open>up\<close>; a failed save is only warned about.\<close>

definition backfill :: "store \<Rightarrow> inst \<Rightarrow> instance_status \<Rightarrow> instance_status op" where
  "backfill s i v =
     (if v_netbird_ip v = [] then ret v
      else case host_addr (v_netbird_ip v) of
             None \<Rightarrow> ret v
           | Some a \<Rightarrow>
               bnd (attempt (discover_interface a)) (\<lambda>r.
                 case r of
                   Inl _ \<Rightarrow> ret v
                 | Inr iface \<Rightarrow>
                     if iface = i_interface i then ret v
                     else bnd (attempt (save s (i\<lparr>i_interface := iface\<rparr>))) (\<lambda>e.
                          thn (warn_if_failed e (\<lambda>t. about (i_name i) @ '': recording discovered interface: '' @ t))
                              (ret (v\<lparr>v_interface := iface\<rparr>)))))"

definition register_dns :: "inst \<Rightarrow> status_response \<Rightarrow> unit op" where
  "register_dns i st =
     bnd (caught (apply_from_status i st)) (\<lambda>r.
       case r of
         Inl e \<Rightarrow>
           if err_cause e = ErrNeedsRoot
           then warnf (about (i_name i) @ '': host DNS registration is stale or unverified'')
           else warnf (err_text e)
       | Inr _ \<Rightarrow> ret ())"

definition status_one :: "store \<Rightarrow> inst \<Rightarrow> instance_status op" where
  "status_one s i =
     (let p = store_params s i; sock = p_socket_path p
      in bnd (attempt (nb_version (runner_bin (i_netbird_bin i)))) (\<lambda>ver.
         let v = (case ver of Inl _ \<Rightarrow> stopped_status s i | Inr x \<Rightarrow> (stopped_status s i)\<lparr>v_version := x\<rparr>)
         in bnd (running p) (\<lambda>live.
            if \<not> live then ret v
            else let v = v\<lparr>v_state := ''daemon-only''\<rparr>
                 in bnd (attempt (dial sock)) (\<lambda>d.
                    if \<not> is_ok d then ret v
                    else bnd (attempt (status sock)) (\<lambda>r.
                      case r of
                        Inl _ \<Rightarrow> ret v
                      | Inr st \<Rightarrow> thn (register_dns i st) (backfill s i (live_status st v)))))))"

definition status_all :: "store \<Rightarrow> inst list \<Rightarrow> instance_status list op" where
  "status_all s insts = each (status_one s) insts"

section \<open>Set\<close>

record set_changes =
  ch_dns_mode :: "dns_mode option"
  ch_wireguard_port :: "int option"
  ch_netbird_bin :: "string option"

text \<open>The changed instance, and whether the daemon's config has to follow.\<close>

definition apply_changes :: "set_changes \<Rightarrow> inst \<Rightarrow> inst \<times> bool" where
  "apply_changes ch i =
     (let i1 = (case ch_netbird_bin ch of None \<Rightarrow> i | Some b \<Rightarrow> i\<lparr>i_netbird_bin := b\<rparr>);
          (i2, n2) = (case ch_dns_mode ch of
              None \<Rightarrow> (i1, False)
            | Some m \<Rightarrow> if m \<noteq> i_dns_mode i1 then (i1\<lparr>i_dns_mode := m\<rparr>, True) else (i1, False))
      in case ch_wireguard_port ch of
           None \<Rightarrow> (i2, n2)
         | Some q \<Rightarrow> if q \<noteq> i_wireguard_port i2 then (i2\<lparr>i_wireguard_port := q\<rparr>, True) else (i2, n2))"

definition push_config :: "store \<Rightarrow> inst \<Rightarrow> unit op" where
  "push_config s i =
     (let p = store_params s i; sock = p_socket_path p
      in bnd (running p) (\<lambda>was_running.
         bnd (asks (\<lambda>w. e_os (w_env w))) (\<lambda>os.
         thn (if was_running then ret ()
              else wrap ''applying settings needs the instance's daemon'' (start i p (daemon_env_of os)))
        (thn (dial sock)
        (thn (wrap (about (i_name i)) (wait_ready sock 15000))
        (bnd (interface_hint (i_index i)) (\<lambda>hint.
         thn (wrap (about (i_name i)) (set_config sock (config_for s i hint)))
             (if \<not> was_running
              then bnd (attempt (stop p)) (\<lambda>r.
                warn_if_failed r (\<lambda>t. about (i_name i) @ '': stopping the temporary daemon failed: '' @ t))
              else printf (about (i_name i) @ '': settings saved'')))))))))"

definition set_instance :: "store \<Rightarrow> inst \<Rightarrow> set_changes \<Rightarrow> unit op" where
  "set_instance s i ch =
     (let (i', needs_daemon) = apply_changes ch i
      in thn (if needs_daemon \<and> i_logged_in i' then push_config s i' else ret ())
        (thn (if i_dns_mode i = DNSMultibird \<and> i_dns_mode i' \<noteq> DNSMultibird
              then bnd (attempt (remove_host_dns (i_name i))) (\<lambda>r.
                warn_if_failed r (\<lambda>t. about (i_name i) @ '': could not remove host DNS registration: '' @ t))
              else ret ())
             (save s i')))"

section \<open>What the commands may touch\<close>

fun written_paths :: "fs_op \<Rightarrow> string list" where
  "written_paths (OpMkdirAll p _) = [p]"
| "written_paths (OpOpenTrunc p _) = [p]"
| "written_paths (OpWrite p) = [p]"
| "written_paths (OpClose _) = []"
| "written_paths (OpWriteFile p _) = [p]"
| "written_paths (OpRead _) = []"
| "written_paths (OpStat _) = []"
| "written_paths (OpReadDir _) = []"
| "written_paths (OpRemove p) = [p]"
| "written_paths (OpRemoveAll p) = [p]"
| "written_paths (OpRename p q) = [p, q]"

definition only_asks :: "rpc \<Rightarrow> bool" where
  "only_asks r \<longleftrightarrow> (case r of RpcStatus _ \<Rightarrow> True | RpcListNetworks \<Rightarrow> True | _ \<Rightarrow> False)"

text \<open>An event that changes nothing outside the instance: it writes only its own files (the shared run
  directory may be created) and removes no tree but its own directory, orders only its own daemon, starts only a daemon with its own
  configuration, socket and state directory, and changes only its own DNS keys.\<close>

definition own_event :: "store \<Rightarrow> inst \<Rightarrow> event \<Rightarrow> bool" where
  "own_event s i e \<longleftrightarrow>
     (let p = store_params s i
      in case e of
           EvFs f \<Rightarrow> set (written_paths f) \<subseteq> set (owned_paths p) \<and> (\<forall>q. f = OpRemoveAll q \<longrightarrow> q = p_dir p) \<or>
             f = OpMkdirAll (path_dir (p_socket_path p)) 493
         | EvExec argv script \<Rightarrow> key_script (i_name i) script
         | EvSpawn bin args environ \<Rightarrow>
             args = service_run_args (p_config_json p) (p_daemon_addr p) (p_log_file p) log_level \<and>
             effective environ ''NB_STATE_DIR'' = Some (p_state_dir p)
         | EvRpc sock r \<Rightarrow> sock = p_socket_path p \<or> only_asks r
         | EvHttp _ _ \<Rightarrow> False
         | _ \<Rightarrow> True)"

lemma own_params [simp]:
  "store_params s (i\<lparr>i_logged_in := b\<rparr>) = store_params s i"
  "store_params s (i\<lparr>i_interface := t\<rparr>) = store_params s i"
  "store_params s (i\<lparr>i_dns_mode := m\<rparr>) = store_params s i"
  "store_params s (i\<lparr>i_netbird_bin := t\<rparr>) = store_params s i"
  by (simp_all add: store_params_def derive_params_def)

lemma own_event_simps [simp]:
  "own_event s i (EvWarn t)" "own_event s i (EvPrint t)" "own_event s i (EvError t)" "own_event s i (EvOut t)" "own_event s i (EvSleep d)" "own_event s i EvIfaces"
  "own_event s i (EvKill pid sig)" "own_event s i (EvExec argv [])"
  "own_event s i (EvFs (OpRead q))" "own_event s i (EvFs (OpStat q))" "own_event s i (EvFs (OpReadDir q))"
  "own_event s i (EvFs (OpClose q))"
  "own_event s i (EvRpc (p_socket_path (store_params s i)) r)"
  "own_event s i (EvFs (OpMkdirAll (p_dir (store_params s i)) m))"
  "own_event s i (EvFs (OpMkdirAll (p_state_dir (store_params s i)) m))"
  "own_event s i (EvFs (OpMkdirAll (path_dir (p_socket_path (store_params s i))) 493))"
  "own_event s i (EvFs (OpOpenTrunc (p_toml_path (store_params s i)) m))"
  "own_event s i (EvFs (OpWrite (p_toml_path (store_params s i))))"
  "own_event s i (EvFs (OpWriteFile (p_pid_file (store_params s i)) m))"
  "own_event s i (EvFs (OpRemove (p_pid_file (store_params s i))))"
  "own_event s i (EvFs (OpRemove (p_socket_path (store_params s i))))"
  "own_event s i (EvFs (OpRemove (p_toml_path (store_params s i))))"
  "own_event s i (EvFs (OpRemoveAll (p_dir (store_params s i))))"
  "key_script (i_name i) script \<Longrightarrow> own_event s i (EvExec argv script)"
  by (simp_all add: own_event_def owned_paths_def)

lemma own_spawn [simp]:
  "own_event s i (EvSpawn bin (service_run_args (p_config_json (store_params s i))
     (p_daemon_addr (store_params s i)) (p_log_file (store_params s i)) log_level)
     (daemon_environ (store_params s i) inherited extra))"
  by (simp add: own_event_def effective_def daemon_environ_def)

lemma looks_own: "looks e \<Longrightarrow> own_event s i e"
  by (auto simp: own_event_def looks_def only_asks_def split: event.splits fs_op.splits)

text \<open>Changes of an instance that keep its name keep what is its own.\<close>

lemma own_event_same_name:
  assumes "i_name j = i_name i"
  shows "own_event s j = own_event s i"
proof -
  have "store_params s j = (store_params s i)\<lparr>p_wg_port := p_wg_port (store_params s j)\<rparr>"
    using assms by (simp add: store_params_def derive_params_def Let_def)
  then obtain q where q: "store_params s j = (store_params s i)\<lparr>p_wg_port := q\<rparr>" by blast
  show ?thesis unfolding own_event_def q assms owned_paths_def Let_def by simp
qed

lemma emits_warn_if_failed [frame_intros]: "(\<And>t. P (EvWarn t)) \<Longrightarrow> keeps (emits P) (warn_if_failed r f)"
  unfolding warn_if_failed_def by (intro frame_intros)

lemma own_store_ops:
  "keeps (emits (own_event s i)) (save s i)" "keeps (emits (own_event s i)) (store_remove s i purge)"
  unfolding store_remove_def Let_def by (intro frame_intros; simp)+

lemma own_save: "i_name j = i_name i \<Longrightarrow> keeps (emits (own_event s i)) (save s j)"
  using own_store_ops(1) [of s j] own_event_same_name [of j i s] by simp

lemma own_looks: "keeps (emits looks) m \<Longrightarrow> keeps (emits (own_event s i)) m"
  by (erule keeps_mono) (rule looks_own)

lemma own_daemon_ops:
  "keeps (emits (own_event s i)) (start i (store_params s i) extra)"
  "keeps (emits (own_event s i)) (stop (store_params s i))"
  "keeps (emits (own_event s i)) (running (store_params s i))"
  "keeps (emits (own_event s i)) (nuke (store_params s i))"
  by (intro frame_intros; simp)+

lemma own_dns_ops:
  "valid_name (i_name i) \<Longrightarrow> keeps (emits (own_event s i)) (apply_from_status i st)"
  "keeps (emits (own_event s i)) (remove_host_dns (i_name i))"
  "keeps (emits (own_event s i)) (remove_quietly (i_name i))"
  by (rule emits_apply_from_status emits_remove_own emits_remove_quietly; simp)+

lemma own_client_ops:
  "keeps (emits (own_event s i)) (wait_ready (p_socket_path (store_params s i)) t)"
  "keeps (emits (own_event s i)) (engine_up (p_socket_path (store_params s i)))"
  "keeps (emits (own_event s i)) (engine_down (p_socket_path (store_params s i)))"
  "keeps (emits (own_event s i)) (status (p_socket_path (store_params s i)))"
  "keeps (emits (own_event s i)) (login (p_socket_path (store_params s i)) lp)"
  "keeps (emits (own_event s i)) (wait_sso_login (p_socket_path (store_params s i)) ch h)"
  "keeps (emits (own_event s i)) (set_config (p_socket_path (store_params s i)) cp)"
  "keeps (emits (own_event s i)) (interface_hint k)" "keeps (emits (own_event s i)) (discover_interface a)"
  "keeps (emits (own_event s i)) (nb_version b)"
  unfolding nb_version_def by (intro frame_intros; simp)+

lemmas own_ops = own_store_ops own_daemon_ops own_dns_ops own_client_ops own_looks [OF looks_conflicts]

lemma log_in_name: "log_in s i w = (Inr j, w') \<Longrightarrow> j = i\<lparr>i_logged_in := True\<rparr>"
  by (auto simp: log_in_def Let_def dest!: bnd_last thn_last)

lemma record_interface_name:
  assumes "record_interface s i st w = (Inr j, w')"
  shows "\<exists>t. j = i\<lparr>i_interface := t\<rparr>"
proof (cases "lp_ip (fs_local (st_full st)) = [] \<or> host_addr (lp_ip (fs_local (st_full st))) = None")
  case True
  then have "record_interface s i st w = (Inr i, w)"
    by (cases "lp_ip (fs_local (st_full st)) = []") (simp_all add: record_interface_def Let_def)
  then have "j = i\<lparr>i_interface := i_interface i\<rparr>" using assms by simp
  then show ?thesis by blast
next
  case False
  then obtain a where a: "host_addr (lp_ip (fs_local (st_full st))) = Some a" by auto
  obtain x u where "discover_interface a w = (x, u)" by (cases "discover_interface a w")
  then have "j = i \<or> (\<exists>t. j = i\<lparr>i_interface := t\<rparr>)"
    using assms False a by (cases x) (auto simp: record_interface_def bnd_attempt Let_def thn_result split: if_splits)
  moreover have "i = i\<lparr>i_interface := i_interface i\<rparr>" by simp
  ultimately show ?thesis by metis
qed

lemma own_finish_up:
  assumes "valid_name (i_name i)" and j: "i_name j = i_name i" "store_params s j = store_params s i"
  shows "keeps (emits (own_event s i)) (finish_up s j strict st)"
  unfolding finish_up_def
proof (rule ev.keeps_bnd_result)
  show "keeps (emits (own_event s i)) (record_interface s j st)"
    unfolding record_interface_def Let_def by (intro frame_intros own_client_ops own_save) (simp_all add: j)
  fix k w w'
  assume "record_interface s j st w = (Inr k, w')"
  from record_interface_name [OF this] j have k: "i_name k = i_name i" "store_params s k = store_params s i" by auto
  have "keeps (emits (own_event s i)) (apply_from_status k st)"
    using own_dns_ops(1) [of k s st] own_event_same_name [of k i s] assms(1) k(1) by simp
  moreover have "keeps (emits (own_event s i)) (check_conflicts s k strict)"
    unfolding check_conflicts_def k(2) by (intro frame_intros own_ops) simp_all
  ultimately show "keeps (emits (own_event s i)) (bnd (caught (apply_from_status k st))
      (\<lambda>r. thn (warn_if_failed r (\<lambda>t. t)) (check_conflicts s k strict)))"
    by (intro frame_intros) simp_all
qed

lemma own_log_in: "keeps (emits (own_event s i)) (log_in s i)"
  unfolding log_in_def instance_hostname_def sso_flow_def Let_def
  by (intro frame_intros own_client_ops own_save) simp_all

lemma own_up:
  assumes "valid_name (i_name i)"
  shows "keeps (emits (own_event s i)) (up s i strict)"
proof -
  let ?sock = "p_socket_path (store_params s i)"
  have "keeps (emits (own_event s i)) (bnd (if i_logged_in i then ret i else log_in s i) (\<lambda>i1.
      thn (wrap (about (i_name i)) (engine_up ?sock))
         (bnd (wrap (about (i_name i) @ '' came up but status failed'') (status ?sock)) (finish_up s i1 strict))))"
  proof (rule ev.keeps_bnd_result)
    show "keeps (emits (own_event s i)) (if i_logged_in i then ret i else log_in s i)"
      using own_log_in by (simp add: ev.keeps_ret)
    fix j w w'
    assume "(if i_logged_in i then ret i else log_in s i) w = (Inr j, w')"
    then have "i_name j = i_name i" "store_params s j = store_params s i"
      by (auto dest: log_in_name split: if_splits)
    then show "keeps (emits (own_event s i)) (thn (wrap (about (i_name i)) (engine_up ?sock))
         (bnd (wrap (about (i_name i) @ '' came up but status failed'') (status ?sock)) (finish_up s j strict)))"
      by (intro ev.keeps_thn ev.keeps_wrap ev.keeps_bnd own_client_ops own_finish_up [OF assms])
  qed
  then show ?thesis
    unfolding up_def Let_def
    by (intro ev.keeps_thn ev.keeps_wrap ev.keeps_bnd [OF ev.keeps_asks] own_daemon_ops own_client_ops keeps_dial)
qed

lemma own_down: "keeps (emits (own_event s i)) (down s i)"
  unfolding down_def stop_engine_def Let_def by (intro frame_intros own_ops) simp_all

lemma own_remove: "keeps (emits (own_event s i)) (remove_instance s i purge)"
  unfolding remove_instance_def by (intro frame_intros own_down own_ops) simp_all

lemma own_nuke: "keeps (emits (own_event s i)) (nuke_instance s i)"
  unfolding nuke_instance_def by (intro frame_intros own_ops)

lemma own_status:
  assumes "valid_name (i_name i)"
  shows "keeps (emits (own_event s i)) (status_one s i)"
  unfolding status_one_def register_dns_def backfill_def Let_def
  by (intro frame_intros own_ops own_save) (simp_all add: assms)

lemma apply_changes_name [simp]: "i_name (fst (apply_changes ch i)) = i_name i"
  by (auto simp: apply_changes_def Let_def split: option.split prod.split if_splits)

lemma own_set: "keeps (emits (own_event s i)) (set_instance s i ch)"
proof -
  let ?j = "fst (apply_changes ch i)"
  have "keeps (emits (own_event s ?j)) (push_config s ?j)"
    unfolding push_config_def Let_def by (intro frame_intros own_ops) simp_all
  then have pc: "keeps (emits (own_event s i)) (push_config s ?j)"
    using own_event_same_name [of ?j i s] by simp
  have rd: "keeps (emits (own_event s i)) (remove_host_dns (i_name i))" by (rule own_dns_ops)
  have sv: "keeps (emits (own_event s i)) (save s ?j)" by (rule own_save) simp
  obtain j n where jn: "apply_changes ch i = (j, n)" by (cases "apply_changes ch i")
  show ?thesis
    using pc rd sv unfolding set_instance_def jn by (auto intro!: frame_intros)
qed

lemma own_commands:
  assumes "valid_name (i_name i)"
    and "w' \<in> {snd (up s i strict w), snd (down s i w), snd (remove_instance s i purge w),
               snd (nuke_instance s i w), snd (status_one s i w), snd (set_instance s i ch w)}"
  shows "emits (own_event s i) w w'"
  using assms(2)
  by (elim insertE emptyE)
    (simp_all add: own_up [OF assms(1), unfolded keeps_def] own_down [unfolded keeps_def]
      own_remove [unfolded keeps_def] own_nuke [unfolded keeps_def]
      own_status [OF assms(1), unfolded keeps_def] own_set [unfolded keeps_def])

text \<open>What own events do to files: nodes that are there change only among the instance's own.\<close>

definition belongs :: "store \<Rightarrow> inst \<Rightarrow> string \<Rightarrow> bool" where
  "belongs s i q \<longleftrightarrow> q \<in> set (owned_paths (store_params s i)) \<or> below (p_dir (store_params s i)) q"

lemma own_affects: "own_event s i (EvFs f) \<Longrightarrow> affects f q \<Longrightarrow> \<not> adds_only f \<Longrightarrow> belongs s i q"
  by (cases f) (auto simp: own_event_def belongs_def adds_only_def Let_def)

lemma own_changes:
  assumes "emits (own_event s i) w w'" and "quiet w" and "map_of (w_fs w) q = Some n"
    and "map_of (w_fs w') q \<noteq> Some n"
  shows "belongs s i q"
  using emits_affects [OF assms(1,2), of q] assms(3,4) own_affects by fastforce

lemma belongs_parts:
  assumes "valid_name (i_name i)" and "belongs s i q"
    and "\<not> below (p_dir (store_params s i)) (p_pid_file (store_params s i))"
  shows "(\<exists>k. path_parts q = k @ i_name i # path_parts (s_root s) \<and> is_rooted q = is_rooted (s_root s)) \<or>
    (\<exists>x. path_parts q = (i_name i @ x) # path_parts (s_run s) \<and> is_rooted q = is_rooted (s_run s) \<and>
       x \<in> {''.sock'', ''.pid''})"
proof -
  from assms(2) consider "q \<in> set (owned_paths (store_params s i))" | "below (p_dir (store_params s i)) q"
    by (auto simp: belongs_def)
  then show ?thesis
  proof cases
    case 1
    from owned_paths_parts [OF assms(1) this [unfolded store_params_def]] show ?thesis by blast
  next
    case 2
    then show ?thesis using assms(1) by (auto simp: below_def store_params_def path_simps valid_name_plain)
  qed
qed

lemma belongs_apart:
  assumes v: "valid_name (i_name i)" "valid_name (i_name j)" "i_name i \<noteq> i_name j"
    and a: "\<not> below (p_dir (store_params s i)) (p_pid_file (store_params s i))"
      "\<not> below (p_dir (store_params s j)) (p_pid_file (store_params s j))"
    and q: "belongs s i q" "belongs s j q"
  shows False
proof -
  have run: "\<not> (is_rooted (s_run s) = is_rooted (s_root s) \<and> (\<exists>k. path_parts (s_run s) = k @ i_name x # path_parts (s_root s)))"
    if "valid_name (i_name x)" "\<not> below (p_dir (store_params s x)) (p_pid_file (store_params s x))" for x
    using that by (auto simp: below_def store_params_def path_simps valid_name_plain)
  have cross: False
    if "path_parts q = k @ i_name x # path_parts (s_root s)" "is_rooted q = is_rooted (s_root s)"
      "path_parts q = e # path_parts (s_run s)" "is_rooted q = is_rooted (s_run s)" "valid_name (i_name x)"
      "\<not> below (p_dir (store_params s x)) (p_pid_file (store_params s x))" "e \<noteq> i_name x" for k x e
    using run [OF that(5,6)] that(1-4,7) by (cases k) auto
  have dot: "n @ x \<noteq> m" if "valid_name m" "x \<in> {''.sock'', ''.pid''}" for n m x
    using valid_name_no_special(2) [OF that(1)] that(2) by auto
  from belongs_parts [OF v(1) q(1) a(1)] belongs_parts [OF v(2) q(2) a(2)] show False
  proof (elim disjE exE conjE)
    fix k l
    assume "path_parts q = k @ i_name i # path_parts (s_root s)" "path_parts q = l @ i_name j # path_parts (s_root s)"
    then show False using v(3) by (metis append_Cons_eq_iff append_eq_append_conv length_append list.inject list.size(4) add_right_cancel)
  next
    fix x y
    assume x: "path_parts q = (i_name i @ x) # path_parts (s_run s)" "x \<in> {''.sock'', ''.pid''}"
      and y: "path_parts q = (i_name j @ y) # path_parts (s_run s)" "y \<in> {''.sock'', ''.pid''}"
    from x(1) y(1) have "i_name i @ x = i_name j @ y" by simp
    from dotted_name_inject [OF v(1,2) x(2) y(2) this] v(3) show False by blast
  next
    fix k x
    assume "path_parts q = k @ i_name i # path_parts (s_root s)" "is_rooted q = is_rooted (s_root s)"
      "path_parts q = (i_name j @ x) # path_parts (s_run s)" "is_rooted q = is_rooted (s_run s)" "x \<in> {''.sock'', ''.pid''}"
    with cross [of k i "i_name j @ x"] dot [OF v(1)] v(1) a(1) show False by blast
  next
    fix k x
    assume "path_parts q = k @ i_name j # path_parts (s_root s)" "is_rooted q = is_rooted (s_root s)"
      "path_parts q = (i_name i @ x) # path_parts (s_run s)" "is_rooted q = is_rooted (s_run s)" "x \<in> {''.sock'', ''.pid''}"
    with cross [of k j "i_name i @ x"] dot [OF v(2)] v(2) a(2) show False by blast
  qed
qed

section \<open>The order of events in up\<close>

definition not_up :: "event \<Rightarrow> bool" where
  "not_up e \<longleftrightarrow> (case e of EvRpc sock r \<Rightarrow> r \<noteq> RpcUp | _ \<Rightarrow> True)"

lemma not_up_simps [simp]:
  "not_up (EvFs f)" "not_up (EvExec a t)" "not_up (EvSpawn b a n)" "not_up (EvKill pid sig)"
  "not_up (EvSleep d)" "not_up EvIfaces" "not_up (EvWarn t)" "not_up (EvPrint t)" "not_up (EvError t)" "not_up (EvOut t)"
  "not_up (EvRpc sock r) \<longleftrightarrow> r \<noteq> RpcUp" "set_config_request cp \<noteq> RpcUp"
  by (simp_all add: not_up_def set_config_request_def)

lemma looks_not_up: "looks e \<Longrightarrow> not_up e"
  by (auto simp: looks_def not_up_def split: event.splits)

text \<open>What happens before the engine is ordered up.\<close>

definition prepare :: "store \<Rightarrow> inst \<Rightarrow> inst op" where
  "prepare s i =
     (let p = store_params s i
      in bnd (asks (\<lambda>w. e_os (w_env w))) (\<lambda>os.
         thn (start i p (daemon_env_of os))
        (thn (dial (p_socket_path p))
        (thn (wrap (about (i_name i)) (wait_ready (p_socket_path p) 15000))
             (if i_logged_in i then ret i else log_in s i)))))"

definition bring_up :: "store \<Rightarrow> inst \<Rightarrow> bool \<Rightarrow> inst \<Rightarrow> unit op" where
  "bring_up s i strict i1 =
     thn (wrap (about (i_name i)) (engine_up (p_socket_path (store_params s i))))
    (bnd (wrap (about (i_name i) @ '' came up but status failed'') (status (p_socket_path (store_params s i))))
         (finish_up s i1 strict))"

lemma up_parts: "up s i strict = bnd (prepare s i) (bring_up s i strict)"
  unfolding up_def prepare_def bring_up_def [abs_def] Let_def thn_def bnd_assoc
  by (simp add: bnd_assoc)

lemma not_up_log_in: "keeps (emits not_up) (log_in s i)"
  unfolding log_in_def instance_hostname_def sso_flow_def Let_def by (intro frame_intros) simp_all

lemma not_up_prepare: "keeps (emits not_up) (prepare s i)"
  unfolding prepare_def Let_def by (intro frame_intros not_up_log_in) simp_all

lemma not_up_rest:
  "keeps (emits not_up) (bnd (wrap t (status sock)) (finish_up s i strict))"
proof -
  have "keeps (emits not_up) (apply_from_status i st)" for i st
    unfolding apply_from_status_def apply_host_dns_def darwin_apply_host_dns_def list_multibird_keys_def
      require_root_def flush_dns_cache_def Let_def
    by (auto split: sum.split derive_error.split intro!: frame_intros)
  moreover have "keeps (emits not_up) (conflicts_involving s name)" for name
    by (rule keeps_mono [OF looks_conflicts looks_not_up])
  ultimately show ?thesis
    unfolding finish_up_def record_interface_def check_conflicts_def Let_def
    by (intro frame_intros) simp_all
qed

lemma emits_hist: "emits P w w' \<Longrightarrow> w_hist w' = new_events w w' @ w_hist w"
  by (auto simp: emits_def new_events_def)

lemma new_events_append: "w_hist w' = es @ w_hist w \<Longrightarrow> new_events w w' = es"
  by (simp add: new_events_def)

lemma rpc_call_hist: "rpc_call sock q w = (r, w') \<Longrightarrow> w_hist w' = EvRpc sock q # w_hist w"
  by (auto simp: rpc_call_def callout_def)

lemma rpc_login_hist: "rpc_login sock k u h w = (r, w') \<Longrightarrow> w_hist w' = EvRpc sock (RpcLogin k u h) # w_hist w"
  by (auto simp: rpc_login_def callout_def)

lemma keeps_any: "keeps (emits (\<lambda>_. True)) m \<Longrightarrow> m w = (r, w') \<Longrightarrow> \<exists>es. w_hist w' = es @ w_hist w"
  by (auto dest!: keepsD simp: emits_def)

lemma log_in_hist:
  assumes "log_in s i w = (Inr j, w')"
  shows "\<exists>hint host a b c. w_hist w' = a @ EvRpc (p_socket_path (store_params s i)) (set_config_request (config_for s i hint))
     # b @ EvRpc (p_socket_path (store_params s i)) (RpcLogin (i_setup_key i) (i_management_url i) host) # c @ w_hist w"
proof -
  let ?sock = "p_socket_path (store_params s i)"
  obtain host w1 ch w2 u2 w3 hint w4 u4 w5 u5
    where 1: "instance_hostname (i_name i) w = (Inr host, w1)"
      and 2: "login ?sock \<lparr>l_setup_key = i_setup_key i, l_management_url = i_management_url i, l_hostname = host\<rparr> w1 = (Inr ch, w2)"
      and 3: "(case ch of None \<Rightarrow> ret () | Some c \<Rightarrow> sso_flow i ?sock host c) w2 = (Inr u2, w3)"
      and 4: "interface_hint (i_index i) w3 = (Inr hint, w4)"
      and 5: "set_config ?sock (config_for s i hint) w4 = (Inr u4, w5)"
      and 6: "save s (i\<lparr>i_logged_in := True\<rparr>) w5 = (Inr u5, w')"
    using assms unfolding log_in_def Let_def by (auto simp: op_results)
  let ?any = "emits (\<lambda>_. True)"
  have k: "keeps ?any (instance_hostname (i_name i))" "keeps ?any (save s (i\<lparr>i_logged_in := True\<rparr>))"
    "keeps ?any (case ch of None \<Rightarrow> ret () | Some c \<Rightarrow> sso_flow i ?sock host c)" "keeps ?any (interface_hint (i_index i))"
    unfolding instance_hostname_def sso_flow_def by (intro frame_intros TrueI)+
  note keeps_any [OF k(1) 1] keeps_any [OF k(3) 3] keeps_any [OF k(4) 4] keeps_any [OF k(2) 6]
  moreover have "w_hist w2 = EvRpc ?sock (RpcLogin (i_setup_key i) (i_management_url i) host) # w_hist w1"
    using 2 by (auto simp: login_def op_results dest: rpc_login_hist)
  moreover have "w_hist w5 = EvRpc ?sock (set_config_request (config_for s i hint)) # w_hist w4"
    using 5 by (auto simp: set_config_def dest: rpc_call_hist)
  ultimately show ?thesis by (metis append.assoc append_Cons)
qed

lemma up_engine:
  assumes "up s i strict w = (r, w')" and "EvRpc sk RpcUp \<in> set (new_events w w')"
  obtains j w1 w2 where "prepare s i w = (Inr j, w1)" and "emits not_up w w1"
    and "w_hist w2 = EvRpc (p_socket_path (store_params s i)) RpcUp # w_hist w1" and "emits not_up w2 w'"
proof -
  let ?sock = "p_socket_path (store_params s i)"
  obtain x w1 where 1: "prepare s i w = (x, w1)" by (cases "prepare s i w")
  have e1: "emits not_up w w1" by (rule keepsD [OF not_up_prepare 1])
  show thesis
  proof (cases x)
    case (Inl e)
    with assms(1) 1 have "w' = w1" by (simp add: up_parts bnd_def)
    with assms(2) emits_new_events [OF e1] show thesis by fastforce
  next
    case (Inr j)
    obtain y w2 where 2: "rpc_call ?sock RpcUp w1 = (y, w2)" by (cases "rpc_call ?sock RpcUp w1")
    have "emits not_up w2 w'"
    proof (cases y)
      case (Inl e)
      with assms(1) 1 2 Inr have "w' = w2"
        by (simp add: up_parts bring_up_def engine_up_def bnd_def thn_def wrap_def)
      then show ?thesis by (simp add: emits_refl)
    next
      case (Inr u)
      with assms(1) 1 2 \<open>x = Inr j\<close>
      have "bnd (wrap (about (i_name i) @ '' came up but status failed'') (status ?sock)) (finish_up s j strict) w2 = (r, w')"
        by (simp add: up_parts bring_up_def engine_up_def bnd_def thn_def wrap_def)
      then show ?thesis by (rule keepsD [OF not_up_rest])
    qed
    with that 1 e1 rpc_call_hist [OF 2] Inr show thesis by blast
  qed
qed

lemma prepare_hist:
  assumes "prepare s i w = (Inr j, w')" and "\<not> i_logged_in i"
  shows "\<exists>hint host a b c. w_hist w' = a @ EvRpc (p_socket_path (store_params s i)) (set_config_request (config_for s i hint))
     # b @ EvRpc (p_socket_path (store_params s i)) (RpcLogin (i_setup_key i) (i_management_url i) host) # c @ w_hist w"
proof -
  let ?P = "bnd (asks (\<lambda>w. e_os (w_env w))) (\<lambda>os. thn (start i (store_params s i) (daemon_env_of os))
    (thn (dial (p_socket_path (store_params s i)))
         (wrap (about (i_name i)) (wait_ready (p_socket_path (store_params s i)) 15000))))"
  have "prepare s i = thn ?P (log_in s i)"
    using assms(2) by (simp add: prepare_def Let_def thn_def bnd_assoc)
  then obtain u w1 where 1: "?P w = (Inr u, w1)" and 2: "log_in s i w1 = (Inr j, w')"
    using assms(1) by (auto simp: thn_result)
  have k: "keeps (emits (\<lambda>_. True)) ?P" by (intro frame_intros TrueI)
  from keeps_any [OF k 1] log_in_hist [OF 2] show ?thesis by (metis append.assoc)
qed

lemma only_occurrence:
  assumes "as @ x # bs = cs @ y # ds" and "\<not> P x" and "\<not> P y" and "\<forall>z \<in> set as \<union> set bs. P z"
  shows "as = cs \<and> x = y \<and> bs = ds"
  using assms by (auto simp: append_eq_append_conv2 Cons_eq_append_conv append_eq_Cons_conv)

lemma prepare_same:
  assumes "prepare s i w = (Inr j, w')"
  shows "i_name j = i_name i" and "store_params s j = store_params s i"
  using assms unfolding prepare_def Let_def
  by (auto simp: op_results split: if_splits dest!: log_in_name)

lemma strict_check:
  assumes "check_conflicts s i True v = (Inr (), w')"
  shows "\<exists>r v'. conflicts_involving s (i_name i) v = (r, v') \<and>
    (case r of Inl e \<Rightarrow> w_hist w' = EvWarn (''preflight check skipped: '' @ err_text e) # w_hist v'
             | Inr out \<Rightarrow> out = [] \<and> w' = v')"
proof -
  obtain r v' where r: "conflicts_involving s (i_name i) v = (r, v')" by (cases "conflicts_involving s (i_name i) v")
  show ?thesis
  proof (cases r)
    case (Inl e)
    then show ?thesis
      using assms r by (auto simp: check_conflicts_def bnd_attempt warnf_def tell_def log_event_def)
  next
    case (Inr out)
    then show ?thesis
      using assms r by (cases "out = []") (auto simp: check_conflicts_def bnd_attempt thn_result)
  qed
qed

section \<open>Properties\<close>

text \<open>C8: The engine never runs on netbird's defaults.  When \<^verbatim>\<open>up\<close> of an instance that has no login
  yet orders an engine up, it is the instance's own, it does so once, and before that, on the same
  socket and in this order, it has logged the instance in and has sent the instance's isolation
  parameters (management URL, interface name, its own WireGuard port, its DNS mode).  Events are listed
  latest first.\<close>

theorem up_configures_first:
  assumes "\<not> i_logged_in i" and "up s i strict w = (r, w')"
    and "new_events w w' = newer @ EvRpc sk RpcUp # older"
  shows "sk = p_socket_path (store_params s i) \<and> (\<forall>e \<in> set newer \<union> set older. not_up e) \<and>
    (\<exists>hint host a b c. older = a @ EvRpc sk (set_config_request (config_for s i hint))
       # b @ EvRpc sk (RpcLogin (i_setup_key i) (i_management_url i) host) # c)"
proof -
  let ?up = "EvRpc (p_socket_path (store_params s i)) RpcUp"
  obtain j w1 w2 where p: "prepare s i w = (Inr j, w1)" "emits not_up w w1"
    and u: "w_hist w2 = ?up # w_hist w1" "emits not_up w2 w'"
    using up_engine [OF assms(2), of sk] assms(3) by auto
  have "w_hist w' = (new_events w2 w' @ ?up # new_events w w1) @ w_hist w"
    using emits_hist [OF p(2)] emits_hist [OF u(2)] u(1) by simp
  then have new: "new_events w w' = new_events w2 w' @ ?up # new_events w w1" by (rule new_events_append)
  have clean: "\<forall>z \<in> set (new_events w2 w') \<union> set (new_events w w1). not_up z"
    using emits_new_events [OF p(2)] emits_new_events [OF u(2)] by blast
  have split: "new_events w2 w' = newer" "?up = EvRpc sk RpcUp" "new_events w w1 = older"
    using only_occurrence [OF trans [OF new [symmetric] assms(3)] _ _ clean] by simp_all
  obtain hint host a b c where h: "w_hist w1 = (a @ EvRpc sk (set_config_request (config_for s i hint))
       # b @ EvRpc sk (RpcLogin (i_setup_key i) (i_management_url i) host) # c) @ w_hist w"
    using prepare_hist [OF p(1) assms(1)] split(2) by auto
  then have "older = a @ EvRpc sk (set_config_request (config_for s i hint))
       # b @ EvRpc sk (RpcLogin (i_setup_key i) (i_management_url i) host) # c"
    using split(3) new_events_append [OF h] by simp
  moreover have "sk = p_socket_path (store_params s i)" using split(2) by simp
  ultimately show ?thesis using clean unfolding split by blast
qed


text \<open>C4: And the files of another instance stay as they are.  While no other process changes files, every file
  that is there in the directory of another instance, with netbird's own below it, and the other's
  socket and pid file, are after any of these commands what they were before.  This needs the run directory
  not to lie within the directory of either.\<close>

theorem siblings_kept:
  assumes "valid_name (i_name i)" and "valid_name (i_name j)" and "i_name i \<noteq> i_name j"
    and "w' \<in> {snd (up s i strict w), snd (down s i w), snd (remove_instance s i purge w),
               snd (nuke_instance s i w), snd (status_one s i w), snd (set_instance s i ch w)}"
    and "quiet w" and "\<not> below (p_dir (store_params s i)) (p_pid_file (store_params s i))"
    and "\<not> below (p_dir (store_params s j)) (p_pid_file (store_params s j))"
    and "q \<in> set (owned_paths (store_params s j)) \<or> below (p_dir (store_params s j)) q"
    and "map_of (w_fs w) q = Some n"
  shows "map_of (w_fs w') q = Some n"
proof (rule ccontr)
  assume "map_of (w_fs w') q \<noteq> Some n"
  from own_changes [OF own_commands [OF assms(1,4)] assms(5,9) this] have "belongs s i q" .
  with belongs_apart [OF assms(1-3,6,7)] assms(8) show False by (auto simp: belongs_def)
qed

text \<open>C14: A strict \<^verbatim>\<open>up\<close> that succeeds has passed preflight.  The last thing it did was the conflict
  check, which found nothing for this instance: among the running instances then none clashes with it
  (when they have different names).  The one exception is a check that could not run at all, which ends
  in a warning.\<close>

theorem strict_up_passes_preflight:
  assumes "up s i True w = (Inr (), w')"
  shows "\<exists>v r v'. emits (\<lambda>_. True) w v \<and> conflicts_involving s (i_name i) v = (r, v') \<and>
    (case r of
       Inl e \<Rightarrow> w_hist w' = EvWarn (''preflight check skipped: '' @ err_text e) # w_hist v'
     | Inr out \<Rightarrow> out = [] \<and> w' = v' \<and>
         (\<forall>insts v1 snaps v2. list_store s v = (Inr insts, v1) \<and> distinct (map i_name insts) \<and>
            snapshot_running s v = (Inr snaps, v2) \<longrightarrow>
            (\<forall>a \<in> set snaps. \<forall>b \<in> set snaps. a \<noteq> b \<and> i_name i \<in> {sn_name a, sn_name b} \<longrightarrow> \<not> clash a b)))"
proof -
  let ?sock = "p_socket_path (store_params s i)"
  obtain j w1 st w2 k w3 x w4 y w5 u
    where 1: "prepare s i w = (Inr j, w1)" and 2: "engine_up ?sock w1 = (Inr u, w2)"
      and 3: "status ?sock w2 = (Inr st, w3)" and 4: "record_interface s j st w3 = (Inr k, w4)"
      and 5: "caught (apply_from_status k st) w4 = (Inr x, w5)"
      and 6: "thn (warn_if_failed x (\<lambda>t. t)) (check_conflicts s k True) w5 = (Inr (), w')"
    using assms unfolding up_parts bring_up_def finish_up_def by (auto simp: op_results)
  have names: "i_name k = i_name i" "store_params s k = store_params s i"
    using prepare_same [OF 1] record_interface_name [OF 4] by auto
  obtain v where 7: "warn_if_failed x (\<lambda>t. t) w5 = (Inr (), v)" "check_conflicts s k True v = (Inr (), w')"
    using 6 by (auto simp: thn_result)
  let ?any = "emits (\<lambda>_. True)"
  have k: "keeps ?any (prepare s i)" "keeps ?any (engine_up ?sock)" "keeps ?any (status ?sock)"
    "keeps ?any (record_interface s j st)" "keeps ?any (caught (apply_from_status k st))"
    "keeps ?any (warn_if_failed x (\<lambda>t. t))"
    unfolding prepare_def log_in_def instance_hostname_def sso_flow_def record_interface_def Let_def
      apply_from_status_def apply_host_dns_def darwin_apply_host_dns_def list_multibird_keys_def
      require_root_def flush_dns_cache_def
    by ((intro frame_intros TrueI)+)[4] (auto split: sum.split derive_error.split intro!: frame_intros)
  have "?any w v"
    using keepsD [OF k(1) 1] keepsD [OF k(2) 2] keepsD [OF k(3) 3] keepsD [OF k(4) 4] keepsD [OF k(5) 5]
      keepsD [OF k(6) 7(1)] emits_trans by metis
  moreover obtain r v' where r: "conflicts_involving s (i_name i) v = (r, v')"
    "case r of Inl e \<Rightarrow> w_hist w' = EvWarn (''preflight check skipped: '' @ err_text e) # w_hist v'
             | Inr out \<Rightarrow> out = [] \<and> w' = v'"
    using strict_check [OF 7(2)] names by auto
  moreover have "\<forall>a \<in> set snaps. \<forall>b \<in> set snaps. a \<noteq> b \<and> i_name i \<in> {sn_name a, sn_name b} \<longrightarrow> \<not> clash a b"
    if "r = Inr []" "list_store s v = (Inr insts, v1)" "distinct (map i_name insts)"
      "snapshot_running s v = (Inr snaps, v2)" for insts v1 snaps v2
    using conflicts_exact [OF r(1) [unfolded that(1)] that(2,3)] that(4) by auto
  ultimately show ?thesis by (cases r) (auto intro!: exI [of _ v])
qed

section \<open>Runs\<close>

definition lone_running :: world where
  "lone_running = two_running\<lparr>w_fs := two_instances @ [(''/run/a.pid'', File ''11'' 420)]\<rparr>"

lemma up_runs:
  "fst (up example_store_at (example_inst ''a'' 2) True lone_running) = Inr ()"
  "EvRpc ''/run/a.sock'' RpcUp \<in> set (new_events two_running (snd (up example_store_at (example_inst ''a'' 2) False two_running)))"
  "EvFs (OpOpenTrunc ''/r/a/instance.toml'' 384) \<in> set (new_events two_running (snd (up example_store_at (example_inst ''a'' 2) False two_running)))"
  by code_simp+

theorem up_configures_first_witness:
  "\<exists>newer older a host rest. new_events two_running (snd (up example_store_at (example_inst ''a'' 2) False two_running)) =
       newer @ EvRpc ''/run/a.sock'' RpcUp # older \<and>
     older = a @ EvRpc ''/run/a.sock'' (RpcLogin ''KEY'' ''https://api.netbird.io'' host) # rest"
proof -
  obtain newer older where split: "new_events two_running (snd (up example_store_at (example_inst ''a'' 2) False two_running)) =
      newer @ EvRpc ''/run/a.sock'' RpcUp # older"
    using split_list [OF up_runs(2)] by blast
  have "\<not> i_logged_in (example_inst ''a'' 2)" by simp
  from up_configures_first [OF this prod.collapse [symmetric] split]
  obtain cfg host a b c where "older = (a @ cfg # b) @ EvRpc ''/run/a.sock'' (RpcLogin ''KEY'' ''https://api.netbird.io'' host) # c"
    by auto
  with split show ?thesis by blast
qed


theorem strict_up_passes_preflight_witness:
  "\<exists>v v'. conflicts_involving example_store_at ''a'' v = (Inr [], v') \<or>
     (\<exists>e. conflicts_involving example_store_at ''a'' v = (Inl e, v'))"
proof -
  obtain w' where "up example_store_at (example_inst ''a'' 2) True lone_running = (Inr (), w')"
    using up_runs(1) by (metis prod.collapse)
  from strict_up_passes_preflight [OF this] show ?thesis by (fastforce split: sum.splits)
qed

text \<open>Instance a is purged; the file of b is still there.\<close>

theorem siblings_kept_witness:
  "let v = snd (remove_instance example_store_at (example_inst ''a'' 2) True lone_running)
   in map_of (w_fs v) ''/r/a/instance.toml'' = None \<and> map_of (w_fs v) ''/r/b/instance.toml'' \<noteq> None"
proof -
  let ?a = "example_inst ''a'' 2" and ?b = "example_inst ''b'' 0" and ?q = "''/r/b/instance.toml''"
  let ?v = "snd (remove_instance example_store_at ?a True lone_running)"
  have "map_of (w_fs ?v) ''/r/a/instance.toml'' = None" by code_simp
  moreover obtain n where n: "map_of (w_fs lone_running) ?q = Some n"
  proof -
    have "map_of (w_fs lone_running) ?q \<noteq> None" by code_simp
    then show ?thesis using that by blast
  qed
  moreover have "map_of (w_fs ?v) ?q = Some n"
  proof (rule siblings_kept [where i = ?a and j = ?b and s = example_store_at])
    show "valid_name (i_name ?a)" "valid_name (i_name ?b)" "i_name ?a \<noteq> i_name ?b"
      "\<not> below (p_dir (store_params example_store_at ?a)) (p_pid_file (store_params example_store_at ?a))"
      "\<not> below (p_dir (store_params example_store_at ?b)) (p_pid_file (store_params example_store_at ?b))"
      "?q \<in> set (owned_paths (store_params example_store_at ?b)) \<or> below (p_dir (store_params example_store_at ?b)) ?q"
      by code_simp+
    show "quiet lone_running" by (simp add: quiet_def lone_running_def two_running_def example_env_def)
  qed (use n in auto)
  ultimately show ?thesis by (simp add: Let_def)
qed

end
