(* ===== verification/Peers.thy ===== *)
theory Peers
  imports Lifecycle
begin

text \<open>
  \<^verbatim>\<open>internal/ops/peers.go\<close>: the peer lists of the instances, as their daemons report them.

  A handshake is its Unix time in seconds and nanoseconds; an unset timestamp of the protocol is one
  that is not valid.
\<close>

section \<open>Peers\<close>

record peer =
  pr_name :: string
  pr_ip :: string
  pr_ipv6 :: string
  pr_status :: string
  pr_relayed :: bool
  pr_handshake :: "(int \<times> int) option"

record instance_peers =
  ip_name :: string
  ip_state :: string
  ip_peers :: "peer list"

definition handshake_of :: "timestamp \<Rightarrow> (int \<times> int) option" where
  "handshake_of t = (if ts_valid t \<and> ts_seconds t > 0 then Some (ts_seconds t, ts_nanos t) else None)"

definition peer_of :: "peer_state \<Rightarrow> peer" where
  "peer_of p =
     \<lparr>pr_name = ps_fqdn p,
      pr_ip = (case cut (ps_ip p) ''/'' of None \<Rightarrow> ps_ip p | Some (before, _) \<Rightarrow> before),
      pr_ipv6 = ps_ipv6 p, pr_status = ps_conn_status p, pr_relayed = ps_relayed p,
      pr_handshake = handshake_of (ps_handshake p)\<rparr>"

text \<open>The order of \<^verbatim>\<open>sort.Slice\<close>: by name, then by address as a string.  Peers that agree in both may
  come in any order there; the model keeps them as the daemon sent them.\<close>

definition peer_key :: "peer \<Rightarrow> string list" where
  "peer_key p = [pr_name p, pr_ip p]"

definition peers_from_status :: "status_response \<Rightarrow> peer list" where
  "peers_from_status st = sort_key peer_key (map peer_of (fs_peers (st_full st)))"

definition peers_one :: "store \<Rightarrow> inst \<Rightarrow> instance_peers op" where
  "peers_one s i =
     (let p = store_params s i; sock = p_socket_path p;
          g = \<lparr>ip_name = i_name i, ip_state = ''stopped'', ip_peers = []\<rparr>
      in bnd (running p) (\<lambda>live.
         if \<not> live then ret g
         else let g = g\<lparr>ip_state := ''daemon-only''\<rparr>
              in bnd (attempt (dial sock)) (\<lambda>d.
                 if \<not> is_ok d then ret g
                 else bnd (attempt (status sock)) (\<lambda>r.
                   case r of
                     Inl _ \<Rightarrow> ret g
                   | Inr st \<Rightarrow> ret (g\<lparr>ip_state := st_status st, ip_peers := peers_from_status st\<rparr>)))))"

definition peers :: "store \<Rightarrow> inst list \<Rightarrow> instance_peers list op" where
  "peers s insts = each (peers_one s) insts"

section \<open>Facts\<close>

lemma running_ok: obtains b w1 where "running p w = (Inr b, w1)"
proof -
  have "\<exists>b w1. running p w = (Inr b, w1)"
    by (auto simp: running_def recorded_alive_def read_pid_def alive_def kill_def callout_def bnd_def attempt_def
        split: prod.splits sum.splits option.splits)
  with that show thesis by blast
qed

lemma each_total:
  assumes "\<And>x v. \<exists>y. fst (f x v) = Inr y \<and> Q x y"
  shows "\<exists>ys. fst (each f xs w) = Inr ys \<and> list_all2 Q xs ys"
proof (induction xs arbitrary: w)
  case (Cons x xs)
  obtain y w1 where y: "f x w = (Inr y, w1)" "Q x y" using assms [of x w] by (metis prod.collapse)
  moreover obtain ys w2 where "each f xs w1 = (Inr ys, w2)" "list_all2 Q xs ys"
    using Cons.IH [of w1] by (metis prod.collapse)
  ultimately show ?case by (simp add: bnd_Inr)
qed simp

lemma peers_one_looks: "keeps (emits looks) (peers_one s i)"
  unfolding peers_one_def Let_def by (intro frame_intros) (simp_all add: looks_def)

lemma cut_char: "c \<notin> set (case cut s [c] of None \<Rightarrow> s | Some (b, _) \<Rightarrow> b)"
proof (cases "c \<in> set s")
  case True
  then obtain b a where "s = b @ c # a" "c \<notin> set b" by (auto dest: split_list_first)
  then show ?thesis by (simp add: cut_char_sep)
qed (simp add: cut_char_no_sep)

lemma bare_ip: "CHR ''/'' \<notin> set (pr_ip (peer_of p))"
  unfolding peer_of_def by (simp add: cut_char)

lemma peers_one_ok: "\<exists>g. fst (peers_one s i w) = Inr g \<and> ip_name g = i_name i \<and>
   (ip_state g \<in> {''stopped'', ''daemon-only''} \<and> ip_peers g = [] \<or>
    (\<exists>v st. fst (status (p_socket_path (store_params s i)) v) = Inr st \<and>
       ip_state g = st_status st \<and> ip_peers g = peers_from_status st))"
proof -
  let ?sock = "p_socket_path (store_params s i)"
  obtain b w1 where r: "running (store_params s i) w = (Inr b, w1)" by (rule running_ok)
  obtain d w2 where d: "dial ?sock w1 = (d, w2)" by (cases "dial ?sock w1")
  obtain x w3 where x: "status ?sock w2 = (x, w3)" by (cases "status ?sock w2")
  show ?thesis
    using r d x by (cases b; cases d; cases x)
      (auto simp: peers_one_def Let_def bnd_Inr bnd_attempt intro!: exI [of _ w2])
qed

section \<open>Properties\<close>

text \<open>The peer view.  \<^verbatim>\<open>Peers\<close> never fails and gives one entry for each instance, in order and under
  its name.  An instance that could not be asked has the state that explains it and no peers; for the
  others the entry is the daemon's own list, none missing and none added, in the order of names and
  then addresses, every address without a prefix length, and a handshake only where the daemon sent a
  valid one after 1970 began.\<close>

theorem peers_exact:
  "\<exists>gs. fst (peers s insts w) = Inr gs \<and> list_all2 (\<lambda>i g. ip_name g = i_name i \<and>
     (ip_state g \<in> {''stopped'', ''daemon-only''} \<and> ip_peers g = [] \<or>
      (\<exists>v st. fst (status (p_socket_path (store_params s i)) v) = Inr st \<and> ip_state g = st_status st \<and>
         mset (ip_peers g) = image_mset peer_of (mset (fs_peers (st_full st))) \<and>
         sorted (map (\<lambda>p. [pr_name p, pr_ip p]) (ip_peers g)) \<and>
         (\<forall>p \<in> set (ip_peers g). CHR ''/'' \<notin> set (pr_ip p) \<and>
            (\<forall>sec ns. pr_handshake p = Some (sec, ns) \<longrightarrow> 0 < sec))))) insts gs"
proof -
  let ?Q = "\<lambda>i g. ip_name g = i_name i \<and>
     (ip_state g \<in> {''stopped'', ''daemon-only''} \<and> ip_peers g = [] \<or>
      (\<exists>v st. fst (status (p_socket_path (store_params s i)) v) = Inr st \<and>
         ip_state g = st_status st \<and> ip_peers g = peers_from_status st))"
  have sorted: "sorted (map (\<lambda>p. [pr_name p, pr_ip p]) (peers_from_status st))" for st
    using sorted_sort_key [of peer_key "map peer_of (fs_peers (st_full st))"]
    by (simp add: peers_from_status_def peer_key_def [abs_def])
  have handshake: "\<forall>sec ns. pr_handshake (peer_of p) = Some (sec, ns) \<longrightarrow> 0 < sec" for p
    by (simp add: peer_of_def handshake_of_def)
  obtain gs where "fst (peers s insts w) = Inr gs" "list_all2 ?Q insts gs"
    using each_total [of "peers_one s" ?Q, OF peers_one_ok] unfolding peers_def by blast
  then show ?thesis
    using sorted bare_ip handshake
    by (fastforce elim!: list_all2_mono simp: peers_from_status_def)
qed

theorem peers_exact_witness:
  "map ip_state (projr (fst (peers example_store_at [example_inst ''a'' 2, example_inst ''c'' 3] two_running))) =
   [''Connected'', ''stopped''] \<and>
   (\<exists>gs. fst (peers example_store_at [example_inst ''a'' 2, example_inst ''c'' 3] two_running) = Inr gs \<and>
     map ip_name gs = [''a'', ''c''])"
proof
  show "map ip_state (projr (fst (peers example_store_at [example_inst ''a'' 2, example_inst ''c'' 3] two_running))) =
    [''Connected'', ''stopped'']" by code_simp
  show "\<exists>gs. fst (peers example_store_at [example_inst ''a'' 2, example_inst ''c'' 3] two_running) = Inr gs \<and>
     map ip_name gs = [''a'', ''c'']"
    using peers_exact [of example_store_at "[example_inst ''a'' 2, example_inst ''c'' 3]" two_running]
    by (auto simp: list_all2_Cons1)
qed

end
