(* ===== verification/Version.thy ===== *)
theory Version
  imports GoStrings
begin

text \<open>
  \<^verbatim>\<open>internal/version/versions.go\<close>: the program's own version string and the range of NetBird
  versions it was tested with.  The triple \<^verbatim>\<open>[3]int\<close> is the type \<open>semver\<close>; the comparison
  \<^verbatim>\<open>cmp\<close> makes it a linear order, which is instantiated so that the library's order facts
  apply to versions.
\<close>

section \<open>The program's own version\<close>

text \<open>The loop of \<^verbatim>\<open>Full\<close> over the build settings: the last revision wins, and a
  \<^verbatim>\<open>vcs.modified\<close> other than \<^verbatim>\<open>true\<close> does not clear the mark.\<close>

fun scan_settings :: "(string \<times> string) list \<Rightarrow> string \<Rightarrow> string \<Rightarrow> string \<times> string" where
  "scan_settings [] r dirty = (r, dirty)"
| "scan_settings ((k, v) # ss) r dirty =
     (if k = ''vcs.revision'' then scan_settings ss v dirty
      else if k = ''vcs.modified'' \<and> v = ''true'' then scan_settings ss r ''-dirty''
      else scan_settings ss r dirty)"

definition full_version :: "string \<Rightarrow> (string \<times> string) list option \<Rightarrow> string" where
  "full_version v info =
     (case info of
        None \<Rightarrow> v
      | Some settings \<Rightarrow>
          (let (r, dirty) = scan_settings settings [] []
           in if r \<noteq> []
              then v @ '' ('' @ (if length r > 12 then take 12 r else r) @ dirty @ '')''
              else v))"

section \<open>Versions\<close>

datatype semver = Semver int int int

definition tested_min :: string where "tested_min = ''0.77.0''"
definition tested_max :: string where "tested_max = ''0.77.1''"

definition strip_suffix :: "string \<Rightarrow> string" where
  "strip_suffix v = takeWhile (\<lambda>c. c \<noteq> CHR ''-'' \<and> c \<noteq> CHR ''+'') v"

definition parse_version :: "string \<Rightarrow> semver option" where
  "parse_version v =
     (case map atoi (split_on CHR ''.'' (strip_suffix (trim_prefix (trim_space v) ''v''))) of
        [Some a, Some b, Some c] \<Rightarrow> Some (Semver a b c)
      | _ \<Rightarrow> None)"

fun cmp :: "semver \<Rightarrow> semver \<Rightarrow> int" where
  "cmp (Semver a b c) (Semver x y z) =
     (if a \<noteq> x then if a < x then -1 else 1
      else if b \<noteq> y then if b < y then -1 else 1
      else if c \<noteq> z then if c < z then -1 else 1
      else 0)"

definition compare :: "string \<Rightarrow> string \<Rightarrow> int option" where
  "compare a b =
     (case parse_version a of
        None \<Rightarrow> None
      | Some pa \<Rightarrow> (case parse_version b of None \<Rightarrow> None | Some pb \<Rightarrow> Some (cmp pa pb)))"

text \<open>The errors of parsing the two constants are dropped; they parse (lemma below), so the zero
  value is never used.\<close>

definition parse_or_zero :: "string \<Rightarrow> semver" where
  "parse_or_zero v = (case parse_version v of Some p \<Rightarrow> p | None \<Rightarrow> Semver 0 0 0)"

definition in_tested_range :: "string \<Rightarrow> bool option" where
  "in_tested_range v =
     (case parse_version v of
        None \<Rightarrow> None
      | Some c \<Rightarrow> Some (cmp c (parse_or_zero tested_min) \<ge> 0 \<and> cmp c (parse_or_zero tested_max) \<le> 0))"

section \<open>Facts\<close>

instantiation semver :: linorder
begin

definition less_eq_semver :: "semver \<Rightarrow> semver \<Rightarrow> bool" where
  "less_eq_semver a b \<longleftrightarrow> cmp a b \<le> 0"

definition less_semver :: "semver \<Rightarrow> semver \<Rightarrow> bool" where
  "less_semver a b \<longleftrightarrow> cmp a b < 0"

instance
proof
  fix a b c :: semver
  show "a < b \<longleftrightarrow> a \<le> b \<and> \<not> b \<le> a"
    by (cases a; cases b) (auto simp: less_eq_semver_def less_semver_def)
  show "a \<le> a" by (cases a) (simp add: less_eq_semver_def)
  show "a \<le> b \<Longrightarrow> b \<le> c \<Longrightarrow> a \<le> c"
    by (cases a; cases b; cases c) (auto simp: less_eq_semver_def split: if_splits)
  show "a \<le> b \<Longrightarrow> b \<le> a \<Longrightarrow> a = b"
    by (cases a; cases b) (auto simp: less_eq_semver_def split: if_splits)
  show "a \<le> b \<or> b \<le> a"
    by (cases a; cases b) (auto simp: less_eq_semver_def)
qed

end

lemma cmp_iff: "cmp a b = (if a < b then -1 else if a = b then 0 else 1)"
  by (cases a; cases b) (auto simp: less_semver_def)

lemma semver_le: "Semver a b c \<le> Semver x y z \<longleftrightarrow> a < x \<or> a = x \<and> (b < y \<or> b = y \<and> c \<le> z)"
  by (auto simp: less_eq_semver_def)

lemma tested_constants:
  "parse_or_zero tested_min = Semver 0 77 0" "parse_or_zero tested_max = Semver 0 77 1"
  by code_simp+

lemma itoa_utoa: "itoa (int n) = utoa n"
  by (simp add: itoa_def)

definition version_string :: "nat \<Rightarrow> nat \<Rightarrow> nat \<Rightarrow> string" where
  "version_string a b c = utoa a @ ''.'' @ utoa b @ ''.'' @ utoa c"

lemma split_version_string:
  "split_on CHR ''.'' (version_string a b c) = [utoa a, utoa b, utoa c]"
proof -
  have "CHR ''.'' \<notin> set (utoa n)" for n by (rule utoa_no) (simp add: is_digit_def)
  then show ?thesis by (simp add: version_string_def split_on_append split_on_no_sep)
qed

text \<open>What a program prints as its version is what is read: a line break, a leading \<^verbatim>\<open>v\<close> and a
  suffix do not change it.\<close>

definition suffix_ok :: "string \<Rightarrow> bool" where
  "suffix_ok s \<longleftrightarrow> s = [] \<or> (hd s \<in> {CHR ''-'', CHR ''+''} \<and> \<not> is_space (last s))"

lemma parse_version_string:
  assumes "int a < 2 ^ 63" and "int b < 2 ^ 63" and "int c < 2 ^ 63"
    and "suffix_ok s" and "p \<in> {[], ''v''}"
  shows "parse_version (p @ version_string a b c @ s) = Some (Semver (int a) (int b) (int c))"
proof -
  let ?v = "version_string a b c"
  have d: "\<And>x n. x \<in> set (utoa n) \<Longrightarrow> is_digit x" using utoa_digits by (auto simp: list_all_iff)
  have ne: "?v \<noteq> []" "is_digit (hd ?v)" "is_digit (last ?v)"
    using d [OF hd_in_set [OF utoa_ne]] d [OF last_in_set [OF utoa_ne]]
    by (simp_all add: version_string_def)
  have sp: "\<not> is_space CHR ''-''" "\<not> is_space CHR ''+''" "\<not> is_space CHR ''v''"
    by (simp_all add: is_space_def)
  have "trim_space (p @ ?v @ s) = p @ ?v @ s"
    using assms(4,5) ne sp digit_not_space by (intro trim_space_id) (auto simp: suffix_ok_def last_append)
  moreover have "trim_prefix (p @ ?v @ s) ''v'' = ?v @ s"
    using assms(5) ne by (cases "?v") (auto simp: trim_prefix_def has_prefix_def is_digit_def)
  moreover have "\<forall>x \<in> set ?v. x \<noteq> CHR ''-'' \<and> x \<noteq> CHR ''+''"
    using d by (auto simp: version_string_def dest: digit_not_sign)
  then have "strip_suffix (?v @ s) = ?v"
    using assms(4) by (cases s) (auto simp: strip_suffix_def suffix_ok_def takeWhile_eq_all_conv)
  ultimately show ?thesis
    using assms(1-3) by (simp add: parse_version_def split_version_string atoi_utoa)
qed

section \<open>Properties\<close>

text \<open>The version gate.  A version that reads as x.y.z, with or without a leading \<^verbatim>\<open>v\<close> and a
  \<^verbatim>\<open>-dev\<close> or \<^verbatim>\<open>+build\<close> suffix, is in the tested range exactly when it is 0.77.0 or 0.77.1; anything
  that does not parse is an error, never a guess.\<close>

theorem tested_range_exact:
  "in_tested_range v =
     map_option (\<lambda>c. c \<in> {Semver 0 77 0, Semver 0 77 1}) (parse_version v) \<and>
   (suffix_ok s \<longrightarrow> int a < 2 ^ 63 \<longrightarrow> int b < 2 ^ 63 \<longrightarrow> int c < 2 ^ 63 \<longrightarrow>
     in_tested_range (''v'' @ version_string a b c @ s) = Some (a = 0 \<and> b = 77 \<and> c \<le> 1))"
proof -
  have *: "cmp x (Semver 0 77 0) \<ge> 0 \<and> cmp x (Semver 0 77 1) \<le> 0 \<longleftrightarrow>
      x \<in> {Semver 0 77 0, Semver 0 77 1}" for x
    by (cases x) auto
  have 1: "in_tested_range u = map_option (\<lambda>c. c \<in> {Semver 0 77 0, Semver 0 77 1}) (parse_version u)" for u
    unfolding in_tested_range_def tested_constants * by (simp split: option.split)
  show ?thesis using 1 parse_version_string [of a b c s "''v''"] by auto
qed

theorem tested_range_exact_witness:
  "in_tested_range ''v0.77.1-dev'' = Some True \<and> in_tested_range ''v0.78.0'' = Some False"
proof -
  have "suffix_ok ''-dev''" "suffix_ok []" by code_simp+
  moreover have "''v'' @ version_string 0 77 1 @ ''-dev'' = ''v0.77.1-dev''"
    "''v'' @ version_string 0 78 0 @ [] = ''v0.78.0''" by code_simp+
  ultimately show ?thesis
    using tested_range_exact [where a = 0 and b = 77 and c = 1 and s = "''-dev''",
        THEN conjunct2, rule_format]
      tested_range_exact [where a = 0 and b = 78 and c = 0 and s = "[]", THEN conjunct2, rule_format]
    by simp
qed

text \<open>\<^verbatim>\<open>Compare\<close> orders the versions: it is 0 exactly on equal triples, turns its sign when the
  arguments are exchanged, is transitive, and fails exactly when one of the two does not parse.\<close>

theorem compare_is_order:
  "(compare a b = None \<longleftrightarrow> parse_version a = None \<or> parse_version b = None) \<and>
   (compare a b = Some 0 \<longleftrightarrow> parse_version a = parse_version b \<and> parse_version a \<noteq> None) \<and>
   compare b a = map_option uminus (compare a b) \<and>
   (compare a b = Some (-1) \<longrightarrow> compare b c = Some (-1) \<longrightarrow> compare a c = Some (-1))"
  by (auto simp: compare_def cmp_iff split: option.splits if_splits)

theorem compare_is_order_witness:
  "compare ''0.9.9'' ''v0.10.0'' = Some (-1) \<and> compare ''v0.10.0'' ''1.0.0'' = Some (-1) \<and>
   compare ''0.9.9'' ''1.0.0'' = Some (-1)"
proof -
  have "compare ''0.9.9'' ''v0.10.0'' = Some (-1)" "compare ''v0.10.0'' ''1.0.0'' = Some (-1)"
    by code_simp+
  with compare_is_order [of "''0.9.9''" "''v0.10.0''" "''1.0.0''"] show ?thesis by simp
qed

end
