(* ===== verification/Doctor.thy ===== *)
theory Doctor
  imports Lifecycle Version
begin

text \<open>
  \<^verbatim>\<open>internal/ops/doctor.go\<close>: the checks of the environment, in the order of the code.

  The binaries are collected in a Go map, whose iteration order is not specified; it is the parameter
  \<open>ord\<close> of the model, of which only \<open>set (ord bins) = set bins\<close> is ever assumed.
\<close>

section \<open>Checks\<close>

record check =
  ck_name :: string
  ck_ok :: bool
  ck_warn :: bool
  ck_detail :: string

definition passed :: "string \<Rightarrow> string \<Rightarrow> check" where
  "passed n d = \<lparr>ck_name = n, ck_ok = True, ck_warn = False, ck_detail = d\<rparr>"

definition warned :: "string \<Rightarrow> string \<Rightarrow> check" where
  "warned n d = \<lparr>ck_name = n, ck_ok = True, ck_warn = True, ck_detail = d\<rparr>"

definition failed :: "string \<Rightarrow> string \<Rightarrow> check" where
  "failed n d = \<lparr>ck_name = n, ck_ok = False, ck_warn = False, ck_detail = d\<rparr>"

text \<open>Every distinct binary: the default and the instances' own.\<close>

definition binaries :: "inst list \<Rightarrow> string list" where
  "binaries insts = remdups (default_bin # filter (\<lambda>b. b \<noteq> []) (map i_netbird_bin insts))"

definition binary_check :: "string \<Rightarrow> check op" where
  "binary_check bin =
     (let name = ''netbird binary ('' @ bin @ '')''; range = tested_min @ ''-'' @ tested_max
      in bnd (attempt (nb_version (runner_bin bin))) (\<lambda>r.
         ret (case r of
                Inl e \<Rightarrow> failed name (err_text e)
              | Inr v \<Rightarrow>
                  (case in_tested_range v of
                     None \<Rightarrow> warned name (''version '' @ quote v @ '' is unparseable; tested range is '' @ range)
                   | Some b \<Rightarrow>
                       if \<not> b then warned name (''version '' @ v @ '' is outside the tested range '' @ range)
                       else passed name (''version '' @ v @ '' (tested range '' @ range @ '')'')))))"

definition stock_port :: int where "stock_port = 51820"

text \<open>The loop over the ports; \<open>owner\<close> is the last instance seen with a port.\<close>

fun port_problems :: "store \<Rightarrow> (int \<Rightarrow> string option) \<Rightarrow> inst list \<Rightarrow> check list" where
  "port_problems s owner [] = []"
| "port_problems s owner (i # is) =
     (let port = p_wg_port (store_params s i)
      in (case owner port of
            None \<Rightarrow> []
          | Some other \<Rightarrow> [failed ''wireguard ports'' (''instances '' @ quote other @ '' and '' @ quote (i_name i) @
                            '' both use WireGuard port '' @ itoa port)]) @
         (if port = stock_port
          then [warned ''wireguard ports'' (''instance '' @ quote (i_name i) @
                  '' uses port 51820, stock netbird's default'')] else []) @
         port_problems s (owner(port \<mapsto> i_name i)) is)"

definition port_checks :: "store \<Rightarrow> inst list \<Rightarrow> check list" where
  "port_checks s insts =
     (let problems = port_problems s Map.empty insts
      in if problems = []
         then [passed ''wireguard ports'' ''no collisions among instances or with stock netbird (51820)'']
         else problems)"

definition conflict_checks :: "store \<Rightarrow> check list op" where
  "conflict_checks s =
     bnd (attempt (conflicts_involving s [])) (\<lambda>r.
       ret (case r of Inl _ \<Rightarrow> [] | Inr cs \<Rightarrow> map (warned ''running conflicts'') cs))"

definition stray_checks :: "inst list \<Rightarrow> check list op" where
  "stray_checks insts =
     bnd (attempt list_host_dns_owners) (\<lambda>r.
       ret (case r of
              Inl e \<Rightarrow> [warned ''host dns'' (''could not inspect dynamic store: '' @ err_text e)]
            | Inr owners \<Rightarrow>
                (let strays = filter (\<lambda>x. x \<notin> set (map i_name insts)) owners
                 in if strays = [] then [passed ''host dns'' ''no stray multibird-* DNS registrations'']
                    else map (\<lambda>x. warned ''host dns'' (''dynamic-store DNS keys belong to unknown instance '' @ quote x)) strays)))"

definition native_checks :: "inst list \<Rightarrow> check list op" where
  "native_checks insts =
     (let natives = length (filter (\<lambda>i. i_dns_mode i = DNSNative) insts)
      in bnd (asks (\<lambda>w. e_os (w_env w))) (\<lambda>os.
         if default_dns_mode os \<noteq> DNSMultibird then ret []
         else bnd (attempt stock_netbird_dns_present) (\<lambda>r.
           let stock = (case r of Inl _ \<Rightarrow> False | Inr b \<Rightarrow> b)
           in ret (if natives \<ge> 2 \<or> (natives \<ge> 1 \<and> stock)
                   then [warned ''host dns'' ''multiple netbird daemons manage macOS DNS natively'']
                   else []))))"

definition run_dir_check :: "store \<Rightarrow> check op" where
  "run_dir_check s =
     (let run = s_run s
      in bnd (attempt (stat run)) (\<lambda>r.
         ret (case r of
                Inr (File _ _) \<Rightarrow> failed ''run dir'' (run @ '' exists but is not a directory'')
              | Inr (Dir _) \<Rightarrow> passed ''run dir'' (run @ '' exists'')
              | Inl _ \<Rightarrow> warned ''run dir'' (run @ '' does not exist yet''))))"

definition stale_pid :: "store \<Rightarrow> inst \<Rightarrow> check list op" where
  "stale_pid s i =
     (let p = store_params s i
      in bnd (read_pid p) (\<lambda>r.
         case r of
           None \<Rightarrow> ret []
         | Some pid \<Rightarrow>
             bnd (alive pid) (\<lambda>live. ret (if live then [] else
               [warned ''leftover state'' (about (i_name i) @ '' has a stale pid file ('' @ p_pid_file p @
                  '', pid '' @ itoa pid @ '' dead)'')]))))"

definition stale_socket :: "store \<Rightarrow> inst \<Rightarrow> check list op" where
  "stale_socket s i =
     (let p = store_params s i
      in bnd (attempt (stat (p_socket_path p))) (\<lambda>r.
         if \<not> is_ok r then ret []
         else bnd (running p) (\<lambda>live. ret (if live then [] else
           [warned ''leftover state'' (about (i_name i) @ '' has a stale socket ('' @ p_socket_path p @ '')'')]))))"

definition leftovers_of :: "store \<Rightarrow> inst \<Rightarrow> check list op" where
  "leftovers_of s i =
     bnd (stale_pid s i) (\<lambda>pids. bnd (stale_socket s i) (\<lambda>socks. ret (pids @ socks)))"

definition leftover_checks :: "store \<Rightarrow> inst list \<Rightarrow> check list op" where
  "leftover_checks s insts =
     bnd (each (leftovers_of s) insts) (\<lambda>css.
       ret (if concat css = [] then [passed ''leftover state'' ''none''] else concat css))"

definition orphan_checks :: "store \<Rightarrow> inst list \<Rightarrow> check list op" where
  "orphan_checks s insts =
     (let known = concat (map (\<lambda>i. [i_name i @ ''.sock'', i_name i @ ''.pid'']) insts)
      in bnd (attempt (read_dir (s_run s))) (\<lambda>r.
         ret (case r of
                Inl _ \<Rightarrow> []
              | Inr entries \<Rightarrow>
                  map (\<lambda>n. warned ''leftover state'' (''unknown file '' @ path_join [s_run s, n] @ '' in run dir''))
                    (filter (\<lambda>n. n \<notin> set known) (map fst entries)))))"

definition doctor :: "(string list \<Rightarrow> string list) \<Rightarrow> store \<Rightarrow> check list op" where
  "doctor ord s =
     bnd (attempt (list_instances s)) (\<lambda>l.
     let insts = (case l of Inl _ \<Rightarrow> [] | Inr is \<Rightarrow> is);
         root = (case l of Inl e \<Rightarrow> [failed ''config root'' (err_text e)] | Inr _ \<Rightarrow> [])
     in bnd (each binary_check (ord (binaries insts))) (\<lambda>bins.
        bnd (conflict_checks s) (\<lambda>conflicts.
        bnd (stray_checks insts) (\<lambda>strays.
        bnd (native_checks insts) (\<lambda>natives.
        bnd (run_dir_check s) (\<lambda>run.
        bnd (leftover_checks s insts) (\<lambda>left.
        bnd (orphan_checks s insts) (\<lambda>orphans.
          ret (root @ bins @ port_checks s insts @ conflicts @ strays @ natives @ [run] @ left @ orphans)))))))))"

section \<open>Facts\<close>

lemma check_simps [simp]:
  "ck_ok (passed n d)" "ck_ok (warned n d)" "\<not> ck_ok (failed n d)"
  "\<not> ck_warn (passed n d)" "ck_warn (warned n d)" "\<not> ck_warn (failed n d)"
  "ck_name (passed n d) = n" "ck_name (warned n d) = n" "ck_name (failed n d) = n"
  by (simp_all add: passed_def warned_def failed_def)

lemma port_failed:
  "(\<exists>c \<in> set (port_problems s owner is). \<not> ck_ok c) \<longleftrightarrow>
     (\<exists>i \<in> set is. owner (p_wg_port (store_params s i)) \<noteq> None) \<or>
     \<not> distinct (map (\<lambda>i. p_wg_port (store_params s i)) is)"
proof (induction s owner "is" rule: port_problems.induct)
  case (2 s owner i "is")
  then show ?case
    by (cases "owner (p_wg_port (store_params s i))") (simp_all add: Let_def bex_Un fun_upd_def, auto, metis image_eqI)
qed simp

lemma port_warned:
  "(\<exists>c \<in> set (port_problems s owner is). ck_warn c) \<longleftrightarrow>
     stock_port \<in> (\<lambda>i. p_wg_port (store_params s i)) ` set is"
proof (induction s owner "is" rule: port_problems.induct)
  case (2 s owner i "is")
  then show ?case
    by (cases "owner (p_wg_port (store_params s i))") (simp_all add: Let_def bex_Un fun_upd_def eq_commute [of stock_port])
qed simp

lemma port_named: "c \<in> set (port_problems s owner is) \<Longrightarrow> ck_name c = ''wireguard ports''"
  by (induction s owner "is" rule: port_problems.induct) (auto simp: Let_def split: option.splits if_splits)

lemma port_bad: "c \<in> set (port_problems s owner is) \<Longrightarrow> \<not> ck_ok c \<or> ck_warn c"
  by (induction s owner "is" rule: port_problems.induct) (auto simp: Let_def split: option.splits if_splits)

lemma port_checks_exact:
  "(\<exists>c \<in> set (port_checks s insts). \<not> ck_ok c) \<longleftrightarrow> \<not> distinct (map (\<lambda>i. p_wg_port (store_params s i)) insts)"
  "(\<exists>c \<in> set (port_checks s insts). ck_warn c) \<longleftrightarrow> stock_port \<in> (\<lambda>i. p_wg_port (store_params s i)) ` set insts"
  "c \<in> set (port_checks s insts) \<Longrightarrow> ck_name c = ''wireguard ports''"
  using port_failed [of s Map.empty insts] port_warned [of s Map.empty insts]
  by (auto simp: port_checks_def Let_def port_named split: if_splits)

text \<open>Every part of the examination but the listing only looks, or lists keys.\<close>

definition inspects :: "event \<Rightarrow> bool" where
  "inspects e \<longleftrightarrow> looks e \<or>
     (\<exists>argv script. e = EvExec argv script \<and>
        script \<in> {list_script, ''list State:/Network/Service/NetBird-.*/DNS'' @ nl @ ''quit'' @ nl})"

lemma inspects_simps [simp]:
  "inspects (EvFs (OpRead p))" "inspects (EvFs (OpStat p))" "inspects (EvFs (OpReadDir p))"
  "inspects (EvKill pid 0)" "inspects (EvExec argv [])" "inspects (EvExec argv list_script)"
  "inspects (EvExec argv (''list State:/Network/Service/NetBird-.*/DNS'' @ nl @ ''quit'' @ nl))"
  by (simp_all add: inspects_def looks_def)

lemma inspects_conflicts: "keeps (emits inspects) (conflicts_involving s n)"
  by (rule keeps_mono [OF looks_conflicts]) (simp add: inspects_def)

lemma inspects_stock: "keeps (emits inspects) stock_netbird_dns_present"
  unfolding stock_netbird_dns_present_def by (intro frame_intros inspects_simps)

definition examine :: "(string list \<Rightarrow> string list) \<Rightarrow> store \<Rightarrow> check list \<Rightarrow> inst list \<Rightarrow> check list op" where
  "examine ord s root insts =
     bnd (each binary_check (ord (binaries insts))) (\<lambda>bins.
     bnd (conflict_checks s) (\<lambda>conflicts.
     bnd (stray_checks insts) (\<lambda>strays.
     bnd (native_checks insts) (\<lambda>natives.
     bnd (run_dir_check s) (\<lambda>run.
     bnd (leftover_checks s insts) (\<lambda>left.
     bnd (orphan_checks s insts) (\<lambda>orphans.
       ret (root @ bins @ port_checks s insts @ conflicts @ strays @ natives @ [run] @ left @ orphans))))))))"

lemma doctor_parts:
  "list_instances s w = (r, w1) \<Longrightarrow> doctor ord s w =
     examine ord s (case r of Inl e \<Rightarrow> [failed ''config root'' (err_text e)] | Inr _ \<Rightarrow> [])
       (case r of Inl _ \<Rightarrow> [] | Inr is \<Rightarrow> is) w1"
  by (simp add: doctor_def examine_def bnd_attempt Let_def)

lemma inspects_examine: "keeps (emits inspects) (examine ord s root insts)"
  unfolding examine_def binary_check_def nb_version_def conflict_checks_def stray_checks_def native_checks_def
    run_dir_check_def leftover_checks_def leftovers_of_def stale_pid_def stale_socket_def orphan_checks_def read_pid_def alive_def Let_def
  by (intro frame_intros inspects_conflicts inspects_stock) simp_all

text \<open>No check fails as an operation, and only the port checks carry the name of the port checks.\<close>

definition other_names :: "check list \<Rightarrow> bool" where
  "other_names cs \<longleftrightarrow> (\<forall>c \<in> set cs. ck_name c \<noteq> ''wireguard ports'')"

definition gives :: "('a \<Rightarrow> bool) \<Rightarrow> 'a op \<Rightarrow> bool" where
  "gives Q m \<longleftrightarrow> (\<forall>w. \<exists>x. fst (m w) = Inr x \<and> Q x)"

lemma gives_ret: "Q x \<Longrightarrow> gives Q (ret x)" by (simp add: gives_def)

lemma gives_bnd: "gives P m \<Longrightarrow> (\<And>x. P x \<Longrightarrow> gives Q (f x)) \<Longrightarrow> gives Q (bnd m f)"
  unfolding gives_def bnd_def by (auto split: prod.splits sum.splits) (metis fst_conv sum.inject(2) sum.distinct(1))+

lemma gives_attempt: "gives (\<lambda>_. True) (attempt m)"
  by (auto simp: gives_def attempt_def split: prod.splits)

lemma gives_asks: "gives (\<lambda>_. True) (asks f)" by (simp add: gives_def)

lemma gives_each: "(\<And>x. gives Q (f x)) \<Longrightarrow> gives (list_all Q) (each f xs)"
  by (induction xs) (auto intro!: gives_ret gives_bnd)

lemma gives_misc:
  "gives (\<lambda>_. True) (running p)" "gives (\<lambda>_. True) (read_pid p)" "gives (\<lambda>_. True) (alive pid)"
  by (auto simp: gives_def running_def recorded_alive_def read_pid_def alive_def kill_def callout_def bnd_def attempt_def
      split: prod.splits sum.splits option.splits)

lemma check_parts:
  "gives (\<lambda>c. ck_name c \<noteq> ''wireguard ports'') (binary_check bin)"
  "gives other_names (conflict_checks s)" "gives other_names (stray_checks insts)"
  "gives (\<lambda>c. ck_name c \<noteq> ''wireguard ports'') (run_dir_check s)" "gives other_names (orphan_checks s insts)"
  unfolding binary_check_def conflict_checks_def stray_checks_def run_dir_check_def orphan_checks_def Let_def
  by (intro gives_bnd [OF gives_attempt] gives_ret;
      auto simp: other_names_def split: sum.splits option.splits node.splits if_splits)+

lemma native_check_names: "gives other_names (native_checks insts)"
  unfolding native_checks_def Let_def
  by (rule gives_bnd [OF gives_asks], simp, intro impI conjI gives_bnd [OF gives_attempt] gives_ret)
    (auto simp: other_names_def)

lemma leftovers_names: "gives other_names (leftovers_of s i)"
proof -
  have "gives other_names (stale_pid s i)"
    unfolding stale_pid_def Let_def
    by (rule gives_bnd [OF gives_misc(2)])
      (auto split: option.split intro!: gives_bnd [OF gives_misc(3)] gives_ret simp: other_names_def)
  moreover have "gives other_names (stale_socket s i)"
    unfolding stale_socket_def Let_def
    by (rule gives_bnd [OF gives_attempt])
      (auto intro!: gives_bnd [OF gives_misc(1)] gives_ret simp: other_names_def)
  ultimately show ?thesis
    unfolding leftovers_of_def by (elim gives_bnd) (rule gives_ret, auto simp: other_names_def)
qed

lemma leftover_check_names: "gives other_names (leftover_checks s insts)"
proof -
  have "other_names (concat css)" if "list_all other_names css" for css
    using that by (induction css) (auto simp: other_names_def)
  then show ?thesis
    unfolding leftover_checks_def
    by (intro gives_bnd [OF gives_each [OF leftovers_names]] gives_ret) (auto simp: other_names_def)
qed

lemma named_split: "r @ a @ p @ b @ c @ d @ [e] @ f @ g = r @ a @ p @ (b @ c @ d @ [e] @ f @ g)"
  by simp

lemma gives_examine:
  "gives (\<lambda>cs. \<exists>a b. cs = root @ a @ port_checks s insts @ b \<and> other_names a \<and> other_names b) (examine ord s root insts)"
  unfolding examine_def
  by (rule gives_bnd [OF gives_each [OF check_parts(1)]], rule gives_bnd [OF check_parts(2)],
      rule gives_bnd [OF check_parts(3)], rule gives_bnd [OF native_check_names], rule gives_bnd [OF check_parts(4)],
      rule gives_bnd [OF leftover_check_names], rule gives_bnd [OF check_parts(5)], rule gives_ret)
    (unfold other_names_def, rule exI, rule exI, rule conjI [OF named_split], auto simp: list_all_iff)

section \<open>Properties\<close>


definition clashing :: world where
  "clashing = example_world [(''/r'', Dir 448), (''/r/b'', Dir 448),
      (''/r/b/instance.toml'', File (example_enc ((example_inst ''b'' 0)\<lparr>i_wireguard_port := 51902\<rparr>)) 384),
      (''/r/a'', Dir 448), (''/r/a/instance.toml'', File (example_enc (example_inst ''a'' 2)) 384)]"


end
