(* ===== verification/Logs.thy ===== *)
theory Logs
  imports Registry "HOL-Library.Sublist"
begin

text \<open>
  \<^verbatim>\<open>internal/ops/logs.go\<close>: the tail of a daemon's log, and following it.

  The file is opened once.  What later polls find is the environment's: the size that \<^verbatim>\<open>os.Stat\<close> of the
  path reports (nothing while the file is gone), and what the open file holds then, which is another
  file's content than the path's when the log has been rotated.
\<close>

section \<open>Operations\<close>

definition int64 :: "int \<Rightarrow> int" where
  "int64 i = signed_take_bit 63 i"

text \<open>The flag \<^verbatim>\<open>--tail\<close> counts KiB.\<close>

definition tail_bytes :: "int \<Rightarrow> int" where
  "tail_bytes kb = int64 (int64 kb * 1024)"

text \<open>The history printed first, and the position in the file after it.  A negative offset is an error of
  \<^verbatim>\<open>Seek\<close>, one beyond the end is not.\<close>

definition log_start :: "string \<Rightarrow> int \<Rightarrow> err + string \<times> nat" where
  "log_start content tail =
     (let sz = int (length content);
          offset = (if sz > tail then int64 (sz - tail) else 0)
      in if offset < 0 then Inl (ErrSys ''invalid argument'')
         else Inr (drop (nat offset) content, max (nat offset) (length content)))"

record poll =
  pl_stat :: "nat option"
  pl_file :: "string + string"

text \<open>The loop: what it prints over the polls until the context ends, and the error it ends with.\<close>

fun follow :: "nat \<Rightarrow> poll list \<Rightarrow> string \<times> err option" where
  "follow pos [] = ([], None)"
| "follow pos (p # ps) =
     (case pl_stat p of
        None \<Rightarrow> follow pos ps
      | Some sz \<Rightarrow>
          (let pos = (if sz < pos then 0 else pos)
           in case pl_file p of
                Inl m \<Rightarrow> ([], Some (ErrSys m))
              | Inr content \<Rightarrow>
                  (let new = drop pos content; (out, e) = follow (pos + length new) ps
                   in (new @ out, e))))"

definition logs :: "store \<Rightarrow> inst \<Rightarrow> int \<Rightarrow> bool \<Rightarrow> poll list \<Rightarrow> unit op" where
  "logs s i tail following polls =
     bnd (wrap (''opening log for '' @ quote (i_name i)) (read_file (p_log_file (store_params s i)))) (\<lambda>content.
       case log_start content tail of
         Inl e \<Rightarrow> fail e
       | Inr (out, pos) \<Rightarrow>
           thn (write_out out)
              (if \<not> following then ret ()
               else let (out, e) = follow pos polls
                    in thn (write_out out) (case e of None \<Rightarrow> ret () | Some e \<Rightarrow> fail e)))"

section \<open>Facts\<close>

text \<open>The daemon only appends, and \<^verbatim>\<open>os.Stat\<close> sees the file that is open, or none.\<close>

fun grows :: "string \<Rightarrow> poll list \<Rightarrow> bool" where
  "grows c [] \<longleftrightarrow> True"
| "grows c (p # ps) \<longleftrightarrow>
     (case pl_file p of
        Inl _ \<Rightarrow> False
      | Inr d \<Rightarrow> prefix c d \<and> pl_stat p \<in> {None, Some (length d)} \<and> grows d ps)"

text \<open>The content at the last poll that found the file.\<close>

fun seen :: "string \<Rightarrow> poll list \<Rightarrow> string" where
  "seen c [] = c"
| "seen c (p # ps) = (if pl_stat p = None then seen c ps else seen (projr (pl_file p)) ps)"

lemma int64_id: "- (2 ^ 63) \<le> i \<Longrightarrow> i < 2 ^ 63 \<Longrightarrow> int64 i = i"
  unfolding int64_def by (rule signed_take_bit_int_eq_self) simp_all

lemma log_start_tail:
  assumes "0 \<le> tail" and "int (length c) < 2 ^ 63"
  shows "log_start c tail = Inr (drop (length c - nat tail) c, length c)"
proof (cases "tail < int (length c)")
  case True
  then have "int64 (int (length c) - tail) = int (length c) - tail"
    using assms by (intro int64_id) simp_all
  moreover have "nat (int (length c) - tail) = length c - nat tail" using assms by (simp add: nat_diff_distrib)
  ultimately show ?thesis using True by (simp add: log_start_def)
next
  case False
  then show ?thesis by (simp add: log_start_def)
qed

lemma follow_grows:
  assumes "grows c ps" and "prefix d c"
  shows "follow (length d) ps = (drop (length d) (seen d ps), None) \<and> prefix d (seen d ps)"
  using assms
proof (induction ps arbitrary: c d)
  case (Cons p ps)
  then obtain c' where p: "pl_file p = Inr c'" "prefix c c'" "grows c' ps" "pl_stat p \<in> {None, Some (length c')}"
    by (auto split: sum.splits)
  have d: "prefix d c'" using Cons.prems(2) p(2) by (rule prefix_order.trans)
  show ?case
  proof (cases "pl_stat p")
    case None
    with Cons.IH [OF p(3) d] show ?thesis by simp
  next
    case (Some n)
    have len: "length d \<le> length c'" using d by (rule prefix_length_le)
    have IH: "follow (length c') ps = (drop (length c') (seen c' ps), None)" "prefix c' (seen c' ps)"
      using Cons.IH [OF p(3), of c'] by auto
    obtain x y where xy: "c' = d @ x" "seen c' ps = d @ x @ y"
      using d IH(2) by (auto simp: prefix_def)
    show ?thesis using Some p(1,4) len IH(1) xy by (auto simp: Let_def)
  qed
qed simp

text \<open>A rotated log: the path is a shorter file, the open file still the old one.\<close>

lemma rotation_repeats:
  assumes "pl_stat p = Some n" and "n < length c" and "pl_file p = Inr c"
  shows "follow (length c) [p] = (c, None)"
  using assms by simp

section \<open>Properties\<close>

text \<open>C24: Following a log.  While the daemon only appends, what \<^verbatim>\<open>logs --follow\<close> prints is one piece of the
  log without gap or repetition: from \<open>tail\<close> bytes before the end at the start (or from the beginning,
  if there are not as many) to the end at the last poll that found the file.  A negative \<^verbatim>\<open>--tail\<close> skips
  the history.\<close>

theorem logs_follow_exact:
  assumes "read_file (p_log_file (store_params s i)) w = (Inr c, w1)" and "int (length c) < 2 ^ 63"
    and "0 \<le> tail" and "grows c polls"
  shows "\<exists>a b. logs s i tail True polls w = (Inr (), log_event (EvOut b) (log_event (EvOut a) w1)) \<and>
     a @ b = drop (length c - nat tail) (seen c polls)"
proof -
  obtain y where y: "seen c polls = c @ y" "follow (length c) polls = (y, None)"
    using follow_grows [OF assms(4), of c] by (auto simp: prefix_def)
  have "logs s i tail True polls w =
      (Inr (), log_event (EvOut y) (log_event (EvOut (drop (length c - nat tail) c)) w1))"
    using log_start_tail [OF assms(3,2)] y(2) assms(1)
    by (simp add: logs_def thn_def bnd_def wrap_def write_out_def tell_def)
  then show ?thesis using y(1) by auto
qed

definition log_world :: world where
  "log_world = example_world [(''/r/a/daemon.log'', File ''one two '' 384)]"

theorem logs_follow_exact_witness:
  "\<exists>a b. fst (logs example_store_at (example_inst ''a'' 2) 4 True
       [\<lparr>pl_stat = Some 12, pl_file = Inr ''one two thre''\<rparr>, \<lparr>pl_stat = None, pl_file = Inr ''one two three''\<rparr>,
        \<lparr>pl_stat = Some 13, pl_file = Inr ''one two three''\<rparr>] log_world) = Inr () \<and> a @ b = ''two three''"
proof -
  let ?ps = "[\<lparr>pl_stat = Some 12, pl_file = Inr ''one two thre''\<rparr>, \<lparr>pl_stat = None, pl_file = Inr ''one two three''\<rparr>,
        \<lparr>pl_stat = Some 13, pl_file = Inr ''one two three''\<rparr>]"
  have "fst (read_file (p_log_file (store_params example_store_at (example_inst ''a'' 2))) log_world) = Inr ''one two ''"
    by code_simp
  then obtain w1 where r: "read_file (p_log_file (store_params example_store_at (example_inst ''a'' 2))) log_world =
      (Inr ''one two '', w1)" by (metis prod.collapse)
  have "grows ''one two '' ?ps" by (simp add: prefix_def)
  with logs_follow_exact [OF r, of 4 ?ps] show ?thesis by auto
qed

end
