(* ===== verification/Watch.thy ===== *)
theory Watch
  imports Lifecycle
begin

text \<open>
  \<^verbatim>\<open>internal/ops/dns.go\<close>, the watch: one goroutine for each instance in multibird DNS mode keeps the
  host's registrations in step with the daemon's events, and another reads the event stream into a
  channel of eight.

  A watcher is a state machine.  A phase says where \<^verbatim>\<open>watchOne\<close> or \<^verbatim>\<open>watchConnected\<close> stands; a step is one
  case of a \<^verbatim>\<open>select\<close>, one pass of the loop up to its next wait, one event that the reader receives, or
  time going by.  Which ready case a \<^verbatim>\<open>select\<close> takes is open, and so is what comes from the stream.
  Operations on the host are those of the other theories and are steps of their own.
\<close>

section \<open>States\<close>

datatype category = NETWORK | DNS | OtherEvent

text \<open>A connection: the channel, the stream's error if it broke, when the debounce expires and when the
  next poll is due.  The last two fields are not in the code, they only record: an event that matters
  has arrived since the last synchronisation began, and one such event was dropped.\<close>

record conn =
  cn_chan :: "category list"
  cn_broken :: "string option"
  cn_debounce :: "nat option"
  cn_poll :: nat
  cn_stale :: bool
  cn_lost :: bool

datatype phase =
    Checking bool
  | Waiting bool nat
  | Opening
  | Serving conn
  | Ended
  | Crashed

definition watch_debounce :: nat where "watch_debounce = 2000"
definition watch_poll :: nat where "watch_poll = 60000"
definition watch_reconnect :: nat where "watch_reconnect = 10000"

definition relevant :: "category \<Rightarrow> bool" where
  "relevant cat \<longleftrightarrow> cat = NETWORK \<or> cat = DNS"

definition fresh_conn :: "nat \<Rightarrow> conn" where
  "fresh_conn t =
     \<lparr>cn_chan = [], cn_broken = None, cn_debounce = None, cn_poll = t + watch_poll,
      cn_stale = False, cn_lost = False\<rparr>"

text \<open>The reader: it never blocks, a full channel drops the event.\<close>

definition receive :: "category \<Rightarrow> conn \<Rightarrow> conn" where
  "receive cat c =
     (let c = c\<lparr>cn_stale := cn_stale c \<or> relevant cat\<rparr>
      in if length (cn_chan c) < 8 then c\<lparr>cn_chan := cn_chan c @ [cat]\<rparr>
         else c\<lparr>cn_lost := cn_lost c \<or> relevant cat\<rparr>)"

definition take_event :: "nat \<Rightarrow> category \<Rightarrow> category list \<Rightarrow> conn \<Rightarrow> conn" where
  "take_event t cat rest c =
     (let c = c\<lparr>cn_chan := rest\<rparr>
      in if relevant cat then c\<lparr>cn_debounce := Some (t + watch_debounce)\<rparr> else c)"

text \<open>A ticker keeps one tick; those that come while it is kept are dropped.\<close>

definition next_poll :: "nat \<Rightarrow> nat \<Rightarrow> nat" where
  "next_poll due t = due + watch_poll * ((t - due) div watch_poll + 1)"

section \<open>The parts of the loops\<close>

definition sync_or_warn :: "store \<Rightarrow> inst \<Rightarrow> unit op" where
  "sync_or_warn s i = bnd (caught (dns_sync s i)) (\<lambda>r. warn_if_failed r (\<lambda>t. t))"

definition give_up :: "inst \<Rightarrow> err \<Rightarrow> phase op" where
  "give_up i e =
     bnd cancelled (\<lambda>c.
       if c then ret (Checking False)
       else thn (warnf (about (i_name i) @ '': dns watch: '' @ err_text e))
           (bnd now (\<lambda>t. ret (Waiting False (t + watch_reconnect)))))"

text \<open>From the head of \<^verbatim>\<open>watchOne\<close>'s loop to its next wait, or to the opening of the stream.  The argument
  is \<^verbatim>\<open>downCleaned\<close>.\<close>

definition watch_round :: "store \<Rightarrow> inst \<Rightarrow> bool \<Rightarrow> phase op" where
  "watch_round s i down_cleaned =
     (let p = store_params s i
      in bnd cancelled (\<lambda>c.
         if c then ret Ended
         else bnd (running p) (\<lambda>live.
           if \<not> live
           then thn (if down_cleaned then ret () else remove_quietly (i_name i))
               (bnd now (\<lambda>t. ret (Waiting True (t + watch_reconnect))))
           else bnd (attempt (dial (p_socket_path p))) (\<lambda>d.
             case d of
               Inl e \<Rightarrow> give_up i e
             | Inr _ \<Rightarrow> thn (sync_or_warn s i) (ret Opening)))))"

text \<open>Where a phase's operation leads; only a panic is an error here.\<close>

definition goes_to :: "(err + phase) \<Rightarrow> phase" where
  "goes_to r = (case r of Inl _ \<Rightarrow> Crashed | Inr ph \<Rightarrow> ph)"

inductive watch_step :: "store \<Rightarrow> inst \<Rightarrow> phase \<times> world \<Rightarrow> phase \<times> world \<Rightarrow> bool" for s i where
  round: "watch_round s i dc w = (r, w') \<Longrightarrow> watch_step s i (Checking dc, w) (goes_to r, w')"
| opened: "watch_step s i (Opening, w) (Serving (fresh_conn (w_clock w)), w)"
| refused: "give_up i (ErrSys m) w = (r, w') \<Longrightarrow> watch_step s i (Opening, w) (goes_to r, w')"
| received: "cn_broken c = None \<Longrightarrow> watch_step s i (Serving c, w) (Serving (receive cat c), w)"
| breaks: "cn_broken c = None \<Longrightarrow> watch_step s i (Serving c, w) (Serving (c\<lparr>cn_broken := Some m\<rparr>), w)"
| takes: "cn_chan c = cat # rest \<Longrightarrow>
    watch_step s i (Serving c, w) (Serving (take_event (w_clock w) cat rest c), w)"
| settles: "cn_debounce c = Some t \<Longrightarrow> t \<le> w_clock w \<Longrightarrow> sync_or_warn s i w = (r, w') \<Longrightarrow>
    watch_step s i (Serving c, w)
      (goes_to (map_sum id (\<lambda>_. Serving (c\<lparr>cn_debounce := None, cn_stale := False, cn_lost := False\<rparr>)) r), w')"
| polls: "cn_poll c \<le> w_clock w \<Longrightarrow> sync_or_warn s i w = (r, w') \<Longrightarrow>
    watch_step s i (Serving c, w)
      (goes_to (map_sum id (\<lambda>_. Serving (c\<lparr>cn_poll := next_poll (cn_poll c) (w_clock w),
         cn_stale := False, cn_lost := False\<rparr>)) r), w')"
| stops: "e_cancelled (w_env w) (w_hist w) \<Longrightarrow> watch_step s i (Serving c, w) (Checking False, w)"
| fails: "cn_broken c = Some m \<Longrightarrow> give_up i (ErrSys m) w = (r, w') \<Longrightarrow>
    watch_step s i (Serving c, w) (goes_to r, w')"
| wakes: "t \<le> w_clock w \<or> e_cancelled (w_env w) (w_hist w) \<Longrightarrow> watch_step s i (Waiting dc t, w) (Checking dc, w)"

declare watch_step.intros [intro]

inductive_cases checking_step: "watch_step s i (Checking dc, w) y"
inductive_cases serving_step: "watch_step s i (Serving c, w) y"
inductive_simps ended_step [simp]: "watch_step s i (Ended, w) y"
inductive_simps crashed_step [simp]: "watch_step s i (Crashed, w) y"

text \<open>\<^verbatim>\<open>DNSWatch\<close>: a watcher for each instance in multibird mode, as the instances were when it started.
  Any of them moves, or time goes by.\<close>

type_synonym watchers = "(inst \<times> phase) list"

definition watch_start :: "inst list \<Rightarrow> watchers" where
  "watch_start insts = map (\<lambda>i. (i, Checking False)) (filter (\<lambda>i. i_dns_mode i = DNSMultibird) insts)"

inductive dns_watch :: "store \<Rightarrow> inst list \<Rightarrow> world \<Rightarrow> watchers \<Rightarrow> world \<Rightarrow> bool" for s insts w where
  starts: "dns_watch s insts w (watch_start insts) w"
| moves: "dns_watch s insts w (xs @ (i, ph) # ys) v \<Longrightarrow> watch_step s i (ph, v) (ph', v') \<Longrightarrow>
    dns_watch s insts w (xs @ (i, ph') # ys) v'"
| idles: "dns_watch s insts w xs v \<Longrightarrow> dns_watch s insts w xs (snd (sleep d v))"

section \<open>The connection's invariant\<close>

definition conn_ok :: "nat \<Rightarrow> conn \<Rightarrow> bool" where
  "conn_ok t c \<longleftrightarrow>
     length (cn_chan c) \<le> 8 \<and> (\<forall>d. cn_debounce c = Some d \<longrightarrow> d \<le> t + watch_debounce) \<and>
     cn_poll c \<le> t + watch_poll \<and>
     (cn_stale c \<longrightarrow> cn_debounce c \<noteq> None \<or> (\<exists>cat \<in> set (cn_chan c). relevant cat) \<or> cn_lost c)"

definition phase_ok :: "nat \<Rightarrow> phase \<Rightarrow> bool" where
  "phase_ok t ph = (case ph of Serving c \<Rightarrow> conn_ok t c | _ \<Rightarrow> True)"

lemma phase_ok_simps [simp]:
  "phase_ok t (Checking b)" "phase_ok t (Waiting b d)" "phase_ok t Opening" "phase_ok t Ended" "phase_ok t Crashed"
  "phase_ok t (Serving c) = conn_ok t c"
  by (simp_all add: phase_ok_def)

lemma conn_ok_later: "conn_ok t c \<Longrightarrow> t \<le> t' \<Longrightarrow> conn_ok t' c"
  by (auto simp: conn_ok_def)

lemma phase_ok_later: "phase_ok t ph \<Longrightarrow> t \<le> t' \<Longrightarrow> phase_ok t' ph"
  by (cases ph) (auto intro: conn_ok_later)

lemma conn_ok_fresh: "conn_ok t (fresh_conn t)"
  by (simp add: conn_ok_def fresh_conn_def)

lemma conn_ok_receive: "conn_ok t c \<Longrightarrow> conn_ok t (receive cat c)"
  by (auto simp: conn_ok_def receive_def Let_def)

lemma conn_ok_take: "conn_ok t c \<Longrightarrow> cn_chan c = cat # rest \<Longrightarrow> conn_ok t (take_event t cat rest c)"
  by (auto simp: conn_ok_def take_event_def Let_def)

lemma next_poll_bounds:
  assumes "due \<le> t"
  shows "t < next_poll due t \<and> next_poll due t \<le> t + watch_poll"
proof -
  let ?q = "watch_poll * ((t - due) div watch_poll)"
  have "?q + (t - due) mod watch_poll = t - due" by simp
  moreover have "(t - due) mod watch_poll < watch_poll" by (simp add: watch_poll_def)
  moreover have "next_poll due t = due + ?q + watch_poll" by (simp add: next_poll_def)
  ultimately show ?thesis using assms by linarith
qed

text \<open>No operation turns the clock back.\<close>

lemma later_tell: "keeps later (tell e)"
  by (simp add: keeps_def later_def tell_def log_event_def)

lemma later_ops [intro]:
  "keeps later (exec a t)" "keeps later (read_file p)" "keeps later (rpc_status sock b)"
  "keeps later (warnf t)" "keeps later (sleep d)" "keeps later (kill pid sig)" "keeps later cancelled" "keeps later now"
  "keeps later (dial sock)"
  unfolding exec_def read_file_def rpc_status_def warnf_def sleep_def kill_def cancelled_def now_def dial_def
  by (intro clk.combinators later_callout later_fs_call later_tell)+

lemmas later_intros = clk.combinators later_ops

lemma later_running: "keeps later (running p)"
  unfolding running_def recorded_alive_def read_pid_def alive_def by (intro later_intros)

lemma later_remove: "keeps later (remove_host_dns n)"
  unfolding remove_host_dns_def by_os_def darwin_remove_host_dns_def list_multibird_keys_def exec_scutil_def
    require_root_def flush_dns_cache_def Let_def
  by (auto split: os.split intro!: later_intros)

lemma later_apply: "keeps later (apply_from_status i st)"
  unfolding apply_from_status_def apply_host_dns_def by_os_def darwin_apply_host_dns_def list_multibird_keys_def
    exec_scutil_def require_root_def flush_dns_cache_def Let_def
  by (auto split: os.split sum.split derive_error.split intro!: later_intros)

lemma later_sync: "keeps later (sync_or_warn s i)"
  unfolding sync_or_warn_def dns_sync_def caught_def warn_if_failed_def status_def Let_def
  by (intro later_intros later_running later_remove later_apply)

lemma later_round: "keeps later (watch_round s i dc)" "keeps later (give_up i e)"
  unfolding watch_round_def give_up_def remove_quietly_def Let_def
  by (intro later_intros later_running later_remove later_sync)+

lemma watch_step_later: "watch_step s i (ph, w) (ph', w') \<Longrightarrow> w_clock w \<le> w_clock w'"
  by (cases rule: watch_step.cases)
    (auto dest: keepsD [OF later_round(1)] keepsD [OF later_round(2)] keepsD [OF later_sync] simp: later_def)

lemma goes_to_parts [simp]: "goes_to (Inl e) = Crashed" "goes_to (Inr ph) = ph"
  by (simp_all add: goes_to_def)

lemma never_serving: "watch_round s i dc w \<noteq> (Inr (Serving c), w')" "give_up i e w \<noteq> (Inr (Serving c), w')"
  by (auto simp: watch_round_def give_up_def op_results Let_def split: if_splits sum.splits)

lemma goes_to_ok:
  "watch_round s i dc w = (r, w') \<Longrightarrow> phase_ok t (goes_to r)" "give_up i e w = (r, w') \<Longrightarrow> phase_ok t (goes_to r)"
  using never_serving(1) [of s i dc w] never_serving(2) [of i e w]
  by (cases r; auto simp: phase_ok_def split: phase.split)+

lemma watch_step_ok:
  assumes "watch_step s i (ph, w) (ph', w')" and "phase_ok (w_clock w) ph"
  shows "phase_ok (w_clock w') ph'"
  using assms(1)
proof (cases rule: watch_step.cases)
  case (settles c t r)
  then have "w_clock w \<le> w_clock w'" using keepsD [OF later_sync settles(5)] by (simp add: later_def)
  then show ?thesis using settles assms(2) by (cases r) (auto simp: conn_ok_def)
next
  case (polls c r)
  then have "w_clock w \<le> w_clock w'" using keepsD [OF later_sync polls(4)] by (simp add: later_def)
  moreover have "next_poll (cn_poll c) (w_clock w) \<le> w_clock w + watch_poll" using next_poll_bounds [OF polls(3)] by simp
  ultimately show ?thesis using polls(1,2) assms(2) by (cases r) (fastforce simp: conn_ok_def)+
next
  case (breaks c m)
  then show ?thesis using assms(2) by (simp add: conn_ok_def)
qed (use assms(2) in \<open>auto simp: conn_ok_fresh conn_ok_receive conn_ok_take dest: goes_to_ok\<close>)

section \<open>What the watch touches\<close>

text \<open>It looks, and changes DNS keys of one owner.\<close>

definition watch_event :: "string set \<Rightarrow> event \<Rightarrow> bool" where
  "watch_event names e \<longleftrightarrow>
     looks e \<or> (\<exists>argv script name. e = EvExec argv script \<and> name \<in> names \<and> key_script name script)"

lemma watch_event_looks: "keeps (emits looks) m \<Longrightarrow> keeps (emits (watch_event names)) m"
  by (erule keeps_mono) (simp add: watch_event_def)

lemma watch_event_simps [simp]:
  "watch_event names (EvWarn t)" "watch_event names (EvSleep d)" "watch_event names (EvFs (OpRead p))"
  "watch_event names (EvKill pid 0)" "watch_event names (EvRpc sock (RpcStatus b))"
  "name \<in> names \<Longrightarrow> key_script name script \<Longrightarrow> watch_event names (EvExec argv script)"
  by (auto simp: watch_event_def looks_def)

lemma emits_round:
  assumes "valid_name (i_name i)" and "i_name i \<in> names"
  shows "keeps (emits (watch_event names)) (sync_or_warn s i)"
    and "keeps (emits (watch_event names)) (watch_round s i dc)"
    and "keeps (emits (watch_event names)) (give_up i e)"
proof -
  have key: "watch_event names (EvExec argv script)" if "key_script (i_name i) script" for argv script
    using that assms(2) by simp
  show sync: "keeps (emits (watch_event names)) (sync_or_warn s i)"
    unfolding sync_or_warn_def dns_sync_def Let_def
    by (intro frame_intros emits_remove_own emits_apply_from_status key assms(1)) simp_all
  show gu: "keeps (emits (watch_event names)) (give_up i e)" for e
    unfolding give_up_def by (intro frame_intros) simp_all
  show "keeps (emits (watch_event names)) (watch_round s i dc)"
    unfolding watch_round_def Let_def
    by (intro frame_intros sync gu emits_remove_quietly key) simp_all
qed

lemma watch_step_emits:
  assumes "watch_step s i (ph, w) (ph', w')" and "valid_name (i_name i)" and "i_name i \<in> names"
  shows "emits (watch_event names) w w'"
  using assms(1)
  by (cases rule: watch_step.cases)
    (auto intro: emits_refl keepsD [OF emits_round(1) [OF assms(2,3)]] keepsD [OF emits_round(2) [OF assms(2,3)]]
      keepsD [OF emits_round(3) [OF assms(2,3)]])

lemma dns_watch_watchers:
  "dns_watch s insts w xs v \<Longrightarrow> map fst xs = filter (\<lambda>i. i_dns_mode i = DNSMultibird) insts"
  by (induction rule: dns_watch.induct) (simp_all add: watch_start_def comp_def)

lemma dns_watch_ok: "dns_watch s insts w xs v \<Longrightarrow> \<forall>ph \<in> set (map snd xs). phase_ok (w_clock v) ph"
proof (induction rule: dns_watch.induct)
  case starts
  then show ?case by (auto simp: watch_start_def)
next
  case (moves xs i ph ys v ph' v')
  have "w_clock v \<le> w_clock v'" by (rule watch_step_later [OF moves.hyps(2)])
  moreover have "phase_ok (w_clock v') ph'" using watch_step_ok [OF moves.hyps(2)] moves.IH by simp
  ultimately show ?case using moves.IH by (auto intro: phase_ok_later)
next
  case (idles xs v d)
  have "w_clock v \<le> w_clock (snd (sleep d v))" by (simp add: sleep_def callout_def)
  then show ?case using idles.IH by (auto intro: phase_ok_later)
qed

lemma dns_watch_emits:
  assumes "dns_watch s insts w xs v"
    and "\<forall>i \<in> set insts. i_dns_mode i = DNSMultibird \<longrightarrow> valid_name (i_name i) \<and> i_name i \<in> names"
  shows "emits (watch_event names) w v"
  using assms(1)
proof (induction rule: dns_watch.induct)
  case (moves xs i ph ys v ph' v')
  have "i \<in> set (map fst (xs @ (i, ph) # ys))" by simp
  then have "valid_name (i_name i)" "i_name i \<in> names"
    unfolding dns_watch_watchers [OF moves.hyps(1)] using assms(2) by auto
  then show ?case using watch_step_emits [OF moves.hyps(2)] emits_trans [OF moves.IH] by blast
next
  case (idles xs v d)
  have "keeps (emits (watch_event names)) (sleep d)" by (intro frame_intros) simp
  then have "emits (watch_event names) v (snd (sleep d v))" by (simp add: keeps_def)
  with idles.IH show ?case by (rule emits_trans)
qed (rule emits_refl)

section \<open>Properties\<close>

text \<open>C17: The watch forgets nothing but what it drops.  In every state the watch of any number of instances
  can reach, under every interleaving, a connection's channel holds at most eight events, a debounce
  that is running expires within two seconds and the next poll is due within a minute; and when an
  event that matters has come since the last synchronisation began, a debounce is running, or such an
  event still waits in the channel, or it was one of those dropped because the channel was full.\<close>

theorem watch_forgets_nothing:
  assumes "dns_watch s insts w xs v" and "(i, Serving c) \<in> set xs"
  shows "i \<in> set insts \<and> i_dns_mode i = DNSMultibird \<and> length (cn_chan c) \<le> 8 \<and>
    (\<forall>t. cn_debounce c = Some t \<longrightarrow> t \<le> w_clock v + 2000) \<and> cn_poll c \<le> w_clock v + 60000 \<and>
    (cn_stale c \<longrightarrow> cn_debounce c \<noteq> None \<or> NETWORK \<in> set (cn_chan c) \<or> DNS \<in> set (cn_chan c) \<or> cn_lost c)"
proof -
  have "i \<in> set (map fst xs)" using assms(2) by force
  moreover have "conn_ok (w_clock v) c" using dns_watch_ok [OF assms(1)] assms(2) by force
  ultimately show ?thesis
    unfolding dns_watch_watchers [OF assms(1)]
    by (auto simp: conn_ok_def relevant_def watch_debounce_def watch_poll_def)
qed


text \<open>A full channel drops an event that matters although no debounce is running: eight events of other
  kinds and a network event, before the loop takes the first.\<close>

lemma burst_is_lost:
  "let c = fold receive (replicate 8 OtherEvent @ [NETWORK]) (fresh_conn t)
   in cn_stale c \<and> cn_lost c \<and> cn_debounce c = None \<and> NETWORK \<notin> set (cn_chan c)"
  by (simp add: receive_def fresh_conn_def relevant_def eval_nat_numeral Let_def)

section \<open>A run\<close>

definition watched :: inst where
  "watched = (example_inst ''a'' 2)\<lparr>i_dns_mode := DNSMultibird\<rparr>"

definition mac_running :: world where
  "mac_running = lone_running\<lparr>w_env := (w_env lone_running)\<lparr>e_os := Darwin\<rparr>\<rparr>"

lemma watched_round:
  "fst (watch_round example_store_at watched False mac_running) = Inr Opening"
  "\<exists>e \<in> set (new_events mac_running (snd (watch_round example_store_at watched False mac_running))). \<not> looks e"
  by code_simp+

lemma watched_serving:
  obtains v where "watch_round example_store_at watched False mac_running = (Inr Opening, v)"
    and "dns_watch example_store_at [watched, example_inst ''b'' 0] mac_running
           [(watched, Serving (receive NETWORK (fresh_conn (w_clock v))))] v"
proof -
  obtain v where v: "watch_round example_store_at watched False mac_running = (Inr Opening, v)"
    using watched_round(1) by (metis prod.collapse)
  let ?run = "dns_watch example_store_at [watched, example_inst ''b'' 0] mac_running"
  have "?run [(watched, Checking False)] mac_running"
    using dns_watch.starts [of example_store_at "[watched, example_inst ''b'' 0]" mac_running]
    by (simp add: watch_start_def watched_def)
  then have "?run [(watched, Opening)] v"
    using dns_watch.moves [where xs = "[]" and ys = "[]"] watch_step.round [OF v] by fastforce
  then have "?run [(watched, Serving (fresh_conn (w_clock v)))] v"
    using dns_watch.moves [where xs = "[]" and ys = "[]"] watch_step.opened by fastforce
  then have "?run [(watched, Serving (receive NETWORK (fresh_conn (w_clock v))))] v"
    using dns_watch.moves [where xs = "[]" and ys = "[]"] watch_step.received [of "fresh_conn (w_clock v)"]
    by (fastforce simp: fresh_conn_def)
  with v that show thesis by blast
qed

theorem watch_forgets_nothing_witness:
  "\<exists>v c. dns_watch example_store_at [watched, example_inst ''b'' 0] mac_running [(watched, Serving c)] v \<and>
     cn_stale c \<and> (cn_debounce c \<noteq> None \<or> NETWORK \<in> set (cn_chan c) \<or> DNS \<in> set (cn_chan c) \<or> cn_lost c)"
proof -
  obtain v where v: "dns_watch example_store_at [watched, example_inst ''b'' 0] mac_running
           [(watched, Serving (receive NETWORK (fresh_conn (w_clock v))))] v" by (rule watched_serving)
  have "cn_stale (receive NETWORK (fresh_conn (w_clock v)))"
    by (simp add: receive_def fresh_conn_def relevant_def Let_def)
  with watch_forgets_nothing [OF v] v show ?thesis by (intro exI [of _ v] exI conjI) auto
qed


end
