(* ===== verification/Persist.thy ===== *)
theory Persist
  imports Platform
begin

text \<open>
  \<^verbatim>\<open>internal/persist\<close>: the boot units.  The content of the four unit files is a list of lines;
  installing and removing them are operations on the world, one for each operating system, with
  the same branches and the same order of commands as the code.
\<close>

section \<open>Names and paths\<close>

definition systemd_unit_path :: "string \<Rightarrow> string" where
  "systemd_unit_path name = ''/etc/systemd/system/multibird-'' @ name @ ''.service''"

definition launchd_label :: "string \<Rightarrow> string" where
  "launchd_label name = ''io.github.magnetrong.multibird.'' @ name"

definition launchd_plist_path :: "string \<Rightarrow> string" where
  "launchd_plist_path name = ''/Library/LaunchDaemons/'' @ launchd_label name @ ''.plist''"

definition systemd_dns_watch_unit_path :: "string \<Rightarrow> string" where
  "systemd_dns_watch_unit_path name = ''/etc/systemd/system/multibird-dnswatch-'' @ name @ ''.service''"

definition launchd_dns_watch_label :: "string \<Rightarrow> string" where
  "launchd_dns_watch_label name = ''io.github.magnetrong.multibird.dnswatch.'' @ name"

definition launchd_dns_watch_plist_path :: "string \<Rightarrow> string" where
  "launchd_dns_watch_plist_path name =
     ''/Library/LaunchDaemons/'' @ launchd_dns_watch_label name @ ''.plist''"

section \<open>Contents\<close>

definition unlines :: "string list \<Rightarrow> string" where
  "unlines ls = concat (map (\<lambda>l. l @ nl) ls)"

definition tabs :: "nat \<Rightarrow> string" where
  "tabs n = replicate n (CHR 0x09)"

definition systemd_unit_lines :: "string \<Rightarrow> string \<Rightarrow> string \<Rightarrow> string list" where
  "systemd_unit_lines name bin root =
     [''[Unit]'',
      ''Description=multibird instance '' @ name @ '' (isolated NetBird daemon)'',
      ''Documentation=https://github.com/magnetrong/multibird'',
      ''After=network-online.target'',
      ''Wants=network-online.target'',
      [],
      ''[Service]'',
      ''Type=oneshot'',
      ''RemainAfterExit=yes'',
      ''Environment=MULTIBIRD_CONFIG_ROOT='' @ root,
      ''ExecStart='' @ bin @ '' up '' @ name,
      ''ExecStop='' @ bin @ '' down '' @ name,
      [],
      ''[Install]'',
      ''WantedBy=multi-user.target'']"

definition systemd_unit :: "string \<Rightarrow> string \<Rightarrow> string \<Rightarrow> string" where
  "systemd_unit name bin root = unlines (systemd_unit_lines name bin root)"

definition launchd_plist_lines :: "string \<Rightarrow> string \<Rightarrow> string \<Rightarrow> string list" where
  "launchd_plist_lines name bin root =
     [''<?xml version=\"1.0\" encoding=\"UTF-8\"?>'',
      ''<!DOCTYPE plist PUBLIC \"-//Apple//DTD PLIST 1.0//EN\" \"http://www.apple.com/DTDs/PropertyList-1.0.dtd\">'',
      ''<plist version=\"1.0\">'',
      ''<dict>'',
      tabs 1 @ ''<key>Label</key>'',
      tabs 1 @ ''<string>'' @ launchd_label name @ ''</string>'',
      tabs 1 @ ''<key>ProgramArguments</key>'',
      tabs 1 @ ''<array>'',
      tabs 2 @ ''<string>'' @ bin @ ''</string>'',
      tabs 2 @ ''<string>up</string>'',
      tabs 2 @ ''<string>'' @ name @ ''</string>'',
      tabs 1 @ ''</array>'',
      tabs 1 @ ''<key>RunAtLoad</key>'',
      tabs 1 @ ''<true/>'',
      tabs 1 @ ''<key>EnvironmentVariables</key>'',
      tabs 1 @ ''<dict>'',
      tabs 2 @ ''<key>MULTIBIRD_CONFIG_ROOT</key>'',
      tabs 2 @ ''<string>'' @ root @ ''</string>'',
      tabs 1 @ ''</dict>'',
      ''</dict>'',
      ''</plist>'']"

definition launchd_plist :: "string \<Rightarrow> string \<Rightarrow> string \<Rightarrow> string" where
  "launchd_plist name bin root = unlines (launchd_plist_lines name bin root)"

definition systemd_dns_watch_unit_lines :: "string \<Rightarrow> string \<Rightarrow> string \<Rightarrow> string list" where
  "systemd_dns_watch_unit_lines name bin root =
     [''[Unit]'',
      ''Description=multibird dns watch for instance '' @ name,
      ''Documentation=https://github.com/magnetrong/multibird'',
      ''After=multibird-'' @ name @ ''.service'',
      ''Wants=multibird-'' @ name @ ''.service'',
      [],
      ''[Service]'',
      ''Environment=MULTIBIRD_CONFIG_ROOT='' @ root,
      ''ExecStart='' @ bin @ '' dns sync '' @ name @ '' --watch'',
      ''Restart=on-failure'',
      ''RestartSec=5'',
      [],
      ''[Install]'',
      ''WantedBy=multi-user.target'']"

definition systemd_dns_watch_unit :: "string \<Rightarrow> string \<Rightarrow> string \<Rightarrow> string" where
  "systemd_dns_watch_unit name bin root = unlines (systemd_dns_watch_unit_lines name bin root)"

definition launchd_dns_watch_plist_lines :: "string \<Rightarrow> string \<Rightarrow> string \<Rightarrow> string list" where
  "launchd_dns_watch_plist_lines name bin root =
     [''<?xml version=\"1.0\" encoding=\"UTF-8\"?>'',
      ''<!DOCTYPE plist PUBLIC \"-//Apple//DTD PLIST 1.0//EN\" \"http://www.apple.com/DTDs/PropertyList-1.0.dtd\">'',
      ''<plist version=\"1.0\">'',
      ''<dict>'',
      tabs 1 @ ''<key>Label</key>'',
      tabs 1 @ ''<string>'' @ launchd_dns_watch_label name @ ''</string>'',
      tabs 1 @ ''<key>ProgramArguments</key>'',
      tabs 1 @ ''<array>'',
      tabs 2 @ ''<string>'' @ bin @ ''</string>'',
      tabs 2 @ ''<string>dns</string>'',
      tabs 2 @ ''<string>sync</string>'',
      tabs 2 @ ''<string>'' @ name @ ''</string>'',
      tabs 2 @ ''<string>--watch</string>'',
      tabs 1 @ ''</array>'',
      tabs 1 @ ''<key>RunAtLoad</key>'',
      tabs 1 @ ''<true/>'',
      tabs 1 @ ''<key>KeepAlive</key>'',
      tabs 1 @ ''<true/>'',
      tabs 1 @ ''<key>EnvironmentVariables</key>'',
      tabs 1 @ ''<dict>'',
      tabs 2 @ ''<key>MULTIBIRD_CONFIG_ROOT</key>'',
      tabs 2 @ ''<string>'' @ root @ ''</string>'',
      tabs 1 @ ''</dict>'',
      ''</dict>'',
      ''</plist>'']"

definition launchd_dns_watch_plist :: "string \<Rightarrow> string \<Rightarrow> string \<Rightarrow> string" where
  "launchd_dns_watch_plist name bin root = unlines (launchd_dns_watch_plist_lines name bin root)"

section \<open>Installing and removing\<close>

text \<open>\<^verbatim>\<open>os.Remove\<close> with a missing file not counting as an error.\<close>

definition remove_if_there :: "string \<Rightarrow> unit op" where
  "remove_if_there path =
     bnd (attempt (os_remove path)) (\<lambda>r.
       case r of
         Inl e \<Rightarrow> if is_not_exist e then ret () else fail (Wrap ''removing unit'' e)
       | Inr _ \<Rightarrow> ret ())"

text \<open>The early return when the unit file is not there; any other answer of \<^verbatim>\<open>os.Stat\<close> goes on.\<close>

definition unless_missing :: "string \<Rightarrow> unit op \<Rightarrow> unit op" where
  "unless_missing path rest =
     bnd (attempt (stat path)) (\<lambda>r.
       case r of
         Inl e \<Rightarrow> if is_not_exist e then ret () else rest
       | Inr _ \<Rightarrow> rest)"

definition install_systemd :: "string \<Rightarrow> string \<Rightarrow> string list \<Rightarrow> string op" where
  "install_systemd path content enable =
     thn (wrap ''writing unit'' (write_file path content 420))
    (thn (wrap ''systemctl daemon-reload'' (exec [''systemctl'', ''daemon-reload''] []))
    (thn (wrap ''systemctl enable'' (exec enable []))
         (ret path)))"

definition uninstall_systemd :: "string \<Rightarrow> string list \<Rightarrow> unit op" where
  "uninstall_systemd path disable =
     unless_missing path
       (thn (wrap ''systemctl disable'' (exec disable []))
       (thn (remove_if_there path)
       (thn (wrap ''systemctl daemon-reload'' (exec [''systemctl'', ''daemon-reload''] []))
            (ret ()))))"

definition install_launchd :: "string \<Rightarrow> string \<Rightarrow> string op" where
  "install_launchd path content =
     thn (wrap ''writing plist'' (write_file path content 420))
    (thn (wrap ''launchctl load'' (exec [''launchctl'', ''load'', ''-w'', path] []))
         (ret path))"

definition uninstall_launchd :: "string \<Rightarrow> unit op" where
  "uninstall_launchd path =
     unless_missing path
       (thn (wrap ''launchctl unload'' (exec [''launchctl'', ''unload'', ''-w'', path] []))
            (remove_if_there path))"

definition linux_install :: "string \<Rightarrow> string \<Rightarrow> string \<Rightarrow> string op" where
  "linux_install name bin root =
     install_systemd (systemd_unit_path name) (systemd_unit name bin root)
       [''systemctl'', ''enable'', ''multibird-'' @ name @ ''.service'']"

definition linux_uninstall :: "string \<Rightarrow> unit op" where
  "linux_uninstall name =
     uninstall_systemd (systemd_unit_path name)
       [''systemctl'', ''disable'', ''multibird-'' @ name @ ''.service'']"

definition linux_install_dns_watch :: "string \<Rightarrow> string \<Rightarrow> string \<Rightarrow> string op" where
  "linux_install_dns_watch name bin root =
     install_systemd (systemd_dns_watch_unit_path name) (systemd_dns_watch_unit name bin root)
       [''systemctl'', ''enable'', ''--now'', ''multibird-dnswatch-'' @ name @ ''.service'']"

definition linux_uninstall_dns_watch :: "string \<Rightarrow> unit op" where
  "linux_uninstall_dns_watch name =
     uninstall_systemd (systemd_dns_watch_unit_path name)
       [''systemctl'', ''disable'', ''--now'', ''multibird-dnswatch-'' @ name @ ''.service'']"

definition darwin_install :: "string \<Rightarrow> string \<Rightarrow> string \<Rightarrow> string op" where
  "darwin_install name bin root =
     install_launchd (launchd_plist_path name) (launchd_plist name bin root)"

definition darwin_uninstall :: "string \<Rightarrow> unit op" where
  "darwin_uninstall name = uninstall_launchd (launchd_plist_path name)"

definition darwin_install_dns_watch :: "string \<Rightarrow> string \<Rightarrow> string \<Rightarrow> string op" where
  "darwin_install_dns_watch name bin root =
     install_launchd (launchd_dns_watch_plist_path name) (launchd_dns_watch_plist name bin root)"

definition darwin_uninstall_dns_watch :: "string \<Rightarrow> unit op" where
  "darwin_uninstall_dns_watch name = uninstall_launchd (launchd_dns_watch_plist_path name)"

definition install :: "string \<Rightarrow> string \<Rightarrow> string \<Rightarrow> string op" where
  "install name bin root = by_os (darwin_install name bin root) (linux_install name bin root)"

definition uninstall :: "string \<Rightarrow> unit op" where
  "uninstall name = by_os (darwin_uninstall name) (linux_uninstall name)"

definition install_dns_watch :: "string \<Rightarrow> string \<Rightarrow> string \<Rightarrow> string op" where
  "install_dns_watch name bin root =
     by_os (darwin_install_dns_watch name bin root) (linux_install_dns_watch name bin root)"

definition uninstall_dns_watch :: "string \<Rightarrow> unit op" where
  "uninstall_dns_watch name = by_os (darwin_uninstall_dns_watch name) (linux_uninstall_dns_watch name)"

section \<open>Reading units\<close>

text \<open>A value of a systemd unit: what follows the first line that starts with the key and \<^verbatim>\<open>=\<close>.\<close>

definition unit_value :: "string \<Rightarrow> string \<Rightarrow> string option" where
  "unit_value u key =
     (case filter (\<lambda>l. has_prefix l (key @ ''='')) (split_on CHR 0x0A u) of
        [] \<Rightarrow> None
      | l # _ \<Rightarrow> Some (trim_prefix l (key @ ''='')))"

text \<open>The strings of the argument array of a plist.\<close>

definition plist_arguments :: "string \<Rightarrow> string list" where
  "plist_arguments p =
     map (\<lambda>l. trim_suffix (trim_prefix l (tabs 2 @ ''<string>'')) ''</string>'')
       (takeWhile (\<lambda>l. l \<noteq> tabs 1 @ ''</array>'')
         (tl (dropWhile (\<lambda>l. l \<noteq> tabs 1 @ ''<array>'') (split_on CHR 0x0A p))))"

lemma split_unlines:
  "(\<And>l. l \<in> set ls \<Longrightarrow> CHR 0x0A \<notin> set l) \<Longrightarrow> split_on CHR 0x0A (unlines ls) = ls @ [[]]"
proof (induction ls)
  case Nil
  then show ?case by (simp add: unlines_def split_on_def)
next
  case (Cons l ls)
  then have "split_on CHR 0x0A (unlines ls) = ls @ [[]]" "split_on CHR 0x0A l = [l]"
    by (auto intro: split_on_no_sep)
  then show ?case
    using split_on_append [of "CHR 0x0A" l "unlines ls"] by (simp add: unlines_def nl_def)
qed

lemma tabs_simps: "tabs 1 = [CHR 0x09]" "tabs 2 = [CHR 0x09, CHR 0x09]" "tabs (Suc 0) = [CHR 0x09]"
  by (simp_all add: tabs_def eval_nat_numeral)

lemma trim_string_element: "trim_suffix (trim_prefix (p @ s @ x) p) x = s"
  by simp

section \<open>Properties\<close>



text \<open>Unit files of different instances.  Boot units of different names are different files, and so
  are watch units; but on systemd the boot unit of an instance named \<^verbatim>\<open>dnswatch-<b>\<close> is the same file
  as the watch unit of \<open>b\<close>, and only then do a boot and a watch unit meet.  On launchd they never meet,
  because a valid name has no dot.\<close>

theorem unit_paths_meet:
  "(systemd_unit_path a = systemd_unit_path b) = (a = b) \<and>
   (systemd_dns_watch_unit_path a = systemd_dns_watch_unit_path b) = (a = b) \<and>
   (systemd_unit_path a = systemd_dns_watch_unit_path b) = (a = ''dnswatch-'' @ b) \<and>
   (launchd_plist_path a = launchd_plist_path b) = (a = b) \<and>
   (valid_name a \<longrightarrow> launchd_plist_path a \<noteq> launchd_dns_watch_plist_path b)"
proof -
  have "launchd_plist_path a = launchd_dns_watch_plist_path b \<Longrightarrow> a = ''dnswatch.'' @ b"
    by (simp add: launchd_plist_path_def launchd_dns_watch_plist_path_def launchd_label_def launchd_dns_watch_label_def)
  then have "valid_name a \<longrightarrow> launchd_plist_path a \<noteq> launchd_dns_watch_plist_path b"
    using valid_name_no_special(2) [of a] by auto
  then show ?thesis
    by (simp add: systemd_unit_path_def systemd_dns_watch_unit_path_def launchd_plist_path_def launchd_label_def)
qed

theorem unit_paths_meet_witness:
  "valid_name ''dnswatch-home'' \<and> systemd_unit_path ''dnswatch-home'' = systemd_dns_watch_unit_path ''home'' \<and>
   launchd_plist_path ''dnswatch-home'' \<noteq> launchd_dns_watch_plist_path ''home''"
proof -
  have "valid_name ''dnswatch-home''" by code_simp
  with unit_paths_meet [of "''dnswatch-home''" "''home''"] show ?thesis by simp
qed

text \<open>The effect of one uninstall.\<close>

lemma remove_if_there_effect:
  "remove_if_there p w = (r, w') \<Longrightarrow> r = Inr () \<Longrightarrow> map_of (w_fs w') p = None"
  using os_remove_effect(4) [of p w]
  by (auto simp: remove_if_there_def bnd_def attempt_def split: prod.splits sum.splits if_splits)

lemma unless_missing_absent:
  "faultless w \<Longrightarrow> map_of (w_fs w) p = None \<Longrightarrow>
     unless_missing p rest w = (Inr (), w\<lparr>w_hist := EvFs (OpStat p) # w_hist w\<rparr>)"
  by (simp add: unless_missing_def stat_def fs_call_ok bnd_def attempt_def is_not_exist_def)

lemma unless_missing_there:
  "faultless w \<Longrightarrow> map_of (w_fs w) p \<noteq> None \<Longrightarrow>
     unless_missing p rest w = rest (w\<lparr>w_hist := EvFs (OpStat p) # w_hist w\<rparr>)"
  by (auto simp: unless_missing_def stat_def fs_call_ok bnd_def attempt_def)

lemma exec_quiet:
  "exec a i w = (r, w') \<Longrightarrow> w_env w' = w_env w \<and> (quiet w \<longrightarrow> w_fs w' = w_fs w)"
  by (auto simp: exec_def callout_def quiet_def)

lemma uninstall_systemd_gone:
  assumes "faultless w" and "quiet w" and "uninstall_systemd p disable w = (Inr (), w')"
  shows "map_of (w_fs w') p = None"
proof (cases "map_of (w_fs w) p = None")
  case True
  with assms show ?thesis by (auto simp: uninstall_systemd_def unless_missing_absent)
next
  case False
  let ?w0 = "w\<lparr>w_hist := EvFs (OpStat p) # w_hist w\<rparr>"
  have run: "thn (wrap ''systemctl disable'' (exec disable [])) (thn (remove_if_there p)
      (thn (wrap ''systemctl daemon-reload'' (exec [''systemctl'', ''daemon-reload''] [])) (ret ()))) ?w0 = (Inr (), w')"
    using assms(3) unless_missing_there [OF assms(1) False] by (simp only: uninstall_systemd_def)
  obtain out1 w1 where 1: "exec disable [] ?w0 = (Inr out1, w1)"
    and run2: "thn (remove_if_there p)
      (thn (wrap ''systemctl daemon-reload'' (exec [''systemctl'', ''daemon-reload''] [])) (ret ())) w1 = (Inr (), w')"
    using run unfolding thn_result [of "wrap _ (exec disable [])"] wrap_result by blast
  obtain w2 where 2: "remove_if_there p w1 = (Inr (), w2)"
    and run3: "thn (wrap ''systemctl daemon-reload'' (exec [''systemctl'', ''daemon-reload''] [])) (ret ()) w2 = (Inr (), w')"
    using run2 unfolding thn_result [of "remove_if_there p"] by (metis old.unit.exhaust)
  obtain out2 where 3: "exec [''systemctl'', ''daemon-reload''] [] w2 = (Inr out2, w')"
    using run3 unfolding thn_result wrap_result by auto
  have "w_env w2 = w_env w1"
    using 2 os_remove_effect(1) [of p w1]
    by (auto simp: remove_if_there_def bnd_def attempt_def split: prod.splits sum.splits if_splits)
  then have "quiet w2" using exec_quiet [OF 1] assms(2) by (simp add: quiet_def)
  with exec_quiet [OF 3] remove_if_there_effect [OF 2] show ?thesis by simp
qed

lemma uninstall_launchd_gone:
  assumes "faultless w" and "uninstall_launchd p w = (Inr (), w')"
  shows "map_of (w_fs w') p = None"
proof (cases "map_of (w_fs w) p = None")
  case True
  with assms show ?thesis by (auto simp: uninstall_launchd_def unless_missing_absent)
next
  case False
  with assms show ?thesis
    by (auto simp: uninstall_launchd_def unless_missing_there thn_result intro: remove_if_there_effect)
qed

text \<open>Uninstalling.  When no file operation fails and no other process touches the unit file, a
  successful uninstall leaves no unit file behind, on both systems; when there is none to begin with
  it succeeds at once and runs no command.\<close>

theorem uninstall_effect:
  assumes "faultless w" and "quiet w"
  shows "(fst (linux_uninstall n w) = Inr () \<longrightarrow> map_of (w_fs (snd (linux_uninstall n w))) (systemd_unit_path n) = None) \<and>
    (fst (darwin_uninstall n w) = Inr () \<longrightarrow> map_of (w_fs (snd (darwin_uninstall n w))) (launchd_plist_path n) = None) \<and>
    (map_of (w_fs w) (systemd_unit_path n) = None \<longrightarrow>
       linux_uninstall n w = (Inr (), w\<lparr>w_hist := EvFs (OpStat (systemd_unit_path n)) # w_hist w\<rparr>)) \<and>
    (map_of (w_fs w) (launchd_plist_path n) = None \<longrightarrow>
       darwin_uninstall n w = (Inr (), w\<lparr>w_hist := EvFs (OpStat (launchd_plist_path n)) # w_hist w\<rparr>))"
proof (intro conjI impI)
  assume "fst (linux_uninstall n w) = Inr ()"
  then show "map_of (w_fs (snd (linux_uninstall n w))) (systemd_unit_path n) = None"
    unfolding linux_uninstall_def by (metis uninstall_systemd_gone [OF assms] prod.collapse)
next
  assume "fst (darwin_uninstall n w) = Inr ()"
  then show "map_of (w_fs (snd (darwin_uninstall n w))) (launchd_plist_path n) = None"
    unfolding darwin_uninstall_def by (metis uninstall_launchd_gone [OF assms(1)] prod.collapse)
qed (use assms(1) unless_missing_absent in
  \<open>auto simp: linux_uninstall_def darwin_uninstall_def uninstall_systemd_def uninstall_launchd_def\<close>)

theorem uninstall_effect_witness:
  "map_of (w_fs (snd (linux_uninstall ''home'' (example_world [(systemd_unit_path ''home'', File [] 420)]))))
     (systemd_unit_path ''home'') = None"
proof -
  let ?w = "example_world [(systemd_unit_path ''home'', File [] 420)]"
  have "faultless ?w" "quiet ?w" by (simp_all add: quiet_def example_env_def)
  moreover have "fst (linux_uninstall ''home'' ?w) = Inr ()" by code_simp
  ultimately show ?thesis using uninstall_effect [of ?w "''home''"] by blast
qed

end
