(* ===== verification/SelfUpdate.thy ===== *)
theory SelfUpdate
  imports Persist
begin

text \<open>
  \<^verbatim>\<open>internal/selfupdate\<close>: fetching a release, checking it and replacing the binary.  The network, the
  JSON, gzip and tar decoders and SHA-256 are parameters (\<open>e_http\<close>, \<open>e_release_json\<close>, \<open>e_untar\<close>,
  \<open>e_sha256\<close> with the digest in lower-case hex): what is proved holds for all of them.  An archive is
  what the two decoders make of it, the entries in order and, when the stream breaks off, the error.
\<close>

section \<open>Releases\<close>

definition repo :: string where "repo = ''magnetrong/multibird''"

record release =
  rl_tag :: string
  rl_assets :: "string \<Rightarrow> asset option"

definition token :: "string op" where
  "token = bnd (getenv ''MULTIBIRD_GITHUB_TOKEN'') (\<lambda>t. if t \<noteq> [] then ret t else getenv ''GITHUB_TOKEN'')"

definition release_version :: "release \<Rightarrow> string" where
  "release_version r = trim_prefix (rl_tag r) ''v''"

definition auth_header :: "string \<Rightarrow> (string \<times> string) list" where
  "auth_header t = (if t \<noteq> [] then [(''Authorization'', ''Bearer '' @ t)] else [])"

definition latest_url :: string where
  "latest_url = ''https://api.github.com/repos/'' @ repo @ ''/releases/latest''"

text \<open>The assets by name; of two with one name the later counts.\<close>

definition release_of :: "string \<times> (string \<times> asset) list \<Rightarrow> release" where
  "release_of d = \<lparr>rl_tag = fst d, rl_assets = map_of (rev (snd d))\<rparr>"

definition latest_release :: "release op" where
  "latest_release =
     bnd token (\<lambda>t.
     bnd (wrap (''checking github.com/'' @ repo @ '' for releases'')
           (http_get latest_url ((''Accept'', ''application/vnd.github+json'') # auth_header t))) (\<lambda>resp.
       if hr_code resp = 404 then fail (ErrMsg (''github.com/'' @ repo @ '' has no releases visible''))
       else if hr_code resp \<noteq> 200
       then fail (ErrMsg (''GitHub API returned '' @ hr_status resp @ '' for the latest release''))
       else case hr_body resp of
              Inl m \<Rightarrow> fail (Wrap ''decoding GitHub release response'' (ErrSys m))
            | Inr b \<Rightarrow>
                bnd (asks (\<lambda>w. e_release_json (w_env w) b)) (\<lambda>d.
                  case d of
                    Inl m \<Rightarrow> fail (Wrap ''decoding GitHub release response'' (ErrSys m))
                  | Inr r \<Rightarrow> ret (release_of r))))"

definition asset_name :: "string \<Rightarrow> string \<Rightarrow> string \<Rightarrow> string" where
  "asset_name version goos goarch =
     ''multibird_'' @ version @ ''_'' @ goos @ ''_'' @ goarch @ ''.tar.gz''"

section \<open>Checksums\<close>

definition checksum_line :: "string \<Rightarrow> (string \<times> string) option" where
  "checksum_line line =
     (case str_fields line of
        [d, n] \<Rightarrow> if length d = 64 then Some (n, to_lower d) else None
      | _ \<Rightarrow> None)"

definition parse_checksums :: "string \<Rightarrow> string \<Rightarrow> string option" where
  "parse_checksums s = map_of (rev (List.map_filter checksum_line (split_on CHR 0x0A s)))"

section \<open>Downloading and unpacking\<close>

definition fetch_url :: "asset \<Rightarrow> string \<Rightarrow> string" where
  "fetch_url a t = (if t \<noteq> [] \<and> as_api_url a \<noteq> [] then as_api_url a else as_browser_url a)"

definition fetch :: "asset \<Rightarrow> nat \<Rightarrow> string op" where
  "fetch a limit =
     bnd token (\<lambda>t.
       let url = fetch_url a t
       in bnd (http_get url ((''Accept'', ''application/octet-stream'') # auth_header t)) (\<lambda>resp.
            if hr_code resp \<noteq> 200 then fail (ErrMsg (url @ '': '' @ hr_status resp))
            else case hr_body resp of Inl m \<Rightarrow> fail (ErrSys m) | Inr b \<Rightarrow> ret (take limit b)))"

definition max_binary :: nat where "max_binary = 256 * 2 ^ 20"

fun find_binary :: "string \<Rightarrow> tar_entry list \<Rightarrow> string option \<Rightarrow> err + string" where
  "find_binary name [] broken =
     (case broken of
        None \<Rightarrow> Inl (ErrMsg (''archive contains no '' @ name @ '' binary''))
      | Some m \<Rightarrow> Inl (ErrSys m))"
| "find_binary name (e # es) broken =
     (if path_base (te_name e) = name \<and> te_regular e
      then (case te_content e of Inl m \<Rightarrow> Inl (ErrSys m) | Inr c \<Rightarrow> Inr (take max_binary c))
      else find_binary name es broken)"

definition extract_binary :: "env \<Rightarrow> string \<Rightarrow> string \<Rightarrow> err + string" where
  "extract_binary en archive name =
     (case e_untar en archive of
        Inl m \<Rightarrow> Inl (ErrSys m)
      | Inr (es, broken) \<Rightarrow> find_binary name es broken)"

section \<open>Installing\<close>

definition checksums_limit :: nat where "checksums_limit = 2 ^ 20"

text \<open>The archive, checked: the part of \<^verbatim>\<open>Apply\<close> before anything is written.\<close>

definition verified_binary :: "release \<Rightarrow> string \<Rightarrow> string \<Rightarrow> string op" where
  "verified_binary rel goos goarch =
     (let name = asset_name (release_version rel) goos goarch
      in case rl_assets rel name of
           None \<Rightarrow> fail (ErrMsg (''release '' @ rl_tag rel @ '' has no asset '' @ name))
         | Some a \<Rightarrow>
             (case rl_assets rel ''checksums.txt'' of
                None \<Rightarrow> fail (ErrMsg (''release '' @ rl_tag rel @ '' has no checksums.txt''))
              | Some sa \<Rightarrow>
                  bnd (wrap ''downloading checksums.txt'' (fetch sa checksums_limit)) (\<lambda>sums.
                    case parse_checksums sums name of
                      None \<Rightarrow> fail (ErrMsg (''checksums.txt in '' @ rl_tag rel @ '' has no entry for '' @ name))
                    | Some want \<Rightarrow>
                        bnd (wrap (''downloading '' @ name) (fetch a max_binary)) (\<lambda>archive.
                        bnd (asks w_env) (\<lambda>en.
                          if e_sha256 en archive \<noteq> want then fail (ErrMsg (''checksum mismatch for '' @ name))
                          else case extract_binary en archive ''multibird'' of
                                 Inl e \<Rightarrow> fail (Wrap (''extracting '' @ name) e)
                               | Inr bin \<Rightarrow> ret bin)))))"

definition replace_binary :: "string \<Rightarrow> string \<Rightarrow> unit op" where
  "replace_binary path bin =
     (let tmp = path @ ''.new''
      in thn (wrap (''writing '' @ tmp) (write_file tmp bin 493))
        (bnd (attempt (os_rename tmp path)) (\<lambda>r.
           case r of
             Inl e \<Rightarrow> thn (ignore (os_remove tmp)) (fail (Wrap (''replacing '' @ path) e))
           | Inr _ \<Rightarrow> ret ())))"

definition apply_release :: "release \<Rightarrow> string \<Rightarrow> string \<Rightarrow> string \<Rightarrow> unit op" where
  "apply_release rel goos goarch path =
     bnd (verified_binary rel goos goarch) (replace_binary path)"

section \<open>Facts\<close>

lemma checksum_line_some:
  "checksum_line l = Some (n, d) \<longleftrightarrow> (\<exists>h. str_fields l = [h, n] \<and> length h = 64 \<and> d = to_lower h)"
  by (auto simp: checksum_line_def split: list.splits if_splits)

definition http_event :: "event \<Rightarrow> bool" where
  "http_event e \<longleftrightarrow> (\<exists>url hs. e = EvHttp url hs)"

lemma emits_fetch [frame_intros]:
  "(\<And>url hs. P (EvHttp url hs)) \<Longrightarrow> keeps (emits P) (fetch a limit)"
  unfolding fetch_def token_def by (intro frame_intros)

lemma emits_latest [frame_intros]:
  "(\<And>url hs. P (EvHttp url hs)) \<Longrightarrow> keeps (emits P) latest_release"
  unfolding latest_release_def token_def by (intro frame_intros)

lemma emits_verified: "keeps (emits http_event) (verified_binary rel goos goarch)"
  unfolding verified_binary_def Let_def
  by (intro frame_intros) (auto simp: http_event_def)

lemma still_fetch: "keeps fs_still (fetch a limit)"
  unfolding fetch_def token_def getenv_def by (intro still_intros)

lemma still_verified: "keeps fs_still (verified_binary rel goos goarch)"
  unfolding verified_binary_def
  by (intro still.combinators still_fetch)

text \<open>What a verified binary is.\<close>

definition certified :: "release \<Rightarrow> string \<Rightarrow> string \<Rightarrow> env \<Rightarrow> string \<Rightarrow> bool" where
  "certified rel goos goarch en bin \<longleftrightarrow>
     (\<exists>a sa sums archive u u' v v'.
        rl_assets rel (asset_name (release_version rel) goos goarch) = Some a \<and>
        rl_assets rel ''checksums.txt'' = Some sa \<and>
        fetch sa checksums_limit u = (Inr sums, u') \<and> fetch a max_binary v = (Inr archive, v') \<and>
        parse_checksums sums (asset_name (release_version rel) goos goarch) = Some (e_sha256 en archive) \<and>
        extract_binary en archive ''multibird'' = Inr bin)"

lemma verified_certified:
  assumes "verified_binary rel goos goarch w = (Inr bin, w')"
  shows "certified rel goos goarch (w_env w) bin"
proof -
  let ?n = "asset_name (release_version rel) goos goarch"
  obtain a sa where a: "rl_assets rel ?n = Some a" "rl_assets rel ''checksums.txt'' = Some sa"
    using assms by (auto simp: verified_binary_def Let_def split: option.splits)
  with assms obtain sums w1 where 1: "fetch sa checksums_limit w = (Inr sums, w1)"
    and rest: "(case parse_checksums sums ?n of
        None \<Rightarrow> fail (ErrMsg (''checksums.txt in '' @ rl_tag rel @ '' has no entry for '' @ ?n))
      | Some want \<Rightarrow> bnd (wrap (''downloading '' @ ?n) (fetch a max_binary)) (\<lambda>archive. bnd (asks w_env) (\<lambda>en.
          if e_sha256 en archive \<noteq> want then fail (ErrMsg (''checksum mismatch for '' @ ?n))
          else case extract_binary en archive ''multibird'' of
                 Inl e \<Rightarrow> fail (Wrap (''extracting '' @ ?n) e) | Inr bin \<Rightarrow> ret bin))) w1 = (Inr bin, w')"
    by (auto simp: verified_binary_def Let_def bnd_result)
  then obtain want where want: "parse_checksums sums ?n = Some want"
    by (auto split: option.splits)
  with rest obtain archive w2 where 2: "fetch a max_binary w1 = (Inr archive, w2)"
    and end': "e_sha256 (w_env w2) archive = want" "extract_binary (w_env w2) archive ''multibird'' = Inr bin"
    by (auto simp: bnd_result split: if_splits sum.splits)
  have "w_env w2 = w_env w"
    using keepsD [OF still_fetch 1] keepsD [OF still_fetch 2] by (simp add: fs_still_def)
  with a 1 2 want end' show ?thesis unfolding certified_def by metis
qed

lemma write_file_effect:
  assumes "write_file p c m w = (r, w')"
  shows "r = Inr () \<Longrightarrow> (\<exists>m'. map_of (w_fs w') p = Some (File c m'))"
    and "r = Inl e \<Longrightarrow> w_fs w' = w_fs w"
    and "q \<noteq> p \<Longrightarrow> map_of (w_fs w') q = map_of (w_fs w) q"
  using assms
  by (auto simp: write_file_def fs_call_def put_file_def log_event_def
      split: option.splits node.splits if_splits prod.splits)

lemma rename_effect:
  assumes "os_rename p q w = (r, w')" and "p \<noteq> q"
  shows "r = Inr () \<Longrightarrow> map_of (w_fs w') q = map_of (w_fs w) p \<and> map_of (w_fs w') p = None"
    and "r = Inl e \<Longrightarrow> w_fs w' = w_fs w"
    and "x \<noteq> p \<Longrightarrow> x \<noteq> q \<Longrightarrow> map_of (w_fs w') x = map_of (w_fs w) x"
  using assms
  by (auto simp: os_rename_def fs_call_def log_event_def
      split: option.splits node.splits if_splits prod.splits)

lemma remove_others:
  "os_remove p w = (r, w') \<Longrightarrow> q \<noteq> p \<Longrightarrow> map_of (w_fs w') q = map_of (w_fs w) q"
  by (auto simp: os_remove_def fs_call_def remove_node_def log_event_def
      split: option.splits node.splits if_splits prod.splits)

lemma replace_effect:
  assumes "replace_binary path bin w = (r, w')"
  shows "(r = Inr () \<longrightarrow> (\<exists>m. map_of (w_fs w') path = Some (File bin m)) \<and> map_of (w_fs w') (path @ ''.new'') = None) \<and>
    (r \<noteq> Inr () \<longrightarrow> map_of (w_fs w') path = map_of (w_fs w) path) \<and>
    (\<forall>q. q \<noteq> path \<and> q \<noteq> path @ ''.new'' \<longrightarrow> map_of (w_fs w') q = map_of (w_fs w) q)"
proof -
  let ?t = "path @ ''.new''"
  obtain r1 w1 where 1: "write_file ?t bin 493 w = (r1, w1)" by (cases "write_file ?t bin 493 w")
  obtain r2 w2 where 2: "os_rename ?t path w1 = (r2, w2)" by (cases "os_rename ?t path w1")
  obtain r3 w3 where 3: "os_remove ?t w2 = (r3, w3)" by (cases "os_remove ?t w2")
  note e1 = write_file_effect [OF 1] and e2 = rename_effect [OF 2] and e3 = remove_others [OF 3]
  have run: "(r, w') = (case r1 of Inl e \<Rightarrow> (Inl (Wrap (''writing '' @ ?t) e), w1)
      | Inr _ \<Rightarrow> (case r2 of Inl e \<Rightarrow> (Inl (Wrap (''replacing '' @ path) e), w3) | Inr _ \<Rightarrow> (Inr (), w2)))"
    using assms 1 2 3
    by (auto simp: replace_binary_def Let_def thn_def bnd_def wrap_def attempt_def split: sum.splits)
  show ?thesis
  proof (cases r1)
    case (Inl e)
    with run e1(2) [OF Inl] show ?thesis by simp
  next
    case i: (Inr u)
    show ?thesis
    proof (cases r2)
      case (Inl e)
      with run i e1(3) e2(2) [OF _ Inl] e3 show ?thesis by simp
    next
      case (Inr u')
      with run i e1(1,3) e2(1,3) show ?thesis by auto
    qed
  qed
qed

section \<open>Properties\<close>


text \<open>Reading \<^verbatim>\<open>checksums.txt\<close>.  An entry is found exactly when some line has two fields, the second
  the name and the first of 64 characters; the digest is that of the last such line, in lower case;
  every other line is skipped.\<close>

theorem checksums_exact:
  "(parse_checksums s n = None \<longleftrightarrow>
     (\<forall>l \<in> set (split_on CHR 0x0A s). \<forall>h. str_fields l = [h, n] \<longrightarrow> length h \<noteq> 64)) \<and>
   (parse_checksums s n = Some d \<longleftrightarrow>
     (\<exists>before l after h. split_on CHR 0x0A s = before @ l # after \<and> str_fields l = [h, n] \<and> length h = 64 \<and>
        d = to_lower h \<and> (\<forall>l' \<in> set after. \<forall>h'. str_fields l' = [h', n] \<longrightarrow> length h' \<noteq> 64)))"
proof -
  have none: "map_of (rev (List.map_filter checksum_line ls)) n = None \<longleftrightarrow>
      (\<forall>l \<in> set ls. \<forall>h. str_fields l = [h, n] \<longrightarrow> length h \<noteq> 64)" for ls
  proof -
    have "map_of (rev (List.map_filter checksum_line ls)) n = None \<longleftrightarrow>
        (\<forall>l \<in> set ls. \<forall>d. checksum_line l \<noteq> Some (n, d))"
      by (auto simp: map_of_eq_None_iff map_filter_def image_iff)
    then show ?thesis by (auto simp: checksum_line_some)
  qed
  have some: "map_of (rev (List.map_filter checksum_line ls)) n = Some d \<longleftrightarrow>
      (\<exists>before l after. ls = before @ l # after \<and> checksum_line l = Some (n, d) \<and>
         map_of (rev (List.map_filter checksum_line after)) n = None)" for ls
  proof (induction ls)
    case Nil
    then show ?case by (simp add: map_filter_simps)
  next
    case (Cons a ls)
    show ?case
    proof (cases "map_of (rev (List.map_filter checksum_line ls)) n")
      case None
      then have "\<forall>l \<in> set ls. \<forall>d. checksum_line l \<noteq> Some (n, d)"
        using none [of ls] by (auto simp: checksum_line_some)
      with None show ?thesis
        using Cons by (auto simp: map_filter_simps map_add_def Cons_eq_append_conv split: option.splits)
    next
      case (Some d')
      then show ?thesis
        using Cons by (auto simp: map_filter_simps map_add_def Cons_eq_append_conv split: option.splits)
    qed
  qed
  show ?thesis
    unfolding parse_checksums_def none some by (simp add: checksum_line_some) blast
qed

section \<open>A concrete upgrade\<close>

definition example_digest :: string where
  "example_digest = replicate 64 (CHR ''A'')"

definition example_sums :: string where
  "example_sums = example_digest @ ''  multibird_0.3.0_linux_amd64.tar.gz'' @ nl @ ''malformed line'' @ nl"

definition upgrade_world :: world where
  "upgrade_world = (example_world [(''/bin'', Dir 493), (''/bin/multibird'', File ''OLD'' 493)])
     \<lparr>w_env := example_env\<lparr>
        e_http := (\<lambda>_ url _. Inr \<lparr>hr_code = 200, hr_status = ''200 OK'',
          hr_body = Inr (if url = ''sums'' then example_sums else ''ARCHIVE'')\<rparr>),
        e_sha256 := (\<lambda>_. replicate 64 (CHR ''a'')),
        e_untar := (\<lambda>_. Inr ([\<lparr>te_name = ''README.md'', te_regular = True, te_content = Inr ''docs''\<rparr>,
          \<lparr>te_name = ''multibird_v1/multibird'', te_regular = True, te_content = Inr ''NEW''\<rparr>], None))\<rparr>\<rparr>"

definition upgrade_release :: release where
  "upgrade_release = release_of (''v0.3.0'',
     [(''multibird_0.3.0_linux_amd64.tar.gz'', \<lparr>as_browser_url = ''archive'', as_api_url = []\<rparr>),
      (''checksums.txt'', \<lparr>as_browser_url = ''sums'', as_api_url = []\<rparr>)])"


theorem checksums_exact_witness:
  "parse_checksums example_sums ''multibird_0.3.0_linux_amd64.tar.gz'' = Some (replicate 64 (CHR ''a'')) \<and>
   parse_checksums example_sums ''line'' = None"
proof
  show "parse_checksums example_sums ''multibird_0.3.0_linux_amd64.tar.gz'' = Some (replicate 64 (CHR ''a''))"
    by code_simp
  have "\<forall>l \<in> set (split_on CHR 0x0A example_sums). \<forall>h. str_fields l = [h, ''line''] \<longrightarrow> length h \<noteq> 64"
  proof -
    have "split_on CHR 0x0A example_sums =
      [example_digest @ ''  multibird_0.3.0_linux_amd64.tar.gz'', ''malformed line'', []]" by code_simp
    moreover have "str_fields (example_digest @ ''  multibird_0.3.0_linux_amd64.tar.gz'') =
      [example_digest, ''multibird_0.3.0_linux_amd64.tar.gz'']" "str_fields ''malformed line'' = [''malformed'', ''line'']"
      "str_fields [] = []" by code_simp+
    ultimately show ?thesis by simp
  qed
  with checksums_exact [of example_sums "''line''"] show "parse_checksums example_sums ''line'' = None" by blast
qed

text \<open>A binary above the extraction limit is cut off, although its archive was verified.\<close>

lemma extraction_truncates:
  assumes "e_untar en archive = Inr ([\<lparr>te_name = ''multibird'', te_regular = True, te_content = Inr c\<rparr>], None)"
  shows "extract_binary en archive ''multibird'' = Inr (take max_binary c)"
proof -
  have "path_base ''multibird'' = ''multibird''" by code_simp
  with assms show ?thesis by (simp add: extract_binary_def)
qed

end
