(* ===== verification/Output.thy ===== *)
theory Output
  imports GoStrings
begin

text \<open>
  What the commands use of Go's standard library to print: \<^verbatim>\<open>encoding/json\<close> with an indent of two
  blanks, \<^verbatim>\<open>text/tabwriter\<close> with cells of one width for each column and two blanks between, and the
  texts of a \<^verbatim>\<open>time.Duration\<close> and of a \<^verbatim>\<open>time.Time\<close> in JSON.  Text is taken to be ASCII: the width
  of a cell is the number of its bytes, and no byte sequence is replaced.
\<close>

section \<open>JSON\<close>

datatype json = JStr string | JInt int | JBool bool | JArr "json list" | JObj "(string \<times> json) list"

definition json_char :: "char \<Rightarrow> string" where
  "json_char c =
     (if c = CHR 0x22 then [CHR 0x5C, CHR 0x22]
      else if c = CHR 0x5C then [CHR 0x5C, CHR 0x5C]
      else if c = CHR 0x08 then [CHR 0x5C, CHR ''b'']
      else if c = CHR 0x0C then [CHR 0x5C, CHR ''f'']
      else if c = CHR 0x0A then [CHR 0x5C, CHR ''n'']
      else if c = CHR 0x0D then [CHR 0x5C, CHR ''r'']
      else if c = CHR 0x09 then [CHR 0x5C, CHR ''t'']
      else if of_char c < (32 :: nat) \<or> c \<in> {CHR ''<'', CHR ''>'', CHR ''&''}
      then CHR 0x5C # ''u00'' @ [hex_digit (of_char c div 16), hex_digit (of_char c mod 16)]
      else [c])"

definition json_string :: "string \<Rightarrow> string" where
  "json_string s = CHR 0x22 # concat (map json_char s) @ [CHR 0x22]"

definition new_line :: "nat \<Rightarrow> string" where
  "new_line depth = CHR 0x0A # replicate (2 * depth) CHR 0x20"

definition json_bracket :: "nat \<Rightarrow> char \<Rightarrow> char \<Rightarrow> string list \<Rightarrow> string" where
  "json_bracket depth l r items =
     (if items = [] then [l, r]
      else l # new_line (Suc depth) @ join items (CHR '','' # new_line (Suc depth)) @ new_line depth @ [r])"

fun json_text :: "nat \<Rightarrow> json \<Rightarrow> string" where
  "json_text d (JStr s) = json_string s"
| "json_text d (JInt i) = itoa i"
| "json_text d (JBool b) = (if b then ''true'' else ''false'')"
| "json_text d (JArr js) = json_bracket d CHR ''['' CHR '']'' (map (json_text (Suc d)) js)"
| "json_text d (JObj fs) = json_bracket d CHR ''{'' CHR ''}''
     (map (\<lambda>(k, v). json_string k @ '': '' @ json_text (Suc d) v) fs)"

text \<open>A field with \<^verbatim>\<open>omitempty\<close>.\<close>

definition json_opt :: "string \<Rightarrow> string \<Rightarrow> (string \<times> json) list" where
  "json_opt k v = (if v = [] then [] else [(k, JStr v)])"

section \<open>Tables\<close>

definition column_width :: "string list list \<Rightarrow> nat \<Rightarrow> nat" where
  "column_width rows j = fold max (map (\<lambda>r. length (r ! j) + 2) rows) 2"

definition table_row :: "nat list \<Rightarrow> string list \<Rightarrow> string" where
  "table_row widths cells =
     concat (map (\<lambda>(n, c). c @ replicate (n - length c) CHR 0x20) (zip widths (butlast cells))) @
     last cells @ [CHR 0x0A]"

definition table :: "string list list \<Rightarrow> string" where
  "table rows =
     (let widths = map (column_width rows) [0..<length (hd rows) - 1]
      in concat (map (table_row widths) rows))"

section \<open>Times\<close>

definition duration_text :: "nat \<Rightarrow> string" where
  "duration_text sec =
     (let m = sec div 60; h = m div 60
      in (if h > 0 then utoa h @ ''h'' else []) @
         (if m > 0 then utoa (m mod 60) @ ''m'' else []) @ utoa (sec mod 60) @ ''s'')"

text \<open>The civil date of a day counted from 1970-01-01: year, month and day.  Years are counted from
  March, in eras of 400 years.\<close>

definition year_of_era :: "nat \<Rightarrow> nat" where
  "year_of_era doe = (doe - doe div 1460 + doe div 36524 - doe div 146096) div 365"

definition day_of_year :: "nat \<Rightarrow> nat \<Rightarrow> nat" where
  "day_of_year doe yoe = doe - (365 * yoe + yoe div 4 - yoe div 100)"

definition month_day :: "nat \<Rightarrow> nat \<Rightarrow> nat \<times> nat \<times> nat" where
  "month_day y doy =
     (let mp = (5 * doy + 2) div 153; d = doy - (153 * mp + 2) div 5 + 1
      in if mp < 10 then (y, mp + 3, d) else (y + 1, mp - 9, d))"

definition civil_date :: "nat \<Rightarrow> nat \<times> nat \<times> nat" where
  "civil_date days =
     (let era = (days + 719468) div 146097; doe = (days + 719468) mod 146097; yoe = year_of_era doe
      in month_day (yoe + era * 400) (day_of_year doe yoe))"

definition padded :: "nat \<Rightarrow> nat \<Rightarrow> string" where
  "padded k n = (let t = utoa n in replicate (k - length t) CHR ''0'' @ t)"

definition trim_zeros :: "string \<Rightarrow> string" where
  "trim_zeros s = rev (dropWhile (\<lambda>c. c = CHR ''0'') (rev s))"

text \<open>RFC 3339 in UTC with the fraction's trailing zeros cut; no text beyond the year 9999.\<close>

definition time_json :: "nat \<Rightarrow> nat \<Rightarrow> string option" where
  "time_json sec ns =
     (let (y, m, d) = civil_date (sec div 86400); s = sec mod 86400
      in if y > 9999 then None
         else Some (padded 4 y @ ''-'' @ padded 2 m @ ''-'' @ padded 2 d @ ''T'' @
                padded 2 (s div 3600) @ '':'' @ padded 2 (s div 60 mod 60) @ '':'' @ padded 2 (s mod 60) @
                (if ns = 0 then [] else CHR ''.'' # trim_zeros (padded 9 ns)) @ ''Z''))"

section \<open>Examples\<close>

lemma civil_examples:
  "civil_date 0 = (1970, 1, 1)" "civil_date 11016 = (2000, 2, 29)" "civil_date 20700 = (2026, 9, 4)"
  "civil_date 47540 = (2100, 2, 28)" "civil_date 47541 = (2100, 3, 1)"
proof -
  have "year_of_era 135080 = 369" "year_of_era 146096 = 399" "year_of_era 9683 = 26" "year_of_era 36523 = 99"
    "year_of_era 36524 = 100" by (simp_all add: year_of_era_def)
  moreover have "day_of_year 135080 369 = 306" "day_of_year 146096 399 = 365" "day_of_year 9683 26 = 187"
    "day_of_year 36523 99 = 364" "day_of_year 36524 100 = 0" by (simp_all add: day_of_year_def)
  ultimately show "civil_date 0 = (1970, 1, 1)" "civil_date 11016 = (2000, 2, 29)" "civil_date 20700 = (2026, 9, 4)"
    "civil_date 47540 = (2100, 2, 28)" "civil_date 47541 = (2100, 3, 1)"
    by (simp_all add: civil_date_def month_day_def)
qed

lemma duration_example: "duration_text 3725 = ''1h2m5s''"
  by (simp add: duration_text_def Let_def utoa.simps digit_char_def char_of_def bit_0)

lemma output_examples:
  "table [[''NAME'', ''PORT'', ''DNS''], [''homelab'', ''51900'', ''native'']] =
     ''NAME     PORT   DNS'' @ [CHR 0x0A] @ ''homelab  51900  native'' @ [CHR 0x0A]"
  "json_text 0 (JArr []) = ''[]''"
  by code_simp+

end
