(* ===== verification/Commands.thy ===== *)
theory Commands
  imports Peers Doctor Logs Watch SelfUpdate Output
begin

text \<open>
  \<^verbatim>\<open>cmd/multibird/main.go\<close>: the commands.  The parsing of the command line is cobra's: a command gets its
  positional arguments, as many as its \<^verbatim>\<open>Args\<close> allows, and its flags; a flag whose being set matters is an
  option.  \<^verbatim>\<open>version.Version\<close> and the build settings, both put in by the build, are arguments too.

  A line printed to standard output is one \<open>EvPrint\<close>, tables and JSON are \<open>EvOut\<close>, what goes to standard error
  is \<open>EvError\<close>.  \<^verbatim>\<open>dns sync --watch\<close> ends in the state machine of the theory \<^theory_text>\<open>Watch\<close>; the command's result
  are the instances it is started with.
\<close>

section \<open>Targets\<close>

definition targets :: "store \<Rightarrow> string list \<Rightarrow> bool \<Rightarrow> inst list op" where
  "targets s args all =
     (if all
      then bnd (list_instances s) (\<lambda>l. if l = [] then fail (ErrMsg ''no instances configured'') else ret l)
      else if length args \<noteq> 1 then fail (ErrMsg ''specify an instance name or --all'')
      else bnd (load_instance s (hd args)) (\<lambda>i. ret [i]))"

definition instances_for :: "store \<Rightarrow> string list \<Rightarrow> inst list op" where
  "instances_for s args =
     (if length args = 1 then bnd (load_instance s (hd args)) (\<lambda>i. ret [i]) else list_instances s)"

text \<open>Completion has no errors to show.\<close>

definition complete_instance_names :: "string list \<Rightarrow> string list op" where
  "complete_instance_names args =
     (if args \<noteq> [] then ret []
      else bnd (attempt (bnd new_env list_instances)) (\<lambda>r.
        ret (case r of Inl _ \<Rightarrow> [] | Inr insts \<Rightarrow> map i_name insts)))"

section \<open>The life of an instance\<close>

record add_flags =
  af_management_url :: string
  af_setup_key :: string
  af_sso :: bool
  af_netbird_bin :: string
  af_wireguard_port :: int
  af_dns_mode :: string
  af_disable_dns :: bool

definition new_inst :: "string \<Rightarrow> add_flags \<Rightarrow> inst" where
  "new_inst name f =
     \<lparr>i_name = name, i_management_url = af_management_url f, i_setup_key = af_setup_key f, i_sso = af_sso f,
      i_netbird_bin = af_netbird_bin f, i_index = 0, i_wireguard_port = af_wireguard_port f, i_dns_mode = [],
      i_legacy_disable_dns = False, i_logged_in = False, i_interface = []\<rparr>"

definition bad_mode :: "string \<Rightarrow> err" where
  "bad_mode m = ErrMsg (''invalid dns mode '' @ quote m @ '': use native, multibird or disabled (see docs/dns.md)'')"

definition add_cmd :: "string \<Rightarrow> add_flags \<Rightarrow> unit op" where
  "add_cmd name f =
     (if (af_setup_key f = []) = (\<not> af_sso f) then fail (ErrMsg ''exactly one of --setup-key or --sso is required'')
      else bnd new_env (\<lambda>s.
        let mode = (if af_disable_dns f then DNSDisabled else af_dns_mode f)
        in bnd (if mode = [] then ret (new_inst name f)
                else case parse_dns_mode mode of
                       None \<Rightarrow> fail (bad_mode mode)
                     | Some m \<Rightarrow> ret ((new_inst name f)\<lparr>i_dns_mode := m\<rparr>)) (\<lambda>i.
           bnd (add s i) (\<lambda>i'. printf (''added '' @ inst_string i')))))"

text \<open>The loop of \<^verbatim>\<open>up\<close>: the names of the instances that failed.\<close>

fun up_each :: "store \<Rightarrow> bool \<Rightarrow> bool \<Rightarrow> inst list \<Rightarrow> string list op" where
  "up_each s strict all [] = ret []"
| "up_each s strict all (i # is) =
     bnd (caught (up s i strict)) (\<lambda>r.
       case r of
         Inl e \<Rightarrow>
           if \<not> all then fail e
           else thn (errorf (''error: '' @ err_text e))
               (bnd (up_each s strict all is) (\<lambda>bad. ret (i_name i # bad)))
       | Inr _ \<Rightarrow> thn (printf (i_name i @ '': up'')) (up_each s strict all is))"

definition up_failed :: "string list \<Rightarrow> err" where
  "up_failed bad =
     ErrMsg (utoa (length bad) @ '' instance(s) failed to come up: '' @ join bad '', '' @
             '' (others were brought up)'')"

definition up_cmd :: "string list \<Rightarrow> bool \<Rightarrow> bool \<Rightarrow> unit op" where
  "up_cmd args all strict =
     bnd new_env (\<lambda>s.
     bnd (targets s args all) (\<lambda>insts.
     bnd (up_each s strict all insts) (\<lambda>bad.
       if bad \<noteq> [] then fail (up_failed bad) else ret ())))"

definition down_cmd :: "string list \<Rightarrow> bool \<Rightarrow> unit op" where
  "down_cmd args all =
     bnd new_env (\<lambda>s.
     bnd (targets s args all) (\<lambda>insts.
     thn (each (\<lambda>i. thn (down s i) (printf (i_name i @ '': down''))) insts) (ret ())))"

definition remove_cmd :: "string \<Rightarrow> bool \<Rightarrow> unit op" where
  "remove_cmd name purge =
     bnd new_env (\<lambda>s.
     bnd (load_instance s name) (\<lambda>i.
     thn (remove_instance s i purge)
         (printf (i_name i @ (if purge then '': removed (netbird config purged)''
                              else '': removed (netbird config.json kept; --purge deletes it)'')))))"

definition nuke_cmd :: "string \<Rightarrow> unit op" where
  "nuke_cmd name =
     bnd new_env (\<lambda>s.
     bnd (load_instance s name) (\<lambda>i.
     bnd (nuke_instance s i) (\<lambda>errs.
     thn (each (\<lambda>e. errorf (''nuke: '' @ err_text e)) errs)
         (if errs \<noteq> [] then fail (ErrMsg (utoa (length errs) @ '' cleanup step(s) failed''))
          else printf (i_name i @ '': nuked (safe to run again)'')))))"

section \<open>Views\<close>

definition encode :: "json \<Rightarrow> unit op" where
  "encode j = write_out (json_text 0 j @ [CHR 0x0A])"

definition status_json :: "instance_status \<Rightarrow> json" where
  "status_json v =
     JObj ([(''name'', JStr (v_name v)), (''management_url'', JStr (v_management_url v)),
            (''state'', JStr (v_state v))] @
           json_opt ''netbird_ip'' (v_netbird_ip v) @ [(''peers'', JInt (int (v_peers v)))] @
           json_opt ''interface'' (v_interface v) @ json_opt ''netbird_version'' (v_version v) @
           [(''wireguard_port'', JInt (v_wg_port v)), (''log_file'', JStr (v_log_file v))])"

definition status_row :: "instance_status \<Rightarrow> string list" where
  "status_row v = [v_name v, v_state v, v_netbird_ip v, utoa (v_peers v), v_interface v, v_management_url v, v_version v]"

definition status_cmd :: "string list \<Rightarrow> bool \<Rightarrow> unit op" where
  "status_cmd args json_out =
     bnd new_env (\<lambda>s.
     bnd (instances_for s args) (\<lambda>insts.
     bnd (status_all s insts) (\<lambda>sts.
       if json_out then encode (JArr (map status_json sts))
       else write_out (table ([''NAME'', ''STATE'', ''NETBIRD IP'', ''PEERS'', ''IFACE'', ''MGMT'', ''VERSION''] #
              map status_row sts)))))"

text \<open>The age of a handshake: the clock counts milliseconds of Unix time; to whole seconds, halves up, and
  never negative.\<close>

definition handshake_ago :: "nat \<Rightarrow> (int \<times> int) option \<Rightarrow> string" where
  "handshake_ago t hs =
     (case hs of
        None \<Rightarrow> ''-''
      | Some (sec, ns) \<Rightarrow>
          (let d = int t * 10 ^ 6 - (sec * 10 ^ 9 + ns)
           in duration_text (nat ((d + 5 * 10 ^ 8) div 10 ^ 9)) @ '' ago''))"

definition peer_row :: "nat \<Rightarrow> string \<Rightarrow> peer \<Rightarrow> string list" where
  "peer_row t name p = [name, pr_name p, pr_ip p, pr_status p, handshake_ago t (pr_handshake p)]"

text \<open>No JSON for a time beyond the year 9999.\<close>

definition peer_json :: "peer \<Rightarrow> json option" where
  "peer_json p =
     (let obj = (\<lambda>hs. JObj ([(''name'', JStr (pr_name p)), (''ip'', JStr (pr_ip p))] @ json_opt ''ipv6'' (pr_ipv6 p) @
            [(''status'', JStr (pr_status p)), (''relayed'', JBool (pr_relayed p))] @ hs))
      in case pr_handshake p of
           None \<Rightarrow> Some (obj [])
         | Some (sec, ns) \<Rightarrow>
             map_option (\<lambda>t. obj [(''last_handshake'', JStr t)]) (time_json (nat sec) (nat ns)))"

fun all_some :: "'a option list \<Rightarrow> 'a list option" where
  "all_some [] = Some []"
| "all_some (None # _) = None"
| "all_some (Some x # xs) = map_option ((#) x) (all_some xs)"

definition peers_json :: "instance_peers \<Rightarrow> json option" where
  "peers_json g = map_option (\<lambda>ps. JObj [(''name'', JStr (ip_name g)), (''state'', JStr (ip_state g)), (''peers'', JArr ps)])
     (all_some (map peer_json (ip_peers g)))"

definition no_peers_line :: "instance_peers \<Rightarrow> string" where
  "no_peers_line g = ip_name g @ '': no peers ('' @ ip_state g @ '')''"

definition peers_cmd :: "string list \<Rightarrow> bool \<Rightarrow> unit op" where
  "peers_cmd args json_out =
     bnd new_env (\<lambda>s.
     bnd (instances_for s args) (\<lambda>insts.
       if insts = [] then printf ''no instances''
       else bnd (peers s insts) (\<lambda>groups.
         if json_out
         then (case all_some (map peers_json groups) of
                 None \<Rightarrow> fail (ErrSys ''json: error calling MarshalJSON for type *time.Time'')
               | Some js \<Rightarrow> encode (JArr js))
         else bnd now (\<lambda>t.
           thn (if concat (map ip_peers groups) = [] then ret ()
                else write_out (table ([''INSTANCE'', ''PEER'', ''MESH IP'', ''STATUS'', ''LAST HANDSHAKE''] #
                       concat (map (\<lambda>g. map (peer_row t (ip_name g)) (ip_peers g)) groups))))
          (thn (each (\<lambda>g. printf (no_peers_line g)) (filter (\<lambda>g. ip_peers g = []) groups))
               (ret ()))))))"

definition list_row :: "store \<Rightarrow> inst \<Rightarrow> string list" where
  "list_row s i =
     [i_name i, i_management_url i, itoa (i_index i), itoa (p_wg_port (store_params s i)),
      (if i_netbird_bin i = [] then ''(PATH)'' else i_netbird_bin i), i_dns_mode i]"

definition list_cmd :: "unit op" where
  "list_cmd =
     bnd new_env (\<lambda>s.
     bnd (list_instances s) (\<lambda>insts.
       if insts = [] then printf ''no instances''
       else write_out (table ([''NAME'', ''MGMT'', ''INDEX'', ''WG PORT'', ''BIN'', ''DNS''] # map (list_row s) insts))))"

definition check_json :: "check \<Rightarrow> json" where
  "check_json c =
     JObj ([(''name'', JStr (ck_name c)), (''ok'', JBool (ck_ok c))] @
           (if ck_warn c then [(''warn'', JBool True)] else []) @ [(''detail'', JStr (ck_detail c))])"

definition check_line :: "check \<Rightarrow> string" where
  "check_line c =
     (let mark = (if \<not> ck_ok c then ''FAIL'' else if ck_warn c then ''warn'' else ''ok  '')
      in ''['' @ mark @ ''] '' @ ck_name c @ '': '' @ ck_detail c)"

definition doctor_cmd :: "(string list \<Rightarrow> string list) \<Rightarrow> bool \<Rightarrow> bool \<Rightarrow> unit op" where
  "doctor_cmd ord strict json_out =
     bnd new_env (\<lambda>s.
     bnd (doctor ord s) (\<lambda>checks.
     let fails = length (filter (\<lambda>c. \<not> ck_ok c) checks);
         warns = length (filter (\<lambda>c. ck_ok c \<and> ck_warn c) checks)
     in thn (if json_out then encode (JArr (map check_json checks))
             else thn (each (\<lambda>c. printf (check_line c)) checks) (ret ()))
            (if fails > 0 then fail (ErrMsg (utoa fails @ '' check(s) failed''))
             else if strict \<and> warns > 0
             then fail (ErrMsg (utoa warns @ '' warning(s) treated as fatal (--strict)''))
             else ret ())))"

definition logs_cmd :: "string \<Rightarrow> bool \<Rightarrow> int \<Rightarrow> poll list \<Rightarrow> unit op" where
  "logs_cmd name following tail_kb polls =
     bnd new_env (\<lambda>s.
     bnd (load_instance s name) (\<lambda>i. logs s i (tail_bytes tail_kb) following polls))"

section \<open>Boot units\<close>

definition executable :: "string \<Rightarrow> string op" where
  "executable what =
     bnd (asks (\<lambda>w. e_executable (w_env w))) (\<lambda>b.
       case b of None \<Rightarrow> fail (Wrap what (ErrSys ''executable'')) | Some x \<Rightarrow> ret x)"

definition install_cmd :: "string \<Rightarrow> bool \<Rightarrow> unit op" where
  "install_cmd name dns_watch_too =
     bnd new_env (\<lambda>s.
     bnd (load_instance s name) (\<lambda>i.
     bnd (executable ''locating the multibird binary'') (\<lambda>bin.
     bnd (install (i_name i) bin (s_root s)) (\<lambda>path.
     thn (printf (i_name i @ '': boot unit installed ('' @ path @ '')''))
         (if \<not> dns_watch_too then ret ()
          else if i_dns_mode i \<noteq> DNSMultibird
          then fail (ErrMsg ''--dns-watch only makes sense for dns_mode multibird'')
          else bnd (install_dns_watch (i_name i) bin (s_root s)) (\<lambda>wpath.
               printf (i_name i @ '': dns-watch unit installed ('' @ wpath @ '')'')))))))"

definition uninstall_cmd :: "string \<Rightarrow> unit op" where
  "uninstall_cmd name =
     thn (uninstall_dns_watch name)
    (thn (uninstall name)
         (printf (name @ '': boot unit removed (dns-watch unit too, if present)'')))"

section \<open>Settings\<close>

record set_flags =
  sf_dns_mode :: "string option"
  sf_disable_dns :: "bool option"
  sf_wireguard_port :: "int option"
  sf_netbird_bin :: "string option"

definition set_changes_of :: "set_flags \<Rightarrow> err + set_changes" where
  "set_changes_of f =
     sum_bind (case sf_dns_mode f of
         None \<Rightarrow> Inr None
       | Some v \<Rightarrow> (case parse_dns_mode v of
            None \<Rightarrow> Inl (bad_mode v)
          | Some m \<Rightarrow> Inr (Some m))) (\<lambda>mode.
     sum_bind (case sf_disable_dns f of
         None \<Rightarrow> Inr mode
       | Some b \<Rightarrow> if mode \<noteq> None then Inl (ErrMsg ''pass either --dns-mode or the deprecated --disable-dns, not both'')
                   else Inr (Some (if b then DNSDisabled else DNSNative))) (\<lambda>mode.
       if mode = None \<and> sf_wireguard_port f = None \<and> sf_netbird_bin f = None
       then Inl (ErrMsg ''nothing to change'')
       else Inr \<lparr>ch_dns_mode = mode, ch_wireguard_port = sf_wireguard_port f, ch_netbird_bin = sf_netbird_bin f\<rparr>))"

definition set_cmd :: "string \<Rightarrow> set_flags \<Rightarrow> unit op" where
  "set_cmd name f =
     bnd new_env (\<lambda>s.
     bnd (load_instance s name) (\<lambda>i.
       case set_changes_of f of
         Inl e \<Rightarrow> fail e
       | Inr ch \<Rightarrow> thn (set_instance s i ch) (printf (i_name i @ '': settings updated''))))"

section \<open>Host DNS\<close>

text \<open>The loop over the instances: how many failed.\<close>

fun sync_each :: "store \<Rightarrow> inst list \<Rightarrow> nat op" where
  "sync_each s [] = ret 0"
| "sync_each s (i # is) =
     bnd (caught (dns_sync s i)) (\<lambda>r.
       case r of
         Inl e \<Rightarrow> thn (errorf (''error: '' @ err_text e)) (bnd (sync_each s is) (\<lambda>n. ret (Suc n)))
       | Inr _ \<Rightarrow> thn (printf (i_name i @ '': dns synced'')) (sync_each s is))"

definition sweep_step :: "store \<Rightarrow> nat op" where
  "sweep_step s =
     bnd (dns_cleanup_strays s) (\<lambda>(cleaned, e).
     bnd (case e of None \<Rightarrow> ret 0 | Some e \<Rightarrow> thn (errorf (''error: '' @ err_text e)) (ret 1)) (\<lambda>n.
     thn (each (\<lambda>x. printf (x @ '': stray dns registration removed'')) cleaned) (ret n)))"

definition dns_sync_cmd :: "string list \<Rightarrow> bool \<Rightarrow> bool \<Rightarrow> inst list option op" where
  "dns_sync_cmd args all watch =
     bnd new_env (\<lambda>s.
     bnd (targets s args (all \<or> (args = [] \<and> \<not> all))) (\<lambda>insts.
       if watch then thn (printf ''watching daemon events; Ctrl-C to stop'') (ret (Some insts))
       else bnd (sync_each s insts) (\<lambda>bad.
            bnd (if args = [] then sweep_step s else ret 0) (\<lambda>swept.
              if bad + swept > 0 then fail (ErrMsg (utoa (bad + swept) @ '' sync step(s) failed''))
              else ret None))))"

section \<open>Upgrade\<close>

definition goos :: "os \<Rightarrow> string" where
  "goos x = (case x of Linux \<Rightarrow> ''linux'' | Darwin \<Rightarrow> ''darwin'')"

definition up_to_date :: "string \<Rightarrow> release \<Rightarrow> bool" where
  "up_to_date ver rel = (case compare ver (release_version rel) of None \<Rightarrow> False | Some c \<Rightarrow> c \<ge> 0)"

definition upgrade_tail :: "string \<Rightarrow> (string \<times> string) list option \<Rightarrow> release \<Rightarrow> string \<Rightarrow> unit op" where
  "upgrade_tail ver info rel bin =
     bnd (asks (\<lambda>w. (goos (e_os (w_env w)), e_arch (w_env w)))) (\<lambda>(os, arch).
     thn (apply_release rel os arch bin)
         (printf (''upgraded '' @ full_version ver info @ '' -> '' @ rl_tag rel @ '' ('' @ bin @ '')'')))"

definition upgrade_cmd :: "string \<Rightarrow> (string \<times> string) list option \<Rightarrow> bool \<Rightarrow> bool \<Rightarrow> unit op" where
  "upgrade_cmd ver info check force =
     bnd latest_release (\<lambda>rel.
       if ver = ''dev'' \<and> \<not> force
       then fail (ErrMsg (''this multibird was built from source (version '' @ full_version ver info @ '')''))
       else if ver \<noteq> ''dev'' \<and> up_to_date ver rel \<and> \<not> force
       then printf (''already up to date ('' @ ver @ ''; latest release is '' @ rl_tag rel @ '')'')
       else if check
       then printf (''upgrade available: '' @ full_version ver info @ '' -> '' @ rl_tag rel)
       else bnd (executable ''locating the running binary'') (upgrade_tail ver info rel))"

section \<open>The program\<close>

text \<open>\<^verbatim>\<open>internal/tui\<close>: a placeholder.\<close>

definition tui_run :: "unit op" where
  "tui_run = fail (ErrMsg ''the TUI lands in v0.3'')"

text \<open>All commands.  \<open>ord\<close> is the order of a Go map, \<open>polls\<close> what following a log finds.\<close>

datatype command =
    CmdAdd string add_flags
  | CmdUp "string list" bool bool
  | CmdDown "string list" bool
  | CmdStatus "string list" bool
  | CmdPeers "string list" bool
  | CmdList
  | CmdRemove string bool
  | CmdDoctor bool bool
  | CmdNuke string
  | CmdSet string set_flags
  | CmdLogs string bool int
  | CmdInstall string bool
  | CmdUninstall string
  | CmdUpgrade bool bool
  | CmdDnsSync "string list" bool bool
  | CmdTui

definition root_cmd :: "string \<Rightarrow> (string \<times> string) list option \<Rightarrow> (string list \<Rightarrow> string list) \<Rightarrow> poll list \<Rightarrow>
    command \<Rightarrow> inst list option op" where
  "root_cmd ver info ord polls c =
     (let done = (\<lambda>m. thn m (ret None))
      in case c of
           CmdAdd name f \<Rightarrow> done (add_cmd name f)
         | CmdUp args all strict \<Rightarrow> done (up_cmd args all strict)
         | CmdDown args all \<Rightarrow> done (down_cmd args all)
         | CmdStatus args json_out \<Rightarrow> done (status_cmd args json_out)
         | CmdPeers args json_out \<Rightarrow> done (peers_cmd args json_out)
         | CmdList \<Rightarrow> done list_cmd
         | CmdRemove name purge \<Rightarrow> done (remove_cmd name purge)
         | CmdDoctor strict json_out \<Rightarrow> done (doctor_cmd ord strict json_out)
         | CmdNuke name \<Rightarrow> done (nuke_cmd name)
         | CmdSet name f \<Rightarrow> done (set_cmd name f)
         | CmdLogs name following kb \<Rightarrow> done (logs_cmd name following kb polls)
         | CmdInstall name watch_too \<Rightarrow> done (install_cmd name watch_too)
         | CmdUninstall name \<Rightarrow> done (uninstall_cmd name)
         | CmdUpgrade check force \<Rightarrow> done (upgrade_cmd ver info check force)
         | CmdDnsSync args all watch \<Rightarrow> dns_sync_cmd args all watch
         | CmdTui \<Rightarrow> done tui_run)"

text \<open>The exit status: 1 for an error, which is printed, and the runtime's 2 for a panic.\<close>

definition exit_status :: "'a op \<Rightarrow> nat op" where
  "exit_status m =
     bnd (attempt m) (\<lambda>r.
       case r of
         Inr _ \<Rightarrow> ret 0
       | Inl e \<Rightarrow> if err_cause e = ErrPanic then ret 2
                 else thn (errorf (''error: '' @ err_text e)) (ret 1))"

section \<open>Facts\<close>

lemma caught_cases:
  assumes "m w = (r, v)"
  shows "caught m w = (case r of Inl e \<Rightarrow> if err_cause e = ErrPanic then (Inl e, v) else (Inr (Inl e), v)
                                | Inr x \<Rightarrow> (Inr (Inr x), v))"
  using assms by (cases r) (simp_all add: caught_def bnd_attempt)

definition extends :: "world \<Rightarrow> world \<Rightarrow> bool" where
  "extends w w' \<longleftrightarrow> (\<exists>es. w_hist w' = es @ w_hist w)"

lemma extends_refl: "extends w w" by (simp add: extends_def)
lemma extends_trans: "extends u v \<Longrightarrow> extends v w \<Longrightarrow> extends u w" by (auto simp: extends_def)

lemma extends_tell: "tell e w = (r, w') \<Longrightarrow> extends w w'"
  by (auto simp: extends_def tell_def log_event_def)

text \<open>Attempts one after the other in one run: each starts no earlier than the one before has ended.\<close>

fun attempted :: "store \<Rightarrow> bool \<Rightarrow> (inst \<times> world) list \<Rightarrow> world \<Rightarrow> world \<Rightarrow> bool" where
  "attempted s strict [] w w' \<longleftrightarrow> extends w w'"
| "attempted s strict ((i, v) # runs) w w' \<longleftrightarrow> extends w v \<and> attempted s strict runs (snd (up s i strict v)) w'"

lemma attempted_earlier: "attempted s strict runs v w' \<Longrightarrow> extends w v \<Longrightarrow> attempted s strict runs w w'"
  by (cases runs) (auto intro: extends_trans)

definition failures :: "store \<Rightarrow> bool \<Rightarrow> (inst \<times> world) list \<Rightarrow> string list" where
  "failures s strict runs = map (\<lambda>(i, v). i_name i) (filter (\<lambda>(i, v). \<not> is_ok (fst (up s i strict v))) runs)"

lemma up_each_runs:
  assumes "up_each s strict True insts w = (r, w')"
  shows "(\<exists>e. r = Inl e \<and> err_cause e = ErrPanic) \<or>
    (\<exists>runs. map fst runs = insts \<and> attempted s strict runs w w' \<and> r = Inr (failures s strict runs))"
  using assms
proof (induction insts arbitrary: w r w')
  case Nil
  then show ?case by (auto simp: failures_def extends_refl)
next
  case (Cons i "is")
  obtain x v where x: "up s i strict w = (x, v)" by (cases "up s i strict w")
  show ?case
  proof (cases "\<exists>e. x = Inl e \<and> err_cause e = ErrPanic")
    case True
    with Cons.prems x show ?thesis by (auto simp: bnd_def caught_cases)
  next
    case False
    let ?told = "snd (case x of Inl e \<Rightarrow> errorf (''error: '' @ err_text e) v | Inr _ \<Rightarrow> printf (i_name i @ '': up'') v)"
    obtain r1 v1 where 1: "up_each s strict True is ?told = (r1, v1)" by (cases "up_each s strict True is ?told")
    have told: "extends v ?told"
      by (cases x) (auto simp: errorf_def printf_def tell_def extends_def log_event_def)
    have run: "(r, w') = (map_sum id (if is_ok x then id else (#) (i_name i)) r1, v1)"
      using Cons.prems x False 1
      by (cases x; cases r1) (auto simp: bnd_def thn_def caught_cases errorf_def printf_def tell_def)
    show ?thesis
    proof (cases "\<exists>e. r1 = Inl e \<and> err_cause e = ErrPanic")
      case True
      with run show ?thesis by auto
    next
      case False
      with Cons.IH [OF 1] obtain runs where runs: "map fst runs = is" "attempted s strict runs ?told v1"
        "r1 = Inr (failures s strict runs)" by blast
      have "map fst ((i, w) # runs) = i # is" using runs(1) by simp
      moreover have "attempted s strict ((i, w) # runs) w w'"
        using attempted_earlier [OF runs(2) told] run x by (simp add: extends_refl)
      moreover have "r = Inr (failures s strict ((i, w) # runs))"
        using run runs(3) x by (simp add: failures_def)
      ultimately show ?thesis by (intro disjI2 exI conjI)
    qed
  qed
qed

text \<open>Events that change no file and order nothing.\<close>

definition harmless :: "event \<Rightarrow> bool" where
  "harmless e \<longleftrightarrow> (case e of EvHttp _ _ \<Rightarrow> True | EvPrint _ \<Rightarrow> True | _ \<Rightarrow> False)"

lemma harmless_simps [simp]: "harmless (EvHttp u h)" "harmless (EvPrint t)" "\<not> harmless (EvFs f)"
  by (simp_all add: harmless_def)

lemma harmless_latest: "keeps (emits harmless) latest_release"
  by (intro frame_intros) simp

section \<open>Properties\<close>


text \<open>C18: The gate of \<^verbatim>\<open>upgrade\<close>.  The command writes a file only if \<^verbatim>\<open>--check\<close> was not given and either
  \<^verbatim>\<open>--force\<close> was, or this is a released build whose version does not compare as equal to or newer than
  the latest release; it then writes, renames and removes nothing but the running binary and its
  temporary file.\<close>

theorem upgrade_gate:
  assumes "EvFs f \<in> set (new_events w (snd (upgrade_cmd ver info check force w)))"
  shows "\<not> check \<and> (\<exists>rel. fst (latest_release w) = Inr rel \<and>
      (force \<or> ver \<noteq> ''dev'' \<and> compare ver (release_version rel) \<in> {None, Some (- 1)})) \<and>
    (\<exists>bin. e_executable (w_env w) = Some bin \<and>
       f \<in> {OpWriteFile (bin @ ''.new'') 493, OpRename (bin @ ''.new'') bin, OpRemove (bin @ ''.new'')})"
proof -
  obtain x w1 where x: "latest_release w = (x, w1)" by (cases "latest_release w")
  have e1: "emits harmless w w1" by (rule keepsD [OF harmless_latest x])
  let ?go = "\<exists>rel bin. x = Inr rel \<and> \<not> check \<and> (force \<or> ver \<noteq> ''dev'' \<and> \<not> up_to_date ver rel) \<and>
      e_executable (w_env w1) = Some bin"
  have ?go
  proof (rule ccontr)
    assume "\<not> ?go"
    have p: "emits harmless w (snd (printf t w1))" for t
      using emits_trans [OF e1] keeps_printf [of harmless t] by (simp add: keeps_def)
    from \<open>\<not> ?go\<close> have "emits harmless w (snd (upgrade_cmd ver info check force w))"
      by (cases x; cases "e_executable (w_env w1)")
        (simp_all add: upgrade_cmd_def bnd_def x executable_def e1 p, blast)
    from emits_new_events [OF this assms] show False by simp
  qed
  then obtain rel bin where go: "x = Inr rel" "\<not> check" "force \<or> ver \<noteq> ''dev'' \<and> \<not> up_to_date ver rel"
    "e_executable (w_env w1) = Some bin" by blast
  have env: "w_env w1 = w_env w" using e1 by (simp add: emits_def)
  let ?P = "\<lambda>e. \<forall>f. e = EvFs f \<longrightarrow> f \<in> {OpWriteFile (bin @ ''.new'') 493, OpRename (bin @ ''.new'') bin, OpRemove (bin @ ''.new'')}"
  have "keeps (emits ?P) (verified_binary rel os arch)" for os arch
    by (rule keeps_mono [OF emits_verified]) (auto simp: http_event_def)
  then have "keeps (emits ?P) (upgrade_tail ver info rel bin)"
    unfolding upgrade_tail_def apply_release_def replace_binary_def Let_def by (intro frame_intros) auto
  then have t: "emits ?P w1 (snd (upgrade_tail ver info rel bin w1))" by (simp add: keeps_def)
  have run: "snd (upgrade_cmd ver info check force w) = snd (upgrade_tail ver info rel bin w1)"
    using go by (simp add: upgrade_cmd_def bnd_def x executable_def) blast
  have "emits ?P w w1" by (rule emits_mono [OF e1]) auto
  from emits_trans [OF this t] have "emits ?P w (snd (upgrade_cmd ver info check force w))" unfolding run .
  from emits_new_events [OF this assms] have "f \<in> {OpWriteFile (bin @ ''.new'') 493, OpRename (bin @ ''.new'') bin, OpRemove (bin @ ''.new'')}"
    by simp
  moreover have "compare ver (release_version rel) \<in> {None, Some (- 1)}" if "\<not> up_to_date ver rel"
    using that by (auto simp: up_to_date_def compare_def cmp_iff split: option.splits if_splits)
  ultimately show ?thesis using go env x by auto
qed

section \<open>Runs\<close>

text \<open>Of two instances one is running, and no daemon can be started.\<close>

definition half_up :: world where
  "half_up = (example_world (two_instances @ [(''/var/run/multibird/a.pid'', File ''11'' 420)]))
     \<lparr>w_env := example_env\<lparr>e_kill := \<lambda>_ _ _. None, e_spawn := \<lambda>_. Inl ''exec format error'',
        e_environ := [(''MULTIBIRD_CONFIG_ROOT'', ''/r'')]\<rparr>\<rparr>"

lemma half_up_run:
  "fst (new_env half_up) = Inr \<lparr>s_root = ''/r'', s_run = ''/var/run/multibird''\<rparr>"
  "fst (list_instances \<lparr>s_root = ''/r'', s_run = ''/var/run/multibird''\<rparr> (snd (new_env half_up))) =
     Inr [example_inst ''a'' 2, example_inst ''b'' 0]"
  "fst (up_cmd [] True False half_up) = Inl (up_failed [''b''])"
  by code_simp+


definition release_world :: world where
  "release_world = upgrade_world\<lparr>w_fs := [(''/usr/local/bin'', Dir 493), (''/usr/local/bin/multibird'', File ''OLD'' 493)],
     w_env := (w_env upgrade_world)\<lparr>e_release_json := \<lambda>_. Inr (''v0.3.0'',
       [(''multibird_0.3.0_linux_amd64.tar.gz'', \<lparr>as_browser_url = ''archive'', as_api_url = []\<rparr>),
        (''checksums.txt'', \<lparr>as_browser_url = ''sums'', as_api_url = []\<rparr>)])\<rparr>\<rparr>"

theorem upgrade_gate_witness:
  "EvFs (OpRename ''/usr/local/bin/multibird.new'' ''/usr/local/bin/multibird'') \<in>
     set (new_events release_world (snd (upgrade_cmd ''0.2.0'' None False False release_world))) \<and>
   (\<exists>rel. fst (latest_release release_world) = Inr rel \<and> compare ''0.2.0'' (release_version rel) \<in> {None, Some (- 1)})"
proof -
  have e: "EvFs (OpRename ''/usr/local/bin/multibird.new'' ''/usr/local/bin/multibird'') \<in>
     set (new_events release_world (snd (upgrade_cmd ''0.2.0'' None False False release_world)))" by code_simp
  from e upgrade_gate [OF e] show ?thesis by blast
qed

end
