(* ===== verification/Twins.thy ===== *)
theory Twins
  imports Store
begin

text \<open>
  Two runs side by side.  A setup key is stored in the instance's TOML file and sent to the instance's daemon,
  and nowhere else should it make a difference.  Twin worlds differ only in setup keys (\<open>twin\<close>): in the TOML
  files, and in the logins of the past.

  \<open>agree E A m m'\<close> says that two operations, run in twin worlds, do the same but for the keys and give results
  related by \<open>A\<close>, with \<open>E\<close> the encoder of the TOML library; \<open>blind E m\<close> says it of one operation with equal
  results.  The combinators keep both, so an operation that never looks at a key is blind by its shape.
\<close>

named_theorems blind_intros \<open>introduction rules for operations that behave alike whatever the setup keys are\<close>

section \<open>Twin worlds\<close>

text \<open>The same instance but for the key; that there is one is not a secret.\<close>

definition rekeyed :: "inst \<Rightarrow> inst \<Rightarrow> bool" where
  "rekeyed i i' \<longleftrightarrow> (\<exists>k. i' = i\<lparr>i_setup_key := k\<rparr> \<and> (k = [] \<longleftrightarrow> i_setup_key i = []))"

text \<open>What an observer of the program sees of an event: everything but the key.\<close>

definition conceal_rpc :: "rpc \<Rightarrow> rpc" where
  "conceal_rpc r = (case r of RpcLogin k url host \<Rightarrow> RpcLogin [] url host | _ \<Rightarrow> r)"

definition conceal :: "event \<Rightarrow> event" where
  "conceal e = (case e of EvRpc sock r \<Rightarrow> EvRpc sock (conceal_rpc r) | _ \<Rightarrow> e)"

definition key_file :: "string \<Rightarrow> bool" where
  "key_file p \<longleftrightarrow> suffix ''instance.toml'' p"

text \<open>\<open>E\<close> is the encoder of the TOML library.\<close>

definition same_node :: "(inst \<Rightarrow> string) \<Rightarrow> string \<Rightarrow> node \<Rightarrow> node \<Rightarrow> bool" where
  "same_node E p n n' \<longleftrightarrow>
     n = n' \<or> key_file p \<and> (\<exists>i i' m. rekeyed i i' \<and> n = File (E i) m \<and> n' = File (E i') m)"

definition same_files :: "(inst \<Rightarrow> string) \<Rightarrow> fs \<Rightarrow> fs \<Rightarrow> bool" where
  "same_files E = list_all2 (\<lambda>(p, n) (p', n'). p = p' \<and> same_node E p n n')"

text \<open>The two environments give the same answers after histories that look the same, and their other
  processes change the files in the same way.  What a daemon says to a key is thus the same in both runs.\<close>

definition same_answers :: "(inst \<Rightarrow> string) \<Rightarrow> env \<Rightarrow> env \<Rightarrow> bool" where
  "same_answers E e e' \<longleftrightarrow>
     (\<forall>h h'. map conceal h = map conceal h' \<longrightarrow>
        e_fault e h = e_fault e' h' \<and> e_drift e h = e_drift e' h' \<and> e_exec e h = e_exec e' h' \<and>
        e_spawn e h = e_spawn e' h' \<and> e_kill e h = e_kill e' h' \<and> e_status e h = e_status e' h' \<and>
        e_login e h = e_login e' h' \<and> e_networks e h = e_networks e' h' \<and> e_rpc e h = e_rpc e' h' \<and>
        e_cancelled e h = e_cancelled e' h' \<and> e_ifaces e h = e_ifaces e' h' \<and> e_http e h = e_http e' h' \<and>
        (\<forall>f f'. same_files E f f' \<longrightarrow> same_files E (e_step e h f) (e_step e' h' f'))) \<and>
     e_dial e = e_dial e' \<and> e_release_json e = e_release_json e' \<and> e_sha256 e = e_sha256 e' \<and>
     e_untar e = e_untar e' \<and> e_toml_enc e = e_toml_enc e' \<and> e_toml_dec e = e_toml_dec e' \<and>
     e_os e = e_os e' \<and> e_arch e = e_arch e' \<and> e_uid e = e_uid e' \<and> e_environ e = e_environ e' \<and>
     e_home e = e_home e' \<and> e_hostname e = e_hostname e' \<and> e_executable e = e_executable e'"

definition twin :: "(inst \<Rightarrow> string) \<Rightarrow> world \<Rightarrow> world \<Rightarrow> bool" where
  "twin E w w' \<longleftrightarrow>
     toml_ok w \<and> e_toml_enc (w_env w) = E \<and> same_answers E (w_env w) (w_env w') \<and> w_clock w = w_clock w' \<and>
     map conceal (w_hist w) = map conceal (w_hist w') \<and> same_files E (w_fs w) (w_fs w')"

section \<open>Paths\<close>

lemma render_path_suffix: "suffix e (render_path r (e # st))"
proof (cases "st = []")
  case True
  then show ?thesis by (simp add: render_path_def suffix_def)
next
  case False
  then show ?thesis by (simp add: render_path_snoc suffix_def)
qed

lemma path_parts_rooted: "plain_elem e \<Longrightarrow> path_parts (CHR ''/'' # e) = [e]"
  using split_on_no_sep [of "CHR ''/''" e]
  by (simp add: path_parts_def split_on_def plain_elem_def clean_step_def)

lemma clean_suffix:
  assumes "plain_elem e"
  shows "suffix e (clean e)" and "suffix e (clean (p @ CHR ''/'' # e))"
proof -
  show "suffix e (clean e)" by (simp add: clean_def path_parts_elem [OF assms] render_path_suffix)
  show "suffix e (clean (p @ CHR ''/'' # e))"
    using assms by (cases "p = []") (simp_all add: clean_def path_parts_append path_parts_rooted render_path_suffix)
qed

text \<open>A name that ends plainly does so after joining, whatever else is in it.\<close>

lemma path_join_suffix:
  assumes "CHR ''/'' \<notin> set t" and "3 \<le> length t"
  shows "suffix t (path_join [d, x @ t])"
proof -
  have plain: "plain_elem (v @ t)" if "CHR ''/'' \<notin> set v" for v
    using assms that by (auto simp: plain_elem_def Cons_eq_append_conv append_eq_Cons_conv)
  have ne: "x @ t \<noteq> []" using assms(2) by auto
  have slash: "suffix t (clean (p @ CHR ''/'' # x @ t))" for p
  proof (cases "CHR ''/'' \<in> set x")
    case True
    then obtain u v where "x = u @ CHR ''/'' # v" "CHR ''/'' \<notin> set v" by (meson split_list_last)
    then show ?thesis
      using clean_suffix(2) [OF plain, of v "p @ CHR ''/'' # u"] by (auto dest: suffix_appendD simp: suffix_def)
  next
    case False
    from clean_suffix(2) [OF plain [OF this], of p] show ?thesis by (auto simp: suffix_def)
  qed
  have none: "suffix t (clean (x @ t))"
  proof (cases "CHR ''/'' \<in> set x")
    case True
    then obtain u v where "x = u @ CHR ''/'' # v" "CHR ''/'' \<notin> set v" by (meson split_list_last)
    then show ?thesis using clean_suffix(2) [OF plain, of v u] by (auto simp: suffix_def)
  next
    case False
    from clean_suffix(1) [OF plain [OF this]] show ?thesis by (auto simp: suffix_def)
  qed
  show ?thesis
    using slash [of d] none ne by (cases "d = []") (auto simp: path_join_def)
qed

lemma not_key_file: "suffix t p \<Longrightarrow> \<not> suffix t ''instance.toml'' \<Longrightarrow> \<not> suffix ''instance.toml'' t \<Longrightarrow> \<not> key_file p"
  unfolding key_file_def by (meson suffix_same_cases)

lemma instance_key_files [simp]:
  "key_file (p_toml_path (store_params s i))"
  "\<not> key_file (p_pid_file (store_params s i))"
  "\<not> key_file (p_log_file (store_params s i))"
  "\<not> key_file (q @ ''.new'')"
proof -
  show "key_file (p_toml_path (store_params s i))"
    using path_join_suffix [of "''instance.toml''" _ "[]"]
    by (simp add: key_file_def store_params_def)
  show "\<not> key_file (p_pid_file (store_params s i))"
    using path_join_suffix [of "''.pid''"] by (intro not_key_file [of "''.pid''"]) (simp_all add: store_params_def suffix_def)
  show "\<not> key_file (p_log_file (store_params s i))"
    using path_join_suffix [of "''daemon.log''" _ "[]"]
    by (intro not_key_file [of "''daemon.log''"]) (simp_all add: store_params_def suffix_def)
  show "\<not> key_file (q @ ''.new'')"
    by (rule not_key_file [of "''.new''"]) (simp_all add: suffix_def)
qed

section \<open>Files of twins\<close>

lemma same_node_refl [simp]: "same_node E p n n"
  by (simp add: same_node_def)

lemma same_files_refl: "same_files E f f"
  unfolding same_files_def by (rule list_all2_refl) auto

lemma same_files_Cons [simp]:
  "same_files E ((p, n) # f) g \<longleftrightarrow> (\<exists>n' g'. g = (p, n') # g' \<and> same_node E p n n' \<and> same_files E f g')"
  "same_files E [] g \<longleftrightarrow> g = []"
  by (auto simp: same_files_def list_all2_Cons1)

lemma same_files_filter:
  "same_files E f g \<Longrightarrow> same_files E (filter (\<lambda>(q, _). P q) f) (filter (\<lambda>(q, _). P q) g)"
proof (induction f arbitrary: g)
  case (Cons x f)
  then show ?case by (cases x) auto
qed simp

lemma same_files_keys: "same_files E f g \<Longrightarrow> map fst g = map fst f"
proof (induction f arbitrary: g)
  case (Cons x f)
  then show ?case by (cases x) auto
qed simp

lemma same_files_lookup: "same_files E f g \<Longrightarrow> rel_option (same_node E p) (map_of f p) (map_of g p)"
proof (induction f arbitrary: g)
  case (Cons x f)
  then show ?case by (cases x) auto
qed simp

lemma same_files_changes:
  assumes "same_files E f g"
  shows "same_node E p n n' \<Longrightarrow> same_files E (fs_put f p n) (fs_put g p n')"
    and "same_files E (fs_del f p) (fs_del g p)" and "same_files E (fs_del_tree f p) (fs_del_tree g p)"
  using same_files_filter [OF assms] by (simp_all add: fs_put_def fs_del_def fs_del_tree_def)

text \<open>Nodes of twins: the same kind, and the same mode.\<close>

lemma same_node_Dir [simp]:
  "same_node E p (Dir m) n \<longleftrightarrow> n = Dir m" "same_node E p n (Dir m) \<longleftrightarrow> n = Dir m"
  by (auto simp: same_node_def)

lemma same_node_File: "same_node E p (File c m) n \<Longrightarrow> \<exists>c'. n = File c' m"
  by (auto simp: same_node_def)

lemma same_node_plain: "\<not> key_file p \<Longrightarrow> same_node E p n n' \<Longrightarrow> n = n'"
  by (simp add: same_node_def)

lemma same_files_cases:
  assumes "same_files E f g"
  obtains (none) "map_of f p = None" and "map_of g p = None"
  | (dir) m where "map_of f p = Some (Dir m)" and "map_of g p = Some (Dir m)"
  | (content) c c' m where "map_of f p = Some (File c m)" and "map_of g p = Some (File c' m)"
      and "same_node E p (File c m) (File c' m)"
proof -
  note r = same_files_lookup [OF assms, of p]
  show ?thesis
  proof (cases "map_of f p")
    case None
    with r none show ?thesis by simp
  next
    case (Some n)
    with r obtain n' where n: "map_of g p = Some n'" "same_node E p n n'" by (auto elim: option.rel_cases)
    show ?thesis
    proof (cases n)
      case (File c m)
      with n same_node_File obtain c' where "n' = File c' m" by blast
      with n Some File content show ?thesis by simp
    qed (use n Some dir in simp)
  qed
qed

lemma same_files_is_dir: "same_files E f g \<Longrightarrow> is_dir g p = is_dir f p"
  by (cases rule: same_files_cases [of E f g p]) (auto simp: is_dir_def)

lemma same_files_children:
  assumes "same_files E f g"
  shows "children g d = children f d"
proof -
  have "map path_base (filter P (map fst g)) = map path_base (filter P (map fst f))" for P
    by (simp only: same_files_keys [OF assms])
  then show ?thesis by (simp add: children_def)
qed

lemma same_files_mkdirs:
  assumes "same_files E f g"
  shows "fst (mkdirs g m ds) = fst (mkdirs f m ds) \<and> same_files E (snd (mkdirs f m ds)) (snd (mkdirs g m ds))"
  using assms
proof (induction ds arbitrary: f g)
  case (Cons d ds)
  show ?case
    using Cons same_files_changes(1) [OF Cons.prems, of d "Dir m" "Dir m"]
    by (cases rule: same_files_cases [OF Cons.prems, of d]) auto
qed simp

lemma same_files_put_file:
  assumes "same_files E f g"
  shows "fst (put_file g p c m) = fst (put_file f p c m) \<and> same_files E (snd (put_file f p c m)) (snd (put_file g p c m))"
  by (cases rule: same_files_cases [OF assms, of p])
     (auto simp: put_file_def same_files_is_dir [OF assms] intro: same_files_changes(1) [OF assms] assms)

lemma same_files_remove_node:
  assumes "same_files E f g"
  shows "fst (remove_node g p) = fst (remove_node f p) \<and> same_files E (snd (remove_node f p)) (snd (remove_node g p))"
  by (cases rule: same_files_cases [OF assms, of p])
     (auto simp: remove_node_def same_files_children [OF assms] intro: same_files_changes [OF assms] assms)

section \<open>Operations that agree\<close>

definition agree :: "(inst \<Rightarrow> string) \<Rightarrow> ('a \<Rightarrow> 'b \<Rightarrow> bool) \<Rightarrow> 'a op \<Rightarrow> 'b op \<Rightarrow> bool" where
  "agree E A m m' \<longleftrightarrow>
     (\<forall>w w'. twin E w w' \<longrightarrow>
        rel_sum (=) A (fst (m w)) (fst (m' w')) \<and> twin E (snd (m w)) (snd (m' w')))"

definition blind :: "(inst \<Rightarrow> string) \<Rightarrow> 'a op \<Rightarrow> bool" where
  "blind E m \<longleftrightarrow> agree E (=) m m"

lemma agreeD:
  assumes "agree E A m m'" and "twin E w w'" and "m w = (r, v)" and "m' w' = (r', v')"
  shows "rel_sum (=) A r r'" and "twin E v v'"
  using assms unfolding agree_def by force+

lemma agreeI:
  assumes "\<And>w w' r v r' v'. twin E w w' \<Longrightarrow> m w = (r, v) \<Longrightarrow> m' w' = (r', v') \<Longrightarrow> rel_sum (=) A r r' \<and> twin E v v'"
  shows "agree E A m m'"
  using assms unfolding agree_def by (metis prod.collapse)

lemma agree_mono: "agree E A m m' \<Longrightarrow> (\<And>x y. A x y \<Longrightarrow> B x y) \<Longrightarrow> agree E B m m'"
  unfolding agree_def using sum.rel_mono_strong [of "(=)" A _ _ "(=)" B] by blast

lemma blind_agree: "blind E m \<Longrightarrow> (\<And>x. A x x) \<Longrightarrow> agree E A m m"
  unfolding blind_def by (erule agree_mono) simp

lemma agree_ret: "A x y \<Longrightarrow> agree E A (ret x) (ret y)"
  by (simp add: agree_def)

lemma agree_fail: "agree E A (fail e) (fail e)"
  by (simp add: agree_def)

lemma agree_bnd:
  assumes "agree E A m m'" and "\<And>x y. A x y \<Longrightarrow> agree E B (f x) (f' y)"
  shows "agree E B (bnd m f) (bnd m' f')"
proof (rule agreeI)
  fix w w' r v r' v'
  assume t: "twin E w w'" and r: "bnd m f w = (r, v)" "bnd m' f' w' = (r', v')"
  obtain q u q' u' where m: "m w = (q, u)" "m' w' = (q', u')" by (cases "m w", cases "m' w'")
  from agreeD [OF assms(1) t m] have q: "rel_sum (=) A q q'" "twin E u u'" .
  show "rel_sum (=) B r r' \<and> twin E v v'"
  proof (cases q)
    case (Inl e)
    with m r q show ?thesis by (cases q') (auto simp: bnd_def)
  next
    case (Inr x)
    with q obtain y where y: "q' = Inr y" "A x y" by (cases q') auto
    with m r Inr have "f x u = (r, v)" "f' y u' = (r', v')" by (simp_all add: bnd_def)
    with agreeD [OF assms(2) [OF y(2)] q(2)] show ?thesis by simp
  qed
qed

lemma agree_thn: "agree E A m m' \<Longrightarrow> agree E B n n' \<Longrightarrow> agree E B (thn m n) (thn m' n')"
  unfolding thn_def by (rule agree_bnd)

lemma agree_attempt: "agree E A m m' \<Longrightarrow> agree E (rel_sum (=) A) (attempt m) (attempt m')"
  by (simp add: agree_def attempt_def split_beta)

lemma agree_wrap:
  assumes "agree E A m m'"
  shows "agree E A (wrap s m) (wrap s m')"
proof (rule agreeI)
  fix w w' r v r' v'
  assume t: "twin E w w'" and r: "wrap s m w = (r, v)" "wrap s m' w' = (r', v')"
  obtain q u q' u' where m: "m w = (q, u)" "m' w' = (q', u')" by (cases "m w", cases "m' w'")
  from agreeD [OF assms t m] r m show "rel_sum (=) A r r' \<and> twin E v v'"
    by (cases q; cases q') (auto simp: wrap_def)
qed

lemma agree_ignore: "agree E A m m' \<Longrightarrow> agree E (=) (ignore m) (ignore m')"
  by (simp add: agree_def ignore_def)

lemma agree_asks: "(\<And>w w'. twin E w w' \<Longrightarrow> A (g w) (g' w')) \<Longrightarrow> agree E A (asks g) (asks g')"
  by (simp add: agree_def)

lemma agree_each:
  assumes "list_all2 A xs ys" and "\<And>x y. A x y \<Longrightarrow> agree E B (f x) (f' y)"
  shows "agree E (list_all2 B) (each f xs) (each f' ys)"
  using assms(1)
proof (induction rule: list_all2_induct)
  case Nil
  show ?case unfolding each.simps by (rule agree_ret) simp
next
  case (Cons x xs y ys)
  show ?case
    unfolding each.simps
    by (rule agree_bnd [OF assms(2) [OF Cons(1)]], rule agree_bnd [OF Cons(3)], rule agree_ret) simp
qed

subsection \<open>Blind operations\<close>

lemma blind_ret: "blind E (ret x)" by (simp add: blind_def agree_ret)
lemma blind_fail: "blind E (fail e)" by (simp add: blind_def agree_fail)

lemma blind_bnd: "blind E m \<Longrightarrow> (\<And>x. blind E (f x)) \<Longrightarrow> blind E (bnd m f)"
  unfolding blind_def by (erule agree_bnd) simp

lemma blind_thn: "blind E m \<Longrightarrow> blind E m' \<Longrightarrow> blind E (thn m m')"
  unfolding thn_def by (rule blind_bnd)

lemma blind_attempt: "blind E m \<Longrightarrow> blind E (attempt m)"
  unfolding blind_def by (drule agree_attempt) (simp add: sum.rel_eq)

lemma blind_wrap: "blind E m \<Longrightarrow> blind E (wrap s m)"
  unfolding blind_def by (rule agree_wrap)

lemma blind_ignore: "blind E m \<Longrightarrow> blind E (ignore m)"
  unfolding blind_def by (rule agree_ignore)

lemma blind_asks: "(\<And>w w'. twin E w w' \<Longrightarrow> g w = g w') \<Longrightarrow> blind E (asks g)"
  unfolding blind_def by (rule agree_asks)

lemma blind_each: "(\<And>x. x \<in> set xs \<Longrightarrow> blind E (f x)) \<Longrightarrow> blind E (each f xs)"
  by (induction xs) (auto intro!: blind_ret blind_bnd)

lemma blind_if: "(b \<Longrightarrow> blind E m) \<Longrightarrow> (\<not> b \<Longrightarrow> blind E m') \<Longrightarrow> blind E (if b then m else m')" by simp

lemma blind_option: "blind E n \<Longrightarrow> (\<And>x. blind E (s x)) \<Longrightarrow> blind E (case x of None \<Rightarrow> n | Some y \<Rightarrow> s y)"
  by (simp split: option.split)

lemma blind_sum: "(\<And>e. blind E (l e)) \<Longrightarrow> (\<And>x. blind E (s x)) \<Longrightarrow> blind E (case x of Inl e \<Rightarrow> l e | Inr y \<Rightarrow> s y)"
  by (simp split: sum.split)

lemma blind_prod: "(\<And>a b. blind E (f a b)) \<Longrightarrow> blind E (case x of (a, b) \<Rightarrow> f a b)"
  by (simp split: prod.split)

lemma blind_Let: "blind E (f a) \<Longrightarrow> blind E (let x = a in f x)"
  by (simp add: Let_def)

lemmas blind_combinators [blind_intros] = blind_ret blind_fail blind_bnd blind_thn blind_attempt blind_wrap
  blind_ignore blind_each blind_if blind_option blind_sum blind_prod blind_Let

section \<open>The calls of the world\<close>

lemma twin_reads:
  assumes "twin E w w'"
  shows "w_clock w' = w_clock w" and "e_toml_enc (w_env w) = E" and "e_toml_enc (w_env w') = E"
    and "e_toml_dec (w_env w') = e_toml_dec (w_env w)" and "e_toml_dec (w_env w) (E i) = Inr i"
    and "e_dial (w_env w') = e_dial (w_env w)" and "e_release_json (w_env w') = e_release_json (w_env w)"
    and "e_sha256 (w_env w') = e_sha256 (w_env w)" and "e_untar (w_env w') = e_untar (w_env w)"
    and "e_os (w_env w') = e_os (w_env w)" and "e_arch (w_env w') = e_arch (w_env w)"
    and "e_uid (w_env w') = e_uid (w_env w)" and "e_environ (w_env w') = e_environ (w_env w)"
    and "e_home (w_env w') = e_home (w_env w)" and "e_hostname (w_env w') = e_hostname (w_env w)"
    and "e_executable (w_env w') = e_executable (w_env w)"
    and "e_cancelled (w_env w') (w_hist w') = e_cancelled (w_env w) (w_hist w)"
    and "e_fault (w_env w') (w_hist w') = e_fault (w_env w) (w_hist w)"
    and "e_drift (w_env w') (w_hist w') = e_drift (w_env w) (w_hist w)"
  using assms unfolding twin_def toml_ok_def same_answers_def by auto

lemma agree_tell: "conceal e = conceal e' \<Longrightarrow> agree E (=) (tell e) (tell e')"
  by (auto simp: agree_def tell_def log_event_def twin_def toml_ok_def)

lemma agree_fs_call:
  assumes "\<And>f g. same_files E f g \<Longrightarrow>
    rel_sum (=) A (fst (act f)) (fst (act' g)) \<and> same_files E (snd (act f)) (snd (act' g))"
  shows "agree E A (fs_call op act) (fs_call op act')"
proof -
  have "rel_sum (=) A (fst (fs_call op act w)) (fst (fs_call op act' w')) \<and>
      twin E (snd (fs_call op act w)) (snd (fs_call op act' w'))" if "twin E w w'" for w w'
  proof -
    have "same_files E (w_fs w) (w_fs w')" using that by (simp add: twin_def)
    from assms [OF this] that show ?thesis
      by (auto simp: fs_call_def twin_reads [OF that] log_event_def split_beta Let_def twin_def toml_ok_def
          split: option.split)
  qed
  then show ?thesis by (simp add: agree_def)
qed

lemma blind_fs_call:
  assumes "\<And>f g. same_files E f g \<Longrightarrow> fst (act g) = fst (act f) \<and> same_files E (snd (act f)) (snd (act g))"
  shows "blind E (fs_call op act)"
  unfolding blind_def by (rule agree_fs_call) (use assms in \<open>simp add: sum.rel_eq\<close>)

lemma agree_callout:
  assumes "conceal ev = conceal ev'"
    and "\<And>e e' h h'. same_answers E e e' \<Longrightarrow> map conceal h = map conceal h' \<Longrightarrow> ask e h = ask' e' h'"
  shows "agree E (=) (callout ev dt ask) (callout ev' dt ask')"
proof -
  have "ask (w_env w) (w_hist w) = ask' (w_env w') (w_hist w')" and
    "twin E (snd (callout ev dt ask w)) (snd (callout ev' dt ask' w'))" if t: "twin E w w'" for w w'
  proof -
    from t have *: "same_answers E (w_env w) (w_env w')" "map conceal (w_hist w) = map conceal (w_hist w')"
      by (simp_all add: twin_def)
    then show "ask (w_env w) (w_hist w) = ask' (w_env w') (w_hist w')" by (rule assms(2))
    have "map conceal (ev # w_hist w) = map conceal (ev' # w_hist w')" using *(2) assms(1) by simp
    moreover have "same_files E (w_fs w) (w_fs w')" using t by (simp add: twin_def)
    ultimately have "same_files E (e_step (w_env w) (ev # w_hist w) (w_fs w))
        (e_step (w_env w') (ev' # w_hist w') (w_fs w'))"
      using *(1) unfolding same_answers_def by blast
    with t assms(1) twin_reads(19) [OF t] show "twin E (snd (callout ev dt ask w)) (snd (callout ev' dt ask' w'))"
      by (auto simp: twin_def callout_def toml_ok_def)
  qed
  then show ?thesis by (simp add: agree_def callout_def sum.rel_eq)
qed

lemma blind_callout:
  assumes "\<And>e e' h h'. same_answers E e e' \<Longrightarrow> map conceal h = map conceal h' \<Longrightarrow> ask e h = ask e' h'"
  shows "blind E (callout ev dt ask)"
  unfolding blind_def by (rule agree_callout [OF refl assms])

lemma blind_tells [blind_intros]:
  "blind E (tell e)" "blind E (warnf t)" "blind E (printf t)" "blind E (write_out t)" "blind E (errorf t)"
  unfolding warnf_def printf_def write_out_def errorf_def blind_def by (rule agree_tell, rule refl)+

lemma blind_calls [blind_intros]:
  "blind E (sleep d)" "blind E (exec a i)" "blind E (spawn b a n)" "blind E (kill pid sig)" "blind E net_interfaces"
  "blind E (rpc_status sock full)" "blind E (rpc_networks sock)" "blind E (rpc_call sock r)" "blind E (http_get url hs)"
  unfolding sleep_def exec_def spawn_def kill_def net_interfaces_def rpc_status_def rpc_networks_def rpc_call_def
    http_get_def same_answers_def
  by (rule blind_callout; unfold same_answers_def; metis)+

text \<open>The one place where a key leaves the program.\<close>

lemma agree_rpc_login: "agree E (=) (rpc_login sock key url host) (rpc_login sock key' url host)"
  unfolding rpc_login_def by (rule agree_callout) (simp_all add: conceal_def conceal_rpc_def same_answers_def)

lemma blind_reads [blind_intros]:
  "blind E cancelled" "blind E now" "blind E (getenv k)" "blind E (dial sock)"
  "blind E (asks (\<lambda>w. e_os (w_env w)))" "blind E (asks (\<lambda>w. e_hostname (w_env w)))"
  "blind E (asks (\<lambda>w. e_environ (w_env w)))" "blind E (asks (\<lambda>w. e_executable (w_env w)))"
  "blind E (asks (\<lambda>w. e_release_json (w_env w) b))" "blind E (asks (\<lambda>w. e_home (w_env w)))"
  "blind E (asks (\<lambda>w. e_uid (w_env w)))" "blind E (asks (\<lambda>w. (f (e_os (w_env w)), e_arch (w_env w))))"
  unfolding cancelled_def now_def getenv_def dial_def
  by (intro blind_combinators blind_asks; simp add: twin_reads)+

lemma blind_files [blind_intros]:
  "blind E (mkdir_all p m)" "blind E (open_trunc p m)" "blind E (close_file p)" "blind E (write_file p c m)"
  "blind E (read_dir p)" "blind E (os_remove p)" "blind E (remove_all p)"
proof -
  show "blind E (mkdir_all p m)" "blind E (open_trunc p m)" "blind E (write_file p c m)" "blind E (os_remove p)"
    unfolding mkdir_all_def open_trunc_def write_file_def os_remove_def
    by (rule blind_fs_call, rule same_files_mkdirs same_files_put_file same_files_remove_node, assumption)+
  show "blind E (close_file p)" "blind E (remove_all p)"
    unfolding close_file_def remove_all_def by (rule blind_fs_call; simp add: same_files_changes)+
  show "blind E (read_dir p)"
    unfolding read_dir_def
  proof (rule blind_fs_call, intro conjI)
    fix f g
    assume s: "same_files E f g"
    have "(map_of g p = None) = (map_of f p = None)" by (cases rule: same_files_cases [OF s, of p]) simp_all
    then show "fst (if is_dir g p then Inr (map (\<lambda>n. (n, is_dir g (path_join [p, n]))) (children g p))
        else if map_of g p = None then Inl (ErrNotExist p) else Inl (ErrSys ''not a directory''), g) =
      fst (if is_dir f p then Inr (map (\<lambda>n. (n, is_dir f (path_join [p, n]))) (children f p))
        else if map_of f p = None then Inl (ErrNotExist p) else Inl (ErrSys ''not a directory''), f)"
      by (simp add: same_files_is_dir [OF s] same_files_children [OF s])
  qed simp
qed

text \<open>Reading and renaming what is not an instance's file.\<close>

lemma blind_read_file [blind_intros]: "\<not> key_file p \<Longrightarrow> blind E (read_file p)"
  unfolding read_file_def
proof (rule blind_fs_call)
  fix f g
  assume p: "\<not> key_file p" and s: "same_files E f g"
  show "fst (get_file g p, g) = fst (get_file f p, f) \<and> same_files E (snd (get_file f p, f)) (snd (get_file g p, g))"
    using s by (cases rule: same_files_cases [OF s, of p]) (auto simp: get_file_def dest: same_node_plain [OF p])
qed

lemma blind_rename [blind_intros]: "\<not> key_file p \<Longrightarrow> blind E (os_rename p q)"
  unfolding os_rename_def
proof (rule blind_fs_call)
  fix f g
  let ?act = "\<lambda>f :: fs. case map_of f p of
            None \<Rightarrow> (Inl (ErrNotExist p), f)
          | Some n \<Rightarrow>
              (case map_of f q of
                 Some (Dir _) \<Rightarrow> (Inl (ErrSys ''file exists''), f)
               | _ \<Rightarrow> (Inr (), fs_put (fs_del f p) q n))"
  assume p: "\<not> key_file p" and s: "same_files E f g"
  have put: "same_files E (fs_put (fs_del f p) q n) (fs_put (fs_del g p) q n)" for n
    by (intro same_files_changes s) simp
  have eq: "map_of g p = map_of f p"
    by (cases rule: same_files_cases [OF s, of p]) (auto dest: same_node_plain [OF p])
  show "fst (?act g) = fst (?act f) \<and> same_files E (snd (?act f)) (snd (?act g))"
    using s put eq by (cases rule: same_files_cases [OF s, of q]) (auto split: option.split)
qed

text \<open>Of a node only its kind is looked at.\<close>

lemma agree_stat: "agree E (same_node E p) (stat p) (stat p)"
  unfolding stat_def
proof (rule agree_fs_call)
  fix f g
  assume s: "same_files E f g"
  show "rel_sum (=) (same_node E p) (fst (case map_of f p of None \<Rightarrow> Inl (ErrNotExist p) | Some x \<Rightarrow> Inr x, f))
      (fst (case map_of g p of None \<Rightarrow> Inl (ErrNotExist p) | Some x \<Rightarrow> Inr x, g)) \<and>
    same_files E (snd (case map_of f p of None \<Rightarrow> Inl (ErrNotExist p) | Some x \<Rightarrow> Inr x, f))
      (snd (case map_of g p of None \<Rightarrow> Inl (ErrNotExist p) | Some x \<Rightarrow> Inr x, g))"
    using s by (cases rule: same_files_cases [OF s, of p]) auto
qed

lemma blind_stat:
  assumes "\<And>e. blind E (f (Inl e))" and "\<And>n n'. same_node E p n n' \<Longrightarrow> agree E (=) (f (Inr n)) (f (Inr n'))"
  shows "blind E (bnd (attempt (stat p)) f)"
  unfolding blind_def
proof (rule agree_bnd [OF agree_attempt [OF agree_stat]])
  fix r r' :: "err + node"
  assume "rel_sum (=) (same_node E p) r r'"
  with assms show "agree E (=) (f r) (f r')" by (cases r; cases r') (auto simp: blind_def)
qed

lemma blind_env [blind_intros]:
  assumes "\<And>e e'. e_sha256 e = e_sha256 e' \<Longrightarrow> e_untar e = e_untar e' \<Longrightarrow> f e = f e'" and "\<And>e. blind E (f e)"
  shows "blind E (bnd (asks w_env) f)"
proof -
  have "f (w_env w') = f (w_env w)" if "twin E w w'" for w w'
    by (rule assms(1)) (simp_all add: twin_reads [OF that])
  with assms(2) show ?thesis by (simp add: blind_def agree_def)
qed

lemma agree_snd:
  assumes "agree E A m m'" and "twin E w w'"
  shows "twin E (snd (m w)) (snd (m' w'))"
  using assms by (simp add: agree_def)

end
