(* ===== verification/Secrecy.thy ===== *)
theory Secrecy
  imports Twins Commands
begin

text \<open>
  Nothing tells one setup key from another.  The repository says of setup keys that they are never logged; as a
  property of the whole program this is about two runs of the same command in twin worlds (theory
  \<^theory_text>\<open>Twins\<close>).  Most operations are blind.  The others hand an instance on: they read, change and write
  instances, log in and bring an instance up, and agree on instances that are the same but for the key.
\<close>

section \<open>Parts that do not look at instances\<close>

lemma blind_alive [blind_intros]: "blind E (alive pid)"
  unfolding alive_def by (intro blind_intros)

lemma blind_wait_socket [blind_intros]: "blind E (wait_socket sock pid deadline)"
proof -
  have "fst (wait_socket sock pid deadline w) = fst (wait_socket sock pid deadline w') \<and>
      twin E (snd (wait_socket sock pid deadline w)) (snd (wait_socket sock pid deadline w'))" if "twin E w w'" for w w'
    using that
  proof (induction sock pid deadline w arbitrary: w' rule: wait_socket.induct)
    case (1 sock pid deadline w)
    obtain r w1 r' w1' where st: "stat sock w = (r, w1)" "stat sock w' = (r', w1')"
      by (cases "stat sock w", cases "stat sock w'")
    from agreeD [OF agree_stat "1.prems" st] have r: "is_ok r' = is_ok r" and t1: "twin E w1 w1'"
      by (cases r; cases r'; simp)+
    obtain a w2 a' w2' where al: "alive pid w1 = (a, w2)" "alive pid w1' = (a', w2')"
      by (cases "alive pid w1", cases "alive pid w1'")
    from agreeD [OF blind_alive [unfolded blind_def] t1 al] have a: "a' = a" and t2: "twin E w2 w2'"
      by (simp_all add: sum.rel_eq)
    have t3: "twin E (snd (sleep 100 w2)) (snd (sleep 100 w2'))"
      by (rule agree_snd [OF blind_calls(1) [unfolded blind_def] t2])
    show ?case
      using t1 t2 "1.IH" [OF st(1) [symmetric] refl _ al(1) [symmetric] refl _ _ t3]
      by (simp add: wait_socket.simps [of sock pid deadline w] wait_socket.simps [of sock pid deadline w']
          st al r a twin_reads(1) [OF t2])
  qed
  then show ?thesis by (simp add: blind_def agree_def sum.rel_eq)
qed

lemma agree_wait_exit: "twin E w w' \<Longrightarrow> twin E (wait_exit pid deadline w) (wait_exit pid deadline w')"
proof (induction pid deadline w arbitrary: w' rule: wait_exit.induct)
  case (1 pid deadline w)
  obtain a w1 a' w1' where al: "alive pid w = (a, w1)" "alive pid w' = (a', w1')"
    by (cases "alive pid w", cases "alive pid w'")
  from agreeD [OF blind_alive [unfolded blind_def] "1.prems" al] have a: "a' = a" and t1: "twin E w1 w1'"
    by (simp_all add: sum.rel_eq)
  have t2: "twin E (snd (sleep 100 w1)) (snd (sleep 100 w1'))" "twin E (snd (kill pid 9 w1)) (snd (kill pid 9 w1'))"
    using agree_snd [OF blind_calls(1) [unfolded blind_def] t1] agree_snd [OF blind_calls(4) [unfolded blind_def] t1]
    by blast+
  show ?case
    using t1 t2(2) "1.IH" [OF al(1) [symmetric] refl _ _ t2(1)]
    by (simp add: wait_exit.simps [of pid deadline w] wait_exit.simps [of pid deadline w'] al a twin_reads(1) [OF t1])
qed

lemma agree_wait_gone: "twin E w w' \<Longrightarrow> twin E (wait_gone pid deadline w) (wait_gone pid deadline w')"
proof (induction pid deadline w arbitrary: w' rule: wait_gone.induct)
  case (1 pid deadline w)
  obtain a w1 a' w1' where al: "alive pid w = (a, w1)" "alive pid w' = (a', w1')"
    by (cases "alive pid w", cases "alive pid w'")
  from agreeD [OF blind_alive [unfolded blind_def] "1.prems" al] have a: "a' = a" and t1: "twin E w1 w1'"
    by (simp_all add: sum.rel_eq)
  have t2: "twin E (snd (sleep 100 w1)) (snd (sleep 100 w1'))"
    by (rule agree_snd [OF blind_calls(1) [unfolded blind_def] t1])
  show ?case
    using t1 "1.IH" [OF al(1) [symmetric] refl _ t2]
    by (simp add: wait_gone.simps [of pid deadline w] wait_gone.simps [of pid deadline w'] al a twin_reads(1) [OF t1])
qed

lemma blind_waits [blind_intros]:
  "blind E (\<lambda>w. (Inr (), wait_exit pid deadline w))" "blind E (\<lambda>w. (Inr (), wait_gone pid deadline w))"
  by (simp_all add: blind_def agree_def agree_wait_exit agree_wait_gone)

lemma blind_ready_loop [blind_intros]: "blind E (ready_loop sock deadline)"
proof -
  have "fst (ready_loop sock deadline w) = fst (ready_loop sock deadline w') \<and>
      twin E (snd (ready_loop sock deadline w)) (snd (ready_loop sock deadline w'))" if "twin E w w'" for w w'
    using that
  proof (induction sock deadline w arbitrary: w' rule: ready_loop.induct)
    case (1 sock deadline w)
    obtain r w1 r' w1' where st: "rpc_status sock False w = (r, w1)" "rpc_status sock False w' = (r', w1')"
      by (cases "rpc_status sock False w", cases "rpc_status sock False w'")
    from agreeD [OF blind_calls(6) [unfolded blind_def] "1.prems" st] have r: "r' = r" and t1: "twin E w1 w1'"
      by (simp_all add: sum.rel_eq)
    have t2: "twin E (snd (sleep 200 w1)) (snd (sleep 200 w1'))"
      by (rule agree_snd [OF blind_calls(1) [unfolded blind_def] t1])
    show ?case
      using t1 "1.IH" [OF st(1) [symmetric] refl _ _ _ t2]
      by (cases r) (simp_all add: ready_loop.simps [of sock deadline w] ready_loop.simps [of sock deadline w']
          st r twin_reads(1,17) [OF t1])
  qed
  then show ?thesis by (simp add: blind_def agree_def sum.rel_eq)
qed

text \<open>The daemon of an instance.\<close>

lemma blind_pid [blind_intros]:
  assumes "\<not> key_file (p_pid_file p)"
  shows "blind E (read_pid p)" and "blind E (recorded_alive p)" and "blind E (running p)"
  using assms unfolding read_pid_def recorded_alive_def running_def by (intro blind_intros; simp)+

lemma blind_daemon [blind_intros]:
  assumes "\<not> key_file (p_pid_file p)"
  shows "blind E (start i p extra)" and "blind E (stop p)" and "blind E (nuke p)"
proof -
  have left: "blind E (remove_leftovers l)" for l by (induction l) (unfold remove_leftovers.simps, (intro blind_intros | assumption)+)
  have process: "blind E (nuke_process x)" for x unfolding nuke_process_def by (intro blind_intros)
  show "blind E (start i p extra)" "blind E (stop p)" "blind E (nuke p)"
    using assms unfolding start_def stop_def nuke_def by (intro blind_intros left process; simp)+
qed

lemma blind_client [blind_intros]:
  "blind E (wait_sso_login sock ch host)" "blind E (set_config sock sc)" "blind E (networks sock)" "blind E (engine_up sock)"
  "blind E (engine_down sock)" "blind E (status sock)" "blind E (wait_ready sock timeout)" "blind E (nb_version bin)"
  unfolding wait_sso_login_def set_config_def networks_def engine_up_def engine_down_def status_def wait_ready_def
    nb_version_def
  by (intro blind_intros)+

text \<open>The platform.\<close>

lemma blind_by_os [blind_intros]: "blind E d \<Longrightarrow> blind E l \<Longrightarrow> blind E (by_os d l)"
  unfolding by_os_def by (rule blind_bnd [OF blind_reads(5)]) (simp split: os.split)

lemma blind_scutil [blind_intros]: "blind E (exec_scutil t)" "blind E list_multibird_keys"
proof -
  show s: "blind E (exec_scutil t)" for t unfolding exec_scutil_def by (intro blind_intros)
  show "blind E list_multibird_keys" unfolding list_multibird_keys_def by (intro blind_intros s)
qed

lemma blind_platform [blind_intros]:
  "blind E config_root" "blind E (interface_hint n)" "blind E (discover_interface a)" "blind E (route_interface a)"
  "blind E (apply_host_dns name sp)" "blind E (remove_host_dns name)" "blind E list_host_dns_owners"
  "blind E stock_netbird_dns_present"
  unfolding config_root_def darwin_config_root_def linux_config_root_def home_dir_def interface_hint_def
    darwin_interface_hint_def linux_interface_hint_def discover_interface_def route_interface_def found_def
    apply_host_dns_def darwin_apply_host_dns_def require_root_def flush_dns_cache_def remove_host_dns_def
    darwin_remove_host_dns_def list_host_dns_owners_def stock_netbird_dns_present_def
  by (intro blind_intros)+

lemma blind_new_env [blind_intros]: "blind E new_env"
  unfolding new_env_def by (intro blind_intros)

lemma blind_units [blind_intros]:
  "blind E (install name bin root)" "blind E (uninstall name)" "blind E (install_dns_watch name bin root)"
  "blind E (uninstall_dns_watch name)"
proof -
  have missing: "blind E (unless_missing path rest)" if "blind E rest" for path and rest :: "unit op"
    unfolding unless_missing_def
    by (rule blind_stat) (use that in \<open>auto intro!: blind_intros simp: blind_def [symmetric]\<close>)
  show "blind E (install name bin root)" "blind E (uninstall name)" "blind E (install_dns_watch name bin root)"
    "blind E (uninstall_dns_watch name)"
    unfolding install_def darwin_install_def linux_install_def install_systemd_def install_launchd_def
      install_dns_watch_def darwin_install_dns_watch_def linux_install_dns_watch_def uninstall_def
      darwin_uninstall_def linux_uninstall_def uninstall_systemd_def uninstall_launchd_def
      uninstall_dns_watch_def darwin_uninstall_dns_watch_def linux_uninstall_dns_watch_def remove_if_there_def
    by (intro blind_intros missing)+
qed

lemma blind_upgrade [blind_intros]: "blind E (upgrade_cmd ver info check force)"
proof -
  have "blind E token" unfolding token_def by (intro blind_intros)
  then have "blind E latest_release" "blind E (fetch a limit)" for a limit
    unfolding latest_release_def fetch_def by (intro blind_intros; assumption)+
  then show ?thesis
    unfolding upgrade_cmd_def upgrade_tail_def executable_def apply_release_def verified_binary_def replace_binary_def
    by (intro blind_intros) (simp_all add: extract_binary_def)
qed

section \<open>Parts that do not look at the key\<close>

named_theorems key_simps \<open>what an operation does not see: the key of the instance it is given\<close>

lemma fields_without_key [key_simps]:
  "store_params s (i\<lparr>i_setup_key := k\<rparr>) = store_params s i"
  "start (i\<lparr>i_setup_key := k\<rparr>) p extra = start i p extra"
  "config_for s (i\<lparr>i_setup_key := k\<rparr>) hint = config_for s i hint"
  "sso_flow (i\<lparr>i_setup_key := k\<rparr>) sock host ch = sso_flow i sock host ch"
  "apply_from_status (i\<lparr>i_setup_key := k\<rparr>) st = apply_from_status i st"
  "stop_engine (i\<lparr>i_setup_key := k\<rparr>) sock = stop_engine i sock"
  "snapshot_from (i\<lparr>i_setup_key := k\<rparr>) sock st = snapshot_from i sock st"
  "normalize (i\<lparr>i_setup_key := k\<rparr>) = (fst (normalize i), (snd (normalize i))\<lparr>i_setup_key := k\<rparr>)"
  "apply_changes cs (i\<lparr>i_setup_key := k\<rparr>) = ((fst (apply_changes cs i))\<lparr>i_setup_key := k\<rparr>, snd (apply_changes cs i))"
  by (simp_all add: store_params_def derive_params_def start_def config_for_def sso_flow_def apply_from_status_def
      stop_engine_def snapshot_from_def snap_net_def snap_routes_def intent_of_def normalize_def apply_changes_def
      Let_def split: option.split prod.split cong: if_cong option.case_cong sum.case_cong derive_error.case_cong)

lemma operations_without_key [key_simps]:
  "store_remove s (i\<lparr>i_setup_key := k\<rparr>) purge = store_remove s i purge"
  "dns_sync s (i\<lparr>i_setup_key := k\<rparr>) = dns_sync s i"
  "down s (i\<lparr>i_setup_key := k\<rparr>) = down s i"
  "remove_instance s (i\<lparr>i_setup_key := k\<rparr>) purge = remove_instance s i purge"
  "nuke_instance s (i\<lparr>i_setup_key := k\<rparr>) = nuke_instance s i"
  "check_conflicts s (i\<lparr>i_setup_key := k\<rparr>) strict = check_conflicts s i strict"
  "snapshot_one s (i\<lparr>i_setup_key := k\<rparr>) = snapshot_one s i"
  "peers_one s (i\<lparr>i_setup_key := k\<rparr>) = peers_one s i"
  "stopped_status s (i\<lparr>i_setup_key := k\<rparr>) = stopped_status s i"
  "register_dns (i\<lparr>i_setup_key := k\<rparr>) st = register_dns i st"
  "push_config s (i\<lparr>i_setup_key := k\<rparr>) = push_config s i"
  "leftovers_of s (i\<lparr>i_setup_key := k\<rparr>) = leftovers_of s i"
  "logs s (i\<lparr>i_setup_key := k\<rparr>) tail following polls = logs s i tail following polls"
  "list_row s (i\<lparr>i_setup_key := k\<rparr>) = list_row s i"
  by (simp_all add: key_simps store_remove_def dns_sync_def down_def remove_instance_def nuke_instance_def
      check_conflicts_def snapshot_one_def peers_one_def stopped_status_def register_dns_def push_config_def
      leftovers_of_def stale_pid_def stale_socket_def logs_def list_row_def Let_def
      cong: if_cong option.case_cong sum.case_cong)

text \<open>That there is a key is shown, never the key.\<close>

lemma inst_string_rekeyed: "rekeyed i i' \<Longrightarrow> inst_string i' = inst_string i"
  by (auto simp: rekeyed_def inst_string_def)

lemma rekeyed_refl [simp]: "rekeyed i i"
  unfolding rekeyed_def by (rule exI [of _ "i_setup_key i"]) simp

lemma rekeyed_changes:
  assumes "rekeyed i i'"
  shows "rekeyed (i\<lparr>i_logged_in := b\<rparr>) (i'\<lparr>i_logged_in := b\<rparr>)"
    and "rekeyed (i\<lparr>i_interface := f\<rparr>) (i'\<lparr>i_interface := f\<rparr>)"
    and "rekeyed (i\<lparr>i_dns_mode := m\<rparr>) (i'\<lparr>i_dns_mode := m\<rparr>)"
    and "rekeyed (i\<lparr>i_index := n, i_dns_mode := m\<rparr>) (i'\<lparr>i_index := n, i_dns_mode := m\<rparr>)"
    and "rekeyed (snd (normalize i)) (snd (normalize i'))"
    and "rekeyed (fst (apply_changes ch i)) (fst (apply_changes ch i'))"
  using assms unfolding rekeyed_def
  by (force simp: normalize_def apply_changes_def Let_def split: option.split prod.split)+

text \<open>Lists of instances.\<close>

abbreviation rekeyed_all :: "inst list \<Rightarrow> inst list \<Rightarrow> bool" where
  "rekeyed_all \<equiv> list_all2 rekeyed"

lemma rekeyed_map:
  assumes "\<And>i k. f (i\<lparr>i_setup_key := k\<rparr>) = f i" and "rekeyed_all l l'"
  shows "map f l' = map f l"
  using assms(2) by (induction rule: list_all2_induct) (auto simp: rekeyed_def assms(1))

lemma rekeyed_filter:
  assumes "\<And>i k. P (i\<lparr>i_setup_key := k\<rparr>) = P i" and "rekeyed_all l l'"
  shows "length (filter P l') = length (filter P l)"
  using assms(2) by (induction rule: list_all2_induct) (auto simp: rekeyed_def assms(1))

lemma each_map: "each f l = each (\<lambda>m. m) (map f l)"
  by (induction l) simp_all

lemma rekeyed_each:
  assumes "\<And>i k. f (i\<lparr>i_setup_key := k\<rparr>) = f i" and "rekeyed_all l l'"
  shows "each f l' = each f l"
  using rekeyed_map [OF assms] by (simp add: each_map [of f])

lemma rekeyed_sort: "rekeyed_all l l' \<Longrightarrow> rekeyed_all (sort_key i_name l) (sort_key i_name l')"
proof (induction rule: list_all2_induct)
  case (Cons i l i' l')
  have insert: "rekeyed_all xs ys \<Longrightarrow> rekeyed_all (insort_key i_name i xs) (insort_key i_name i' ys)" for xs ys
  proof (induction rule: list_all2_induct)
    case Nil
    with \<open>rekeyed i i'\<close> show ?case by simp
  next
    case (Cons x xs y ys)
    with \<open>rekeyed i i'\<close> show ?case by (auto simp: rekeyed_def)
  qed
  from insert [OF Cons(3)] show ?case by simp
qed simp

text \<open>With one instance given, these are blind.\<close>

lemma blind_instance [blind_intros]:
  "blind E (apply_from_status i st)" "blind E (remove_quietly name)" "blind E (store_remove s i purge)"
  "blind E (instance_hostname name)" "blind E (warn_if_failed r text)"
proof -
  show "blind E (apply_from_status i st)"
    unfolding apply_from_status_def by (auto intro!: blind_intros split: derive_error.split)
  show "blind E (remove_quietly name)" "blind E (store_remove s i purge)" "blind E (instance_hostname name)"
    "blind E (warn_if_failed r text)"
    unfolding remove_quietly_def store_remove_def instance_hostname_def warn_if_failed_def by (intro blind_intros)+
qed

lemma blind_caught [blind_intros]: "blind E m \<Longrightarrow> blind E (caught m)"
  unfolding caught_def by (intro blind_intros)

lemma blind_operations [blind_intros]:
  "blind E (dns_sync s i)" "blind E (sso_flow i sock host ch)" "blind E (stop_engine i sock)" "blind E (down s i)"
  "blind E (nuke_instance s i)" "blind E (snapshot_one s i)" "blind E (peers_one s i)" "blind E (register_dns i st)"
  "blind E (push_config s i)" "blind E (logs s i tail following polls)"
proof -
  have engine: "blind E (stop_engine i sock)" for i sock unfolding stop_engine_def by (intro blind_intros)
  then show "blind E (stop_engine i sock)" .
  have snap: "blind E (snapshot_from i sock st)" for i sock st
    unfolding snapshot_from_def snap_net_def snap_routes_def by (intro blind_intros)
  show "blind E (down s i)" unfolding down_def by (intro blind_intros engine; simp)
  show "blind E (snapshot_one s i)" unfolding snapshot_one_def by (intro blind_intros snap; simp)
  show "blind E (dns_sync s i)" "blind E (sso_flow i sock host ch)" "blind E (nuke_instance s i)"
    "blind E (peers_one s i)" "blind E (register_dns i st)" "blind E (push_config s i)"
    "blind E (logs s i tail following polls)"
    unfolding dns_sync_def sso_flow_def nuke_instance_def peers_one_def register_dns_def push_config_def logs_def
    by (intro blind_intros; simp)+
qed

lemma blind_remove_instance [blind_intros]: "blind E (remove_instance s i purge)"
  unfolding remove_instance_def by (intro blind_intros)

section \<open>Where instances are read, changed and written\<close>

lemma agree_blind: "blind E m \<Longrightarrow> agree E (=) m m"
  by (simp add: blind_def)

lemma agree_bnd_blind: "blind E m \<Longrightarrow> (\<And>x. agree E B (f x) (f' x)) \<Longrightarrow> agree E B (bnd m f) (bnd m f')"
  unfolding blind_def by (erule agree_bnd) simp

lemma agree_thn_blind: "blind E m \<Longrightarrow> agree E B n n' \<Longrightarrow> agree E B (thn m n) (thn m n')"
  unfolding blind_def by (rule agree_thn)

lemma agree_attempt_bnd:
  assumes "agree E A m m'" and "\<And>e. agree E B (f (Inl e)) (f' (Inl e))"
    and "\<And>x y. A x y \<Longrightarrow> agree E B (f (Inr x)) (f' (Inr y))"
  shows "agree E B (bnd (attempt m) f) (bnd (attempt m') f')"
proof (rule agree_bnd [OF agree_attempt [OF assms(1)]])
  fix r r' :: "err + _"
  assume "rel_sum (=) A r r'"
  with assms(2,3) show "agree E B (f r) (f' r')" by (cases r; cases r') auto
qed

lemma agree_caught: "agree E A m m' \<Longrightarrow> agree E (rel_sum (=) A) (caught m) (caught m')"
  unfolding caught_def by (erule agree_attempt_bnd) (auto intro: agree_fail agree_ret)

lemma agree_if: "agree E A m m' \<Longrightarrow> agree E A n n' \<Longrightarrow> agree E A (if b then m else n) (if b then m' else n')"
  by simp

lemma agree_ret_inst: "rekeyed i i' \<Longrightarrow> agree E rekeyed (ret i) (ret i')"
  and agree_ret_insts: "rekeyed_all l l' \<Longrightarrow> agree E rekeyed_all (ret l) (ret l')"
  by (rule agree_ret, assumption)+

text \<open>The text of an instance's file, and what is decoded from it.\<close>

definition same_text :: "(inst \<Rightarrow> string) \<Rightarrow> string \<Rightarrow> string \<Rightarrow> bool" where
  "same_text E t t' \<longleftrightarrow> t = t' \<or> (\<exists>i i'. rekeyed i i' \<and> t = E i \<and> t' = E i')"

lemma agree_encode:
  assumes "agree E B (f (E i)) (f' (E i'))"
  shows "agree E B (bnd (asks (\<lambda>w. e_toml_enc (w_env w) i)) f) (bnd (asks (\<lambda>w. e_toml_enc (w_env w) i')) f')"
  using assms by (simp add: agree_def twin_reads(2,3))

lemma agree_decode:
  assumes "same_text E t t'"
  shows "agree E (rel_sum (=) rekeyed) (asks (\<lambda>w. e_toml_dec (w_env w) t)) (asks (\<lambda>w. e_toml_dec (w_env w) t'))"
proof (rule agree_asks)
  fix w w'
  assume t: "twin E w w'"
  note r = twin_reads(4,5) [OF t]
  show "rel_sum (=) rekeyed (e_toml_dec (w_env w) t) (e_toml_dec (w_env w') t')"
    using assms unfolding same_text_def
    by (cases "e_toml_dec (w_env w) t") (auto simp: r)
qed

lemma agree_read_file: "agree E (same_text E) (read_file p) (read_file p)"
  unfolding read_file_def
proof (rule agree_fs_call)
  fix f g
  assume s: "same_files E f g"
  show "rel_sum (=) (same_text E) (fst (get_file f p, f)) (fst (get_file g p, g)) \<and>
    same_files E (snd (get_file f p, f)) (snd (get_file g p, g))"
    using s by (cases rule: same_files_cases [OF s, of p]) (auto simp: get_file_def same_text_def same_node_def)
qed

lemma agree_write_open:
  assumes "key_file p" and "rekeyed i i'"
  shows "agree E (=) (write_open p (E i)) (write_open p (E i'))"
  unfolding write_open_def
proof (rule agree_fs_call)
  fix f g
  assume s: "same_files E f g"
  have n: "same_node E p (File (E i) m) (File (E i') m)" for m using assms unfolding same_node_def by blast
  show "rel_sum (=) (=)
      (fst (Inr (), case map_of f p of Some (File _ m) \<Rightarrow> fs_put f p (File (E i) m) | _ \<Rightarrow> f))
      (fst (Inr (), case map_of g p of Some (File _ m) \<Rightarrow> fs_put g p (File (E i') m) | _ \<Rightarrow> g)) \<and>
    same_files E
      (snd (Inr (), case map_of f p of Some (File _ m) \<Rightarrow> fs_put f p (File (E i) m) | _ \<Rightarrow> f))
      (snd (Inr (), case map_of g p of Some (File _ m) \<Rightarrow> fs_put g p (File (E i') m) | _ \<Rightarrow> g))"
    using s same_files_changes(1) [OF s n] by (cases rule: same_files_cases [OF s, of p]) auto
qed

lemma agree_save:
  assumes "rekeyed i i'"
  shows "agree E (=) (save s i) (save s i')"
proof -
  obtain k where k: "i' = i\<lparr>i_setup_key := k\<rparr>" using assms by (auto simp: rekeyed_def)
  have "store_params s i' = store_params s i" unfolding k by (rule key_simps)
  then show ?thesis
    unfolding save_def Let_def
    by (auto intro!: agree_thn_blind agree_encode agree_attempt_bnd [OF agree_write_open [OF _ assms]] agree_blind
        blind_intros)
qed

text \<open>The store.\<close>

lemma agree_load: "agree E rekeyed (load s name) (load s name)"
proof (cases "valid_name name")
  case True
  have decode: "agree E rekeyed (bnd (asks (\<lambda>w. e_toml_dec (w_env w) t)) f) (bnd (asks (\<lambda>w. e_toml_dec (w_env w) t')) f)"
    if "same_text E t t'" and f: "f = (\<lambda>d. case d of Inl m \<Rightarrow> fail (Wrap ''reading'' (ErrMsg m)) | Inr i \<Rightarrow> ret i)" for t t' f
  proof (rule agree_bnd [OF agree_decode [OF that(1)]])
    fix d d' :: "string + inst"
    assume "rel_sum (=) rekeyed d d'"
    then show "agree E rekeyed (f d) (f d')" unfolding f by (cases d; cases d') (auto intro: agree_fail agree_ret)
  qed
  show ?thesis
    unfolding load_def using True
    by (auto intro!: agree_attempt_bnd [OF agree_read_file] decode agree_fail)
qed (simp add: load_def agree_fail)

lemma agree_load_entries: "agree E rekeyed_all (load_entries s es) (load_entries s es)"
proof (induction es)
  case Nil
  show ?case unfolding load_entries.simps by (rule agree_ret) simp
next
  case (Cons e es)
  obtain name dir where e: "e = (name, dir)" by (cases e)
  have rest: "agree E rekeyed_all (bnd (load_entries s es) (\<lambda>l. ret (i # l))) (bnd (load_entries s es) (\<lambda>l. ret (i' # l)))"
    if "rekeyed i i'" for i i'
    by (rule agree_bnd [OF Cons.IH], rule agree_ret) (simp add: that)
  show ?case
    unfolding e load_entries.simps
    by (cases dir) (auto intro!: agree_attempt_bnd [OF agree_stat] agree_bnd [OF agree_load] Cons.IH rest)
qed

lemma agree_list_store: "agree E rekeyed_all (list_store s) (list_store s)"
  unfolding list_store_def
proof (rule agree_attempt_bnd [OF agree_blind], rule blind_intros)
  fix e
  show "agree E rekeyed_all
      (case Inl e of Inl e \<Rightarrow> if is_not_exist e then ret [] else fail (Wrap ''reading'' e)
        | Inr entries \<Rightarrow> bnd (load_entries s entries) (\<lambda>l. ret (sort_key i_name l)))
      (case Inl e of Inl e \<Rightarrow> if is_not_exist e then ret [] else fail (Wrap ''reading'' e)
        | Inr entries \<Rightarrow> bnd (load_entries s entries) (\<lambda>l. ret (sort_key i_name l)))"
    using agree_ret [of rekeyed_all "[]" "[]" E] agree_fail by auto
next
  fix x y :: "(string \<times> bool) list"
  assume "x = y"
  then show "agree E rekeyed_all
      (case Inr x of Inl e \<Rightarrow> if is_not_exist e then ret [] else fail (Wrap ''reading'' e)
        | Inr entries \<Rightarrow> bnd (load_entries s entries) (\<lambda>l. ret (sort_key i_name l)))
      (case Inr y of Inl e \<Rightarrow> if is_not_exist e then ret [] else fail (Wrap ''reading'' e)
        | Inr entries \<Rightarrow> bnd (load_entries s entries) (\<lambda>l. ret (sort_key i_name l)))"
    using agree_bnd [OF agree_load_entries agree_ret_insts [OF rekeyed_sort]] by simp
qed

lemma blind_next_index [blind_intros]: "blind E (next_index s)"
  unfolding next_index_def blind_def
  by (rule agree_bnd [OF agree_list_store], rule agree_ret) (simp add: rekeyed_map [of i_index])

lemma agree_migrate:
  assumes "rekeyed i i'"
  shows "agree E rekeyed (migrate s i) (migrate s i')"
proof -
  have n: "rekeyed (snd (normalize i)) (snd (normalize i'))" "fst (normalize i') = fst (normalize i)"
    using rekeyed_changes(5) [OF assms] assms by (auto simp: rekeyed_def key_simps)
  show ?thesis
    unfolding migrate_def split_beta Let_def n(2)
    using agree_thn [OF agree_save [OF n(1)] agree_ret_inst [OF n(1)]] agree_ret_inst [OF n(1)]
    by auto
qed

lemma agree_load_instance: "agree E rekeyed (load_instance s name) (load_instance s name)"
  unfolding load_instance_def by (rule agree_bnd [OF agree_load agree_migrate])

lemma agree_list_instances: "agree E rekeyed_all (list_instances s) (list_instances s)"
  unfolding list_instances_def by (rule agree_bnd [OF agree_list_store agree_each [OF _ agree_migrate]])

lemma agree_add:
  assumes "rekeyed i i'"
  shows "agree E rekeyed (add s i) (add s i')"
proof -
  have same: "i_name i' = i_name i" "i_dns_mode i' = i_dns_mode i" using assms by (auto simp: rekeyed_def)
  have store: "agree E rekeyed (thn (save s j) (ret j)) (thn (save s j') (ret j'))" if "rekeyed j j'" for j j'
    by (rule agree_thn [OF agree_save [OF that] agree_ret_inst [OF that]])
  have rest: "agree E rekeyed
    (if b then fail e
     else bnd (next_index s) (\<lambda>idx. bnd (asks (\<lambda>w. e_os (w_env w))) (\<lambda>os.
       thn (save s (i\<lparr>i_index := idx, i_dns_mode := mode os\<rparr>)) (ret (i\<lparr>i_index := idx, i_dns_mode := mode os\<rparr>)))))
    (if b then fail e
     else bnd (next_index s) (\<lambda>idx. bnd (asks (\<lambda>w. e_os (w_env w))) (\<lambda>os.
       thn (save s (i'\<lparr>i_index := idx, i_dns_mode := mode os\<rparr>)) (ret (i'\<lparr>i_index := idx, i_dns_mode := mode os\<rparr>)))))"
    for b e mode
    by (cases b) (auto intro!: agree_fail agree_bnd_blind blind_intros store rekeyed_changes(4) assms)
  show ?thesis
    unfolding add_def same Let_def
    by (rule agree_if [OF agree_fail], rule agree_attempt_bnd [OF agree_load]; unfold is_ok.simps; rule rest)
qed

section \<open>The life of an instance\<close>

lemma agree_login:
  assumes "k = [] \<longleftrightarrow> l_setup_key p = []"
  shows "agree E (=) (login sock p) (login sock (p\<lparr>l_setup_key := k\<rparr>))"
proof -
  have hint: "login_hint k = login_hint (l_setup_key p)" using assms by (simp add: login_hint_def)
  show ?thesis
    unfolding login_def
    by (simp add: hint, rule agree_bnd [OF agree_wrap [OF agree_rpc_login]]) (simp add: agree_blind blind_ret)
qed

lemma agree_option_ops:
  "agree E A m m' \<Longrightarrow> (\<And>x. agree E A (f x) (f' x)) \<Longrightarrow>
     agree E A (case x of None \<Rightarrow> m | Some y \<Rightarrow> f y) (case x of None \<Rightarrow> m' | Some y \<Rightarrow> f' y)"
  by (simp split: option.split)

lemma agree_sum_ops:
  "(\<And>e. agree E A (m e) (m' e)) \<Longrightarrow> (\<And>x. agree E A (f x) (f' x)) \<Longrightarrow>
     agree E A (case x of Inl e \<Rightarrow> m e | Inr y \<Rightarrow> f y) (case x of Inl e \<Rightarrow> m' e | Inr y \<Rightarrow> f' y)"
  by (simp split: sum.split)

lemma agree_bnd_eq: "agree E (=) m m' \<Longrightarrow> (\<And>x. agree E B (f x) (f' x)) \<Longrightarrow> agree E B (bnd m f) (bnd m' f')"
  by (erule agree_bnd) simp

lemma agree_thn_eq: "agree E (=) m m' \<Longrightarrow> agree E B n n' \<Longrightarrow> agree E B (thn m n) (thn m' n')"
  by (rule agree_thn)

lemmas agree_steps = agree_bnd_eq agree_thn_eq agree_wrap agree_if agree_option_ops agree_sum_ops agree_ret_inst
  agree_save agree_blind blind_intros

lemma agree_log_in:
  assumes "rekeyed i i'"
  shows "agree E rekeyed (log_in s i) (log_in s i')"
proof -
  obtain k where k: "i' = i\<lparr>i_setup_key := k\<rparr>" "k = [] \<longleftrightarrow> i_setup_key i = []"
    using assms by (auto simp: rekeyed_def)
  have login: "agree E (=)
      (login sock \<lparr>l_setup_key = i_setup_key i, l_management_url = i_management_url i, l_hostname = host\<rparr>)
      (login sock \<lparr>l_setup_key = i_setup_key i', l_management_url = i_management_url i', l_hostname = host\<rparr>)"
    for sock host
    using agree_login [of k "\<lparr>l_setup_key = i_setup_key i, l_management_url = i_management_url i, l_hostname = host\<rparr>"]
      k by simp
  have flow: "agree E (=) (case c of None \<Rightarrow> ret () | Some x \<Rightarrow> sso_flow i sock host x)
      (case c of None \<Rightarrow> ret () | Some x \<Rightarrow> sso_flow i' sock host x)" for c sock host
    unfolding k(1) key_simps by (intro agree_blind blind_intros)
  have same: "i_name i' = i_name i" "i_index i' = i_index i" "store_params s i' = store_params s i"
    "config_for s i' hint = config_for s i hint" for hint
    by (simp_all add: k(1) key_simps)
  show ?thesis
    unfolding log_in_def Let_def same
    by (intro agree_steps login flow rekeyed_changes assms)
qed

lemma agree_record_interface:
  assumes "rekeyed i i'"
  shows "agree E rekeyed (record_interface s i st) (record_interface s i' st)"
proof -
  have same: "i_interface i' = i_interface i" using assms by (auto simp: rekeyed_def)
  show ?thesis
    unfolding record_interface_def Let_def same
    by (intro agree_steps rekeyed_changes assms)
qed

text \<open>The preflight and the snapshots of the running instances.\<close>

lemma blind_conflicts [blind_intros]: "blind E (conflicts_involving s name)"
proof -
  have "agree E (=) (snapshot_running s) (snapshot_running s)"
    unfolding snapshot_running_def
  proof (rule agree_bnd [OF agree_list_store])
    fix l l'
    assume "rekeyed_all l l'"
    then have "each (snapshot_one s) l' = each (snapshot_one s) l" by (intro rekeyed_each key_simps)
    then show "agree E (=) (bnd (each (snapshot_one s) l) (\<lambda>l. ret (List.map_filter (\<lambda>a. a) l)))
        (bnd (each (snapshot_one s) l') (\<lambda>l. ret (List.map_filter (\<lambda>a. a) l)))"
      by (simp only:) (intro agree_blind blind_intros)
  qed
  then have "blind E (snapshot_running s)" by (simp add: blind_def)
  then show ?thesis unfolding conflicts_involving_def settle_route_def by (intro blind_intros)
qed

lemma blind_check_conflicts [blind_intros]: "blind E (check_conflicts s i strict)"
  unfolding check_conflicts_def by (intro blind_intros)

lemma agree_up:
  assumes "rekeyed i i'"
  shows "agree E (=) (up s i strict) (up s i' strict)"
proof -
  have same: "i_name i' = i_name i" "i_logged_in i' = i_logged_in i" "store_params s i' = store_params s i"
    "start i' p extra = start i p extra" for p extra
    using assms by (auto simp: rekeyed_def key_simps)
  have checks: "agree E (=)
      (bnd (caught (apply_from_status j st)) (\<lambda>r. thn (warn_if_failed r (\<lambda>t. t)) (check_conflicts s j strict)))
      (bnd (caught (apply_from_status j' st)) (\<lambda>r. thn (warn_if_failed r (\<lambda>t. t)) (check_conflicts s j' strict)))"
    if "rekeyed j j'" for j j' st
  proof -
    from that obtain k where k: "j' = j\<lparr>i_setup_key := k\<rparr>" by (auto simp: rekeyed_def)
    show ?thesis unfolding k key_simps by (intro agree_blind blind_intros)
  qed
  have finish: "agree E (=) (finish_up s j strict st) (finish_up s j' strict st)" if "rekeyed j j'" for j j' st
    unfolding finish_up_def by (rule agree_bnd [OF agree_record_interface [OF that] checks])
  have engine: "agree E (=)
      (thn (wrap t (engine_up sock)) (bnd (wrap t' (status sock)) (finish_up s j strict)))
      (thn (wrap t (engine_up sock)) (bnd (wrap t' (status sock)) (finish_up s j' strict)))"
    if "rekeyed j j'" for j j' t t' sock
    by (intro agree_steps finish that)
  show ?thesis
    unfolding up_def Let_def same
    by (intro agree_bnd_eq agree_thn_eq agree_bnd [where A = rekeyed, OF agree_if [OF agree_ret_inst agree_log_in]]
        engine agree_blind blind_intros assms) simp_all
qed

lemma agree_backfill:
  assumes "rekeyed i i'"
  shows "agree E (=) (backfill s i v) (backfill s i' v)"
proof -
  have same: "i_interface i' = i_interface i" "i_name i' = i_name i" using assms by (auto simp: rekeyed_def)
  have save: "agree E (=) (attempt (save s (i\<lparr>i_interface := f\<rparr>))) (attempt (save s (i'\<lparr>i_interface := f\<rparr>)))" for f
    using agree_attempt [OF agree_save [OF rekeyed_changes(2) [OF assms]]] by (simp add: sum.rel_eq)
  show ?thesis
    unfolding backfill_def same by (intro save agree_steps)
qed

lemma agree_status_one:
  assumes "rekeyed i i'"
  shows "agree E (=) (status_one s i) (status_one s i')"
proof -
  obtain k where k: "i' = i\<lparr>i_setup_key := k\<rparr>" using assms by (auto simp: rekeyed_def)
  have same: "store_params s i' = store_params s i" "stopped_status s i' = stopped_status s i"
    "i_netbird_bin i' = i_netbird_bin i" "register_dns i' = register_dns i"
    unfolding k by (simp_all add: key_simps fun_eq_iff)
  show ?thesis
    unfolding status_one_def Let_def same by (intro agree_steps agree_backfill assms) simp_all
qed

lemma agree_set_instance:
  assumes "rekeyed i i'"
  shows "agree E (=) (set_instance s i ch) (set_instance s i' ch)"
proof -
  obtain k where k: "i' = i\<lparr>i_setup_key := k\<rparr>" using assms by (auto simp: rekeyed_def)
  have same: "i_name i' = i_name i" "i_dns_mode i' = i_dns_mode i"
    "i_logged_in (fst (apply_changes ch i')) = i_logged_in (fst (apply_changes ch i))"
    "i_dns_mode (fst (apply_changes ch i')) = i_dns_mode (fst (apply_changes ch i))"
    "push_config s (fst (apply_changes ch i')) = push_config s (fst (apply_changes ch i))"
    "snd (apply_changes ch i') = snd (apply_changes ch i)"
    by (simp_all add: k key_simps)
  show ?thesis
    unfolding set_instance_def split_beta Let_def same by (intro agree_steps rekeyed_changes assms)
qed

section \<open>The commands\<close>

lemma rekeyed_Nil: "rekeyed_all l l' \<Longrightarrow> (l' = []) = (l = [])"
  by (cases l) auto

lemma agree_targets: "agree E rekeyed_all (targets s args all) (targets s args all)"
proof -
  have "agree E rekeyed_all (if l = [] then fail e else ret l) (if l' = [] then fail e else ret l')"
    if "rekeyed_all l l'" for l l' e
    using that by (auto intro: agree_fail agree_ret_insts simp: rekeyed_Nil)
  moreover have "agree E rekeyed_all (ret [i]) (ret [i'])" if "rekeyed i i'" for i i'
    using that by (auto intro: agree_ret_insts)
  ultimately show ?thesis
    unfolding targets_def
    by (intro agree_if agree_fail agree_bnd [OF agree_list_instances] agree_bnd [OF agree_load_instance]) auto
qed

lemma agree_instances_for: "agree E rekeyed_all (instances_for s args) (instances_for s args)"
proof -
  have "agree E rekeyed_all (ret [i]) (ret [i'])" if "rekeyed i i'" for i i'
    using that by (auto intro: agree_ret_insts)
  then show ?thesis
    unfolding instances_for_def
    by (intro agree_if agree_list_instances agree_bnd [OF agree_load_instance])
qed

text \<open>A command that works on what it has loaded.\<close>

lemma agree_with:
  assumes "agree E A m m" and "\<And>x y. A x y \<Longrightarrow> f y = f x" and "\<And>x. blind E (f x)"
  shows "blind E (bnd m f)"
  unfolding blind_def by (rule agree_bnd [OF assms(1)]) (use assms(2,3) in \<open>simp add: blind_def\<close>)

lemma agree_with_related:
  assumes "agree E A m m" and "\<And>x y. A x y \<Longrightarrow> agree E (=) (f x) (f y)"
  shows "blind E (bnd m f)"
  unfolding blind_def by (rule agree_bnd [OF assms])

lemma rekeyedE: "rekeyed i i' \<Longrightarrow> (\<And>k. i' = i\<lparr>i_setup_key := k\<rparr> \<Longrightarrow> P) \<Longrightarrow> P"
  by (auto simp: rekeyed_def)

lemma agree_up_each: "rekeyed_all l l' \<Longrightarrow> agree E (=) (up_each s strict all l) (up_each s strict all l')"
proof (induction rule: list_all2_induct)
  case Nil
  show ?case unfolding up_each.simps by (rule agree_ret) simp
next
  case (Cons i l i' l')
  have name: "i_name i' = i_name i" using Cons(1) by (auto simp: rekeyed_def)
  have "agree E (=) (caught (up s i strict)) (caught (up s i' strict))"
    using agree_caught [OF agree_up [OF Cons(1)]] by (simp add: sum.rel_eq)
  then show ?case
    unfolding up_each.simps name by (intro agree_steps Cons(3))
qed

lemma blind_up_cmd [blind_intros]: "blind E (up_cmd args all strict)"
  unfolding up_cmd_def
  by (rule blind_bnd [OF blind_new_env], rule agree_with_related [OF agree_targets])
     (intro agree_steps agree_up_each)

lemma blind_down_cmd [blind_intros]: "blind E (down_cmd args all)"
  unfolding down_cmd_def
proof (rule blind_bnd [OF blind_new_env], rule agree_with [OF agree_targets])
  fix s l l'
  assume "rekeyed_all l l'"
  then have "each (\<lambda>i. thn (down s i) (printf (i_name i @ '': down''))) l' =
      each (\<lambda>i. thn (down s i) (printf (i_name i @ '': down''))) l"
    by (intro rekeyed_each) (simp add: key_simps)
  then show "thn (each (\<lambda>i. thn (down s i) (printf (i_name i @ '': down''))) l') (ret ()) =
      thn (each (\<lambda>i. thn (down s i) (printf (i_name i @ '': down''))) l) (ret ())" by simp
qed (intro blind_intros)

lemma blind_one_instance [blind_intros]:
  "blind E (remove_cmd name purge)" "blind E (nuke_cmd name)" "blind E (logs_cmd name following kb polls)"
  "blind E (install_cmd name watch_too)"
  unfolding remove_cmd_def nuke_cmd_def logs_cmd_def install_cmd_def executable_def
  by (rule blind_bnd [OF blind_new_env], rule agree_with [OF agree_load_instance];
      (elim rekeyedE, simp add: key_simps cong: if_cong)?; (intro blind_intros)?)+

lemma blind_set_cmd [blind_intros]: "blind E (set_cmd name f)"
  unfolding set_cmd_def
proof (rule blind_bnd [OF blind_new_env], rule agree_with_related [OF agree_load_instance])
  fix s i i'
  assume r: "rekeyed i i'"
  then have name: "i_name i' = i_name i" by (auto simp: rekeyed_def)
  show "agree E (=)
      (case set_changes_of f of Inl e \<Rightarrow> fail e
        | Inr ch \<Rightarrow> thn (set_instance s i ch) (printf (i_name i @ '': settings updated'')))
      (case set_changes_of f of Inl e \<Rightarrow> fail e
        | Inr ch \<Rightarrow> thn (set_instance s i' ch) (printf (i_name i' @ '': settings updated'')))"
    unfolding name by (intro agree_steps agree_set_instance r)
qed

lemma blind_uninstall_cmd [blind_intros]: "blind E (uninstall_cmd name)"
  unfolding uninstall_cmd_def by (intro blind_intros)

lemma blind_encode [blind_intros]: "blind E (encode j)"
  unfolding encode_def by (intro blind_intros)

lemma blind_status_cmd [blind_intros]: "blind E (status_cmd args json_out)"
  unfolding status_cmd_def
proof (rule blind_bnd [OF blind_new_env], rule agree_with_related [OF agree_instances_for])
  fix s l l'
  assume r: "rekeyed_all l l'"
  have all: "agree E (=) (status_all s l) (status_all s l')"
    unfolding status_all_def using agree_each [OF r agree_status_one] by (simp add: list.rel_eq)
  show "agree E (=)
      (bnd (status_all s l) (\<lambda>sts. if json_out then encode (JArr (map status_json sts))
        else write_out (table ([''NAME'', ''STATE'', ''NETBIRD IP'', ''PEERS'', ''IFACE'', ''MGMT'', ''VERSION''] #
              map status_row sts))))
      (bnd (status_all s l') (\<lambda>sts. if json_out then encode (JArr (map status_json sts))
        else write_out (table ([''NAME'', ''STATE'', ''NETBIRD IP'', ''PEERS'', ''IFACE'', ''MGMT'', ''VERSION''] #
              map status_row sts))))"
    by (intro agree_bnd_eq all) (intro agree_blind blind_intros)
qed

lemma blind_peers_cmd [blind_intros]: "blind E (peers_cmd args json_out)"
  unfolding peers_cmd_def
proof (rule blind_bnd [OF blind_new_env], rule agree_with [OF agree_instances_for], goal_cases)
  case (1 s l l')
  then have "peers s l' = peers s l" unfolding peers_def by (intro rekeyed_each key_simps)
  with rekeyed_Nil [OF 1] show ?case by simp
qed (unfold peers_def, intro blind_intros)

lemma blind_list_cmd [blind_intros]: "blind E list_cmd"
  unfolding list_cmd_def
proof (rule blind_bnd [OF blind_new_env], rule agree_with [OF agree_list_instances], goal_cases)
  case (1 s l l')
  have "map (list_row s) l' = map (list_row s) l" by (rule rekeyed_map [OF operations_without_key(14) 1])
  with rekeyed_Nil [OF 1] show ?case by simp
qed (intro blind_intros)

lemma blind_leftovers_of [blind_intros]: "blind E (leftovers_of s i)"
proof -
  have "blind E (stale_pid s i)" unfolding stale_pid_def by (intro blind_intros; simp)
  moreover have "blind E (stale_socket s i)"
    unfolding stale_socket_def Let_def
    by (rule blind_stat; unfold is_ok.simps; intro agree_blind blind_intros; simp)
  ultimately show ?thesis unfolding leftovers_of_def by (intro blind_intros)
qed

lemma blind_examine: "blind E (examine ord s root insts)"
proof -
  have run: "blind E (run_dir_check s)"
    unfolding run_dir_check_def Let_def
  proof (rule blind_stat)
    fix n n'
    assume "same_node E (s_run s) n n'"
    then show "agree E (=)
      (ret (case Inr n of Inr (File _ _) \<Rightarrow> failed ''run dir'' (s_run s @ '' exists but is not a directory'')
              | Inr (Dir _) \<Rightarrow> passed ''run dir'' (s_run s @ '' exists'')
              | Inl _ \<Rightarrow> warned ''run dir'' (s_run s @ '' does not exist yet'')))
      (ret (case Inr n' of Inr (File _ _) \<Rightarrow> failed ''run dir'' (s_run s @ '' exists but is not a directory'')
              | Inr (Dir _) \<Rightarrow> passed ''run dir'' (s_run s @ '' exists'')
              | Inl _ \<Rightarrow> warned ''run dir'' (s_run s @ '' does not exist yet'')))"
      by (cases n) (auto intro!: agree_ret dest: same_node_File)
  qed (intro blind_intros)
  show ?thesis
    unfolding examine_def binary_check_def conflict_checks_def stray_checks_def native_checks_def leftover_checks_def
      orphan_checks_def
    by (intro blind_intros run)
qed

lemma examine_rekeyed:
  assumes "rekeyed_all l l'"
  shows "examine ord s root l' = examine ord s root l"
proof -
  have names: "map i_name l' = map i_name l" "map i_netbird_bin l' = map i_netbird_bin l"
    "map (\<lambda>i. [i_name i @ ''.sock'', i_name i @ ''.pid'']) l' = map (\<lambda>i. [i_name i @ ''.sock'', i_name i @ ''.pid'']) l"
    by (rule rekeyed_map [OF _ assms], simp)+
  have natives: "length (filter (\<lambda>i. i_dns_mode i = DNSNative) l') = length (filter (\<lambda>i. i_dns_mode i = DNSNative) l)"
    by (rule rekeyed_filter [OF _ assms]) simp
  have left: "each (leftovers_of s) l' = each (leftovers_of s) l"
    by (rule rekeyed_each [OF _ assms]) (simp add: key_simps)
  have ports: "port_problems s owner l' = port_problems s owner l" for owner
    using assms
    by (induction arbitrary: owner rule: list_all2_induct)
       (auto simp: rekeyed_def key_simps Let_def cong: option.case_cong)
  show ?thesis
    unfolding examine_def binaries_def stray_checks_def native_checks_def leftover_checks_def orphan_checks_def
      port_checks_def names natives left ports ..
qed

lemma blind_doctor_cmd [blind_intros]: "blind E (doctor_cmd ord strict json_out)"
proof -
  have "blind E (doctor ord s)" for s
  proof -
    let ?f = "\<lambda>l. examine ord s (case l of Inl e \<Rightarrow> [failed ''config root'' (err_text e)] | Inr _ \<Rightarrow> [])
       (case l of Inl _ \<Rightarrow> [] | Inr is \<Rightarrow> is)"
    have "doctor ord s = bnd (attempt (list_instances s)) ?f"
      by (simp add: doctor_def examine_def Let_def)
    moreover have "blind E (bnd (attempt (list_instances s)) ?f)"
      unfolding blind_def
    proof (rule agree_attempt_bnd [OF agree_list_instances])
      fix l l'
      assume "rekeyed_all l l'"
      note same = examine_rekeyed [OF this]
      show "agree E (=) (?f (Inr l)) (?f (Inr l'))"
        unfolding sum.case same by (rule agree_blind [OF blind_examine])
    qed (rule agree_blind [OF blind_examine])
    ultimately show ?thesis by simp
  qed
  then show ?thesis unfolding doctor_cmd_def Let_def by (intro blind_intros)
qed

lemma blind_sweep_step [blind_intros]: "blind E (sweep_step s)"
proof -
  have sweep: "blind E (sweep known xs)" for known xs
    by (induction xs) (unfold sweep.simps, (intro blind_intros | assumption)+)
  have strays: "blind E (bnd (attempt (list_instances s)) (\<lambda>l.
      case l of Inl e \<Rightarrow> ret ([], Some e) | Inr insts \<Rightarrow> sweep (map i_name insts) owners))" for owners
    unfolding blind_def
  proof (rule agree_attempt_bnd [OF agree_list_instances])
    fix l l'
    assume "rekeyed_all l l'"
    then have "map i_name l' = map i_name l" by (rule rekeyed_map [rotated]) simp
    then show "agree E (=)
        (case Inr l of Inl e \<Rightarrow> ret ([], Some e) | Inr insts \<Rightarrow> sweep (map i_name insts) owners)
        (case Inr l' of Inl e \<Rightarrow> ret ([], Some e) | Inr insts \<Rightarrow> sweep (map i_name insts) owners)"
      using agree_blind [OF sweep] by simp
  qed (simp add: agree_ret del: ret_simp)
  have "blind E (dns_cleanup_strays s)"
    unfolding dns_cleanup_strays_def
    by (rule blind_bnd [OF blind_attempt [OF blind_platform(7)]], rule blind_sum [OF blind_ret strays])
  then show ?thesis unfolding sweep_step_def by (intro blind_intros)
qed

lemma agree_dns_sync_cmd:
  "agree E (rel_option rekeyed_all) (dns_sync_cmd args all watch) (dns_sync_cmd args all watch)"
  unfolding dns_sync_cmd_def
proof (rule agree_bnd_eq [OF agree_blind [OF blind_new_env]], rule agree_bnd [OF agree_targets], rule agree_if)
  fix s l l'
  assume r: "rekeyed_all l l'"
  show "agree E (rel_option rekeyed_all) (thn (printf t) (ret (Some l))) (thn (printf t) (ret (Some l')))" for t
    by (rule agree_thn_eq [OF agree_blind agree_ret]) (intro blind_intros, use r in simp)
  have "sync_each s l' = sync_each s l"
    using r by (induction rule: list_all2_induct) (auto simp: rekeyed_def key_simps)
  moreover have "blind E (sync_each s l)"
    by (induction l) (unfold sync_each.simps, (intro blind_intros | assumption)+)
  ultimately show "agree E (rel_option rekeyed_all)
      (bnd (sync_each s l) (\<lambda>bad. bnd (if args = [] then sweep_step s else ret 0) (\<lambda>swept.
        if bad + swept > 0 then fail (ErrMsg (utoa (bad + swept) @ '' sync step(s) failed'')) else ret None)))
      (bnd (sync_each s l') (\<lambda>bad. bnd (if args = [] then sweep_step s else ret 0) (\<lambda>swept.
        if bad + swept > 0 then fail (ErrMsg (utoa (bad + swept) @ '' sync step(s) failed'')) else ret None)))"
    by (simp only:) (intro agree_bnd_eq agree_if agree_fail agree_ret agree_blind blind_intros option.rel_intros; simp)
qed

text \<open>The key given to \<^verbatim>\<open>add\<close>.\<close>

definition rekeyed_command :: "command \<Rightarrow> command \<Rightarrow> bool" where
  "rekeyed_command c c' \<longleftrightarrow>
     c' = c \<or> (\<exists>name f k. c = CmdAdd name f \<and> c' = CmdAdd name (f\<lparr>af_setup_key := k\<rparr>) \<and>
                         (k = [] \<longleftrightarrow> af_setup_key f = []))"

lemma agree_add_cmd:
  assumes "k = [] \<longleftrightarrow> af_setup_key f = []"
  shows "agree E (=) (add_cmd name f) (add_cmd name (f\<lparr>af_setup_key := k\<rparr>))"
proof -
  let ?f = "f\<lparr>af_setup_key := k\<rparr>"
  have new: "rekeyed ((new_inst name f)\<lparr>i_dns_mode := m\<rparr>) ((new_inst name ?f)\<lparr>i_dns_mode := m\<rparr>)"
    "rekeyed (new_inst name f) (new_inst name ?f)" for m
    using assms by (auto simp: rekeyed_def new_inst_def)
  have added: "agree E (=) (bnd (add s i) (\<lambda>j. printf (''added '' @ inst_string j)))
      (bnd (add s i') (\<lambda>j. printf (''added '' @ inst_string j)))" if "rekeyed i i'" for s i i'
    by (rule agree_bnd [OF agree_add [OF that]]) (simp only: inst_string_rekeyed, intro agree_blind blind_intros)
  have flags: "(af_setup_key ?f = []) = (af_setup_key f = [])" "af_sso ?f = af_sso f"
    "af_disable_dns ?f = af_disable_dns f" "af_dns_mode ?f = af_dns_mode f"
    using assms by simp_all
  show ?thesis
    unfolding add_cmd_def flags Let_def
    by (rule agree_if [OF agree_fail], rule agree_bnd_eq [OF agree_blind [OF blind_new_env]],
        rule agree_bnd [where A = rekeyed])
       (intro agree_if agree_option_ops agree_fail agree_ret_inst new, rule added)
qed

lemma agree_root_cmd:
  assumes "rekeyed_command c c'"
  shows "agree E (rel_option rekeyed_all) (root_cmd ver info ord polls c) (root_cmd ver info ord polls c')"
proof -
  have unit_cmd: "agree E (rel_option rekeyed_all) (thn m (ret None)) (thn m' (ret None))" if "agree E (=) m m'"
    for m m' :: "unit op"
    by (rule agree_thn_eq [OF that agree_ret]) simp
  show ?thesis
  proof (cases "c' = c")
    case True
    show ?thesis
    proof (cases c)
      case (CmdAdd name f)
      show ?thesis
        using unit_cmd [OF agree_add_cmd [OF refl]] True CmdAdd by (simp add: root_cmd_def)
    next
      case CmdTui
      show ?thesis unfolding True CmdTui root_cmd_def tui_run_def Let_def command.case by (rule unit_cmd agree_fail)+
    qed (simp_all add: True root_cmd_def Let_def agree_dns_sync_cmd, (rule unit_cmd, rule agree_blind, rule blind_intros)+)
  next
    case False
    with assms obtain name f k where "c = CmdAdd name f" "c' = CmdAdd name (f\<lparr>af_setup_key := k\<rparr>)"
      "k = [] \<longleftrightarrow> af_setup_key f = []" by (auto simp: rekeyed_command_def)
    then show ?thesis using unit_cmd [OF agree_add_cmd] by (simp add: root_cmd_def)
  qed
qed

section \<open>The watch\<close>

lemma watch_without_key:
  assumes "rekeyed i i'"
  shows "watch_round s i' dc = watch_round s i dc" and "sync_or_warn s i' = sync_or_warn s i" and "give_up i' e = give_up i e"
  using assms
  by (auto simp: rekeyed_def watch_round_def sync_or_warn_def give_up_def key_simps Let_def
      cong: if_cong sum.case_cong)

lemma blind_watch:
  "blind E (give_up i e)" "blind E (sync_or_warn s i)" "blind E (watch_round s i dc)"
proof -
  show g: "blind E (give_up i e)" for e unfolding give_up_def by (intro blind_intros)
  show y: "blind E (sync_or_warn s i)" unfolding sync_or_warn_def by (intro blind_intros)
  show "blind E (watch_round s i dc)" unfolding watch_round_def by (intro blind_intros g y; simp)
qed

lemma blind_run:
  assumes "blind E m" and "twin E w w'" and "m w = (r, v)"
  obtains v' where "m w' = (r, v')" and "twin E v v'"
proof -
  obtain r' v' where m: "m w' = (r', v')" by (cases "m w'")
  from agreeD [OF assms(1) [unfolded blind_def] assms(2,3) m] m that show ?thesis by (simp add: sum.rel_eq)
qed

text \<open>A step of a watcher is a step of its twin, to the same phase.\<close>

lemma watch_step_twin:
  assumes step: "watch_step s i (ph, w) (ph', v)" and t: "twin E w w'" and i: "rekeyed i i'"
  shows "\<exists>v'. watch_step s i' (ph, w') (ph', v') \<and> twin E v v'"
  using step
proof (cases rule: watch_step.cases)
  case (round dc r)
  from blind_run [OF blind_watch(3) t round(3)] obtain v' where v: "watch_round s i dc w' = (r, v')" "twin E v v'" .
  then have "watch_round s i' dc w' = (r, v')" using watch_without_key(1) [OF i] by simp
  from watch_step.round [OF this] v(2) show ?thesis unfolding round(1,2) by auto
next
  case opened
  from watch_step.opened [of s i' w'] t twin_reads(1) [OF t] show ?thesis unfolding opened by auto
next
  case (refused m r)
  from blind_run [OF blind_watch(1) t refused(3)] obtain v' where v: "give_up i (ErrSys m) w' = (r, v')" "twin E v v'" .
  then have "give_up i' (ErrSys m) w' = (r, v')" using watch_without_key(3) [OF i] by simp
  from watch_step.refused [OF this] v(2) show ?thesis unfolding refused(1,2) by auto
next
  case (received c cat)
  with t show ?thesis by auto
next
  case (breaks c m)
  with t show ?thesis by auto
next
  case (takes c cat rest)
  from watch_step.takes [OF takes(4), of s i' w'] t twin_reads(1) [OF t] show ?thesis unfolding takes(1-3) by auto
next
  case (settles c d r)
  from blind_run [OF blind_watch(2) t settles(5)] obtain v' where v: "sync_or_warn s i w' = (r, v')" "twin E v v'" .
  then have "sync_or_warn s i' w' = (r, v')" using watch_without_key(2) [OF i] by simp
  from watch_step.settles [OF settles(3) _ this] settles(4) twin_reads(1) [OF t] v(2) show ?thesis
    unfolding settles(1,2) by auto
next
  case (polls c r)
  from blind_run [OF blind_watch(2) t polls(4)] obtain v' where v: "sync_or_warn s i w' = (r, v')" "twin E v v'" .
  then have "sync_or_warn s i' w' = (r, v')" using watch_without_key(2) [OF i] by simp
  from watch_step.polls [OF _ this] polls(3) twin_reads(1) [OF t] v(2) show ?thesis
    unfolding polls(1,2) by auto
next
  case (stops c)
  with watch_step.stops [of w' s i' c] t twin_reads(17) [OF t] show ?thesis by auto
next
  case (fails c m r)
  from blind_run [OF blind_watch(1) t fails(4)] obtain v' where v: "give_up i (ErrSys m) w' = (r, v')" "twin E v v'" .
  then have "give_up i' (ErrSys m) w' = (r, v')" using watch_without_key(3) [OF i] by simp
  from watch_step.fails [OF fails(3) this] v(2) show ?thesis unfolding fails(1,2) by auto
next
  case (wakes d dc)
  with watch_step.wakes [of d w' s i' dc] t twin_reads(1,17) [OF t] show ?thesis by auto
qed

lemma watch_start_twin:
  "rekeyed_all l l' \<Longrightarrow> list_all2 (rel_prod rekeyed (=)) (watch_start l) (watch_start l')"
  by (induction rule: list_all2_induct) (auto simp: watch_start_def rekeyed_def)

lemma dns_watch_twin:
  assumes "dns_watch s l w xs v" and "twin E w w'" and "rekeyed_all l l'"
  shows "\<exists>xs' v'. dns_watch s l' w' xs' v' \<and> list_all2 (rel_prod rekeyed (=)) xs xs' \<and> twin E v v'"
  using assms(1)
proof induction
  case starts
  from dns_watch.starts [of s l' w'] watch_start_twin [OF assms(3)] assms(2) show ?case by blast
next
  case (moves xs i ph ys v ph' u)
  then obtain zs v' where z: "dns_watch s l' w' zs v'" "twin E v v'"
    "list_all2 (rel_prod rekeyed (=)) (xs @ (i, ph) # ys) zs" by blast
  from z(3) obtain xs' i' ys' where zs: "zs = xs' @ (i', ph) # ys'" "rekeyed i i'"
    "list_all2 (rel_prod rekeyed (=)) xs xs'" "list_all2 (rel_prod rekeyed (=)) ys ys'"
    by (auto simp: list_all2_append1 list_all2_Cons1)
  from watch_step_twin [OF moves(2) z(2) zs(2)] obtain u' where
    u: "watch_step s i' (ph, v') (ph', u')" "twin E u u'" by blast
  have "list_all2 (rel_prod rekeyed (=)) (xs @ (i, ph') # ys) (xs' @ (i', ph') # ys')"
    using zs(2-4) by (auto intro: list_all2_appendI)
  with dns_watch.moves [OF z(1) [unfolded zs(1)] u(1)] u(2) show ?case by blast
next
  case (idles xs v d)
  then obtain xs' v' where *: "dns_watch s l' w' xs' v'" "list_all2 (rel_prod rekeyed (=)) xs xs'" "twin E v v'" by blast
  from dns_watch.idles [OF *(1)] agree_snd [OF agree_blind [OF blind_calls(1)] *(3)] *(2) show ?case by blast
qed

section \<open>Properties\<close>

lemma twin_new_events:
  assumes "twin E w w'" and "twin E v v'"
  shows "map conceal (new_events w' v') = map conceal (new_events w v)"
proof -
  have l: "map conceal (w_hist v') = map conceal (w_hist v)" "map conceal (w_hist w') = map conceal (w_hist w)"
    using assms by (simp_all add: twin_def)
  from l [THEN arg_cong [where f = length]] have "length (w_hist v') = length (w_hist v)" "length (w_hist w') = length (w_hist w)"
    by simp_all
  then show ?thesis by (simp only: new_events_def take_map [symmetric] l(1))
qed

lemma agree_exit_status:
  assumes "agree E A m m'"
  shows "agree E (=) (exit_status m) (exit_status m')"
  unfolding exit_status_def
  by (rule agree_attempt_bnd [OF assms]; unfold sum.case; intro agree_blind blind_intros)

text \<open>C3: Setup keys are never shown.  Whatever the command is, take two worlds that differ only in the setup
  keys stored in the TOML files and sent in past logins, and for \<^verbatim>\<open>add\<close> two commands that differ only in the
  key they are given.  Then the two runs have the same exit status and do the same: every line printed, warned
  about or reported as an error, every table and JSON text, every command with its standard input, every
  process started, every request and every file operation is the same in both, in the same order, except that
  a login request carries the key.  The files afterwards are the same but for the keys in the TOML files, with
  the same modes; so nothing an observer of the program sees tells one key from another.  The answers of the
  environment may be anything that does not depend on the keys.\<close>

theorem setup_keys_never_shown:
  assumes "twin (e_toml_enc (w_env w)) w w'" and "rekeyed_command c c'"
    and "exit_status (root_cmd ver info ord polls c) w = (r, v)"
    and "exit_status (root_cmd ver info ord polls c') w' = (r', v')"
  shows "r' = r \<and> map conceal (new_events w' v') = map conceal (new_events w v) \<and>
    same_files (e_toml_enc (w_env w)) (w_fs v) (w_fs v')"
proof -
  from agreeD [OF agree_exit_status [OF agree_root_cmd [OF assms(2)]] assms(1,3,4)]
  have "r' = r" and t: "twin (e_toml_enc (w_env w)) v v'" by (simp_all add: sum.rel_eq)
  with twin_new_events [OF assms(1) t] show ?thesis by (simp add: twin_def)
qed

text \<open>C21: The DNS watch does not tell setup keys apart either: whatever state its watchers reach in one world,
  started on one list of instances, the watchers of the same instances with other keys reach in the twin world,
  having done the same.\<close>

theorem watch_does_not_see_keys:
  assumes "dns_watch s l w xs v" and "twin (e_toml_enc (w_env w)) w w'" and "rekeyed_all l l'"
  shows "\<exists>xs' v'. dns_watch s l' w' xs' v' \<and> map snd xs' = map snd xs \<and>
    map conceal (new_events w' v') = map conceal (new_events w v)"
proof -
  from dns_watch_twin [OF assms] obtain xs' v' where *: "dns_watch s l' w' xs' v'"
    "list_all2 (rel_prod rekeyed (=)) xs xs'" "twin (e_toml_enc (w_env w)) v v'" by blast
  from *(2) have "map snd xs' = map snd xs" by (induction rule: list_all2_induct) auto
  with *(1) twin_new_events [OF assms(2) *(3)] show ?thesis by blast
qed

section \<open>Runs\<close>

definition keyed_inst :: "string \<Rightarrow> inst" where
  "keyed_inst k = (example_inst ''a'' 0)\<lparr>i_setup_key := k, i_dns_mode := DNSMultibird\<rparr>"

definition keyed_world :: "string \<Rightarrow> world" where
  "keyed_world k =
     (example_world [(''/r'', Dir 448), (''/r/a'', Dir 448),
        (''/r/a/instance.toml'', File (example_enc (keyed_inst k)) 384)])
     \<lparr>w_env := example_env\<lparr>e_environ := [(''MULTIBIRD_CONFIG_ROOT'', ''/r'')], e_os := Darwin\<rparr>\<rparr>"

lemma keyed_worlds: "twin (e_toml_enc (w_env (keyed_world ''KEY''))) (keyed_world ''KEY'') (keyed_world ''OTHER'')"
proof -
  let ?E = "e_toml_enc (w_env (keyed_world ''KEY''))"
  have E: "?E = example_enc" by (simp add: keyed_world_def)
  have "rekeyed (keyed_inst ''KEY'') (keyed_inst ''OTHER'')"
    unfolding rekeyed_def by (rule exI [of _ "''OTHER''"]) (simp add: keyed_inst_def)
  then have "same_files example_enc (w_fs (keyed_world ''KEY'')) (w_fs (keyed_world ''OTHER''))"
    by (auto simp: keyed_world_def same_node_def key_file_def suffix_def)
  moreover have "same_answers example_enc (w_env (keyed_world ''KEY'')) (w_env (keyed_world ''OTHER''))"
    by (simp add: same_answers_def keyed_world_def example_env_def)
  moreover have "toml_ok (keyed_world ''KEY'')" by (simp add: toml_ok_def keyed_world_def example_codec)
  moreover have "w_clock (keyed_world ''KEY'') = w_clock (keyed_world ''OTHER'')"
    "w_hist (keyed_world ''KEY'') = w_hist (keyed_world ''OTHER'')" by (simp_all add: keyed_world_def example_world_def)
  ultimately show ?thesis by (simp add: twin_def E)
qed

definition add_with :: "string \<Rightarrow> command" where
  "add_with k = CmdAdd ''b'' \<lparr>af_management_url = ''u'', af_setup_key = k, af_sso = False, af_netbird_bin = [],
     af_wireguard_port = 0, af_dns_mode = [], af_disable_dns = False\<rparr>"

definition add_run :: "string \<Rightarrow> (err + nat) \<times> world" where
  "add_run k = exit_status (root_cmd ''1.0'' None id [] (add_with k)) (keyed_world k)"

theorem setup_keys_never_shown_witness:
  "fst (add_run ''KEY'') = Inr 0 \<and> fst (add_run ''OTHER'') = Inr 0 \<and>
   EvPrint ''added instance b (mgmt=u index=1 setup_key=<redacted>)'' \<in>
     set (new_events (keyed_world ''OTHER'') (snd (add_run ''OTHER''))) \<and>
   map conceal (new_events (keyed_world ''OTHER'') (snd (add_run ''OTHER''))) =
     map conceal (new_events (keyed_world ''KEY'') (snd (add_run ''KEY''))) \<and>
   map_of (w_fs (snd (add_run ''OTHER''))) ''/r/b/instance.toml'' \<noteq>
     map_of (w_fs (snd (add_run ''KEY''))) ''/r/b/instance.toml''"
proof -
  have c: "rekeyed_command (add_with ''KEY'') (add_with ''OTHER'')" by (simp add: rekeyed_command_def add_with_def)
  obtain r v r' v' where run: "add_run ''KEY'' = (r, v)" "add_run ''OTHER'' = (r', v')"
    by (cases "add_run ''KEY''", cases "add_run ''OTHER''")
  from setup_keys_never_shown [OF keyed_worlds c run [unfolded add_run_def]]
  have "map conceal (new_events (keyed_world ''OTHER'') (snd (add_run ''OTHER''))) =
     map conceal (new_events (keyed_world ''KEY'') (snd (add_run ''KEY'')))" and "r' = r" by (simp_all add: run)
  moreover have "fst (add_run ''KEY'') = Inr 0" by code_simp
  moreover have "EvPrint ''added instance b (mgmt=u index=1 setup_key=<redacted>)'' \<in>
     set (new_events (keyed_world ''OTHER'') (snd (add_run ''OTHER'')))" by code_simp
  moreover have "map_of (w_fs (snd (add_run ''OTHER''))) ''/r/b/instance.toml'' \<noteq>
     map_of (w_fs (snd (add_run ''KEY''))) ''/r/b/instance.toml''" by code_simp
  ultimately show ?thesis by (simp add: run)
qed

theorem watch_does_not_see_keys_witness:
  "\<exists>xs v. dns_watch \<lparr>s_root = ''/r'', s_run = ''/var/run/multibird''\<rparr> [keyed_inst ''OTHER''] (keyed_world ''OTHER'') xs v \<and>
     map snd xs = [Waiting True 10000] \<and>
     map conceal (new_events (keyed_world ''OTHER'') v) =
     map conceal (new_events (keyed_world ''KEY'')
       (snd (watch_round \<lparr>s_root = ''/r'', s_run = ''/var/run/multibird''\<rparr> (keyed_inst ''KEY'') False (keyed_world ''KEY''))))"
proof -
  let ?s = "\<lparr>s_root = ''/r'', s_run = ''/var/run/multibird''\<rparr>" and ?w = "keyed_world ''KEY''" and ?i = "keyed_inst ''KEY''"
  have r: "fst (watch_round ?s ?i False ?w) = Inr (Waiting True 10000)" by code_simp
  obtain v where w: "watch_round ?s ?i False ?w = (Inr (Waiting True 10000), v)" using r by (metis prod.collapse)
  have "watch_start [?i] = [] @ [(?i, Checking False)]" by (simp add: watch_start_def keyed_inst_def)
  with dns_watch.starts [of ?s "[?i]" ?w] have "dns_watch ?s [?i] ?w ([] @ [(?i, Checking False)]) ?w" by simp
  from dns_watch.moves [OF this watch_step.round [OF w]]
  have d: "dns_watch ?s [?i] ?w [(?i, Waiting True 10000)] v" by simp
  have "rekeyed_all [?i] [keyed_inst ''OTHER'']"
    by (simp add: rekeyed_def) (rule exI [of _ "''OTHER''"], simp add: keyed_inst_def)
  from watch_does_not_see_keys [OF d keyed_worlds this] show ?thesis by (simp add: w)
qed

end
