(* ===== verification/Panics.thy ===== *)
theory Panics
  imports Commands
begin

text \<open>
  The program does not crash.  Go's run-time panics are errors with the cause \<open>ErrPanic\<close> in the model, which no
  handler of an error catches.  An operation is \<open>calm\<close> in an environment when it never ends in one.  The only
  place where the program can panic is the derivation of the DNS registration from a daemon's status, so all
  commands are calm as long as the daemons do not report the one kind of address on which that fails.
\<close>

named_theorems calm_intros \<open>introduction rules for operations that do not panic\<close>

section \<open>Calm operations\<close>

definition panics :: "err \<Rightarrow> bool" where
  "panics e \<longleftrightarrow> err_cause e = ErrPanic"

lemma panics_simps [simp]:
  "\<not> panics (ErrMsg m)" "\<not> panics (ErrSys m)" "\<not> panics (ErrNotExist p)" "\<not> panics ErrNeedsRoot"
  "\<not> panics ErrPrimaryClaim" "panics ErrPanic" "panics (Wrap t e) = panics e"
  by (simp_all add: panics_def)

text \<open>In the environment \<open>en\<close>, which the operation keeps.\<close>

definition calm :: "env \<Rightarrow> 'a op \<Rightarrow> bool" where
  "calm en m \<longleftrightarrow>
     (\<forall>w. w_env w = en \<longrightarrow> w_env (snd (m w)) = en \<and> (\<forall>e. fst (m w) = Inl e \<longrightarrow> \<not> panics e))"

lemma calmD: "calm en m \<Longrightarrow> w_env w = en \<Longrightarrow> m w = (r, w') \<Longrightarrow> w_env w' = en \<and> (\<forall>e. r = Inl e \<longrightarrow> \<not> panics e)"
  unfolding calm_def by (metis fst_conv snd_conv)

lemma calmI:
  assumes "\<And>w r w'. w_env w = en \<Longrightarrow> m w = (r, w') \<Longrightarrow> w_env w' = en \<and> (\<forall>e. r = Inl e \<longrightarrow> \<not> panics e)"
  shows "calm en m"
  unfolding calm_def using assms by (metis prod.collapse)

lemma calm_ret: "calm en (ret x)" by (simp add: calm_def)
lemma calm_fail: "\<not> panics e \<Longrightarrow> calm en (fail e)" by (simp add: calm_def)
lemma calm_asks: "calm en (asks f)" by (simp add: calm_def)

text \<open>With what is known of the result of the first operation.\<close>

lemma calm_bnd_result:
  assumes "calm en m" and "\<And>w x w'. w_env w = en \<Longrightarrow> m w = (Inr x, w') \<Longrightarrow> Q x" and "\<And>x. Q x \<Longrightarrow> calm en (f x)"
  shows "calm en (bnd m f)"
proof (rule calmI)
  fix w r w'
  assume w: "w_env w = en" and r: "bnd m f w = (r, w')"
  obtain q w1 where m: "m w = (q, w1)" by (cases "m w")
  note 1 = calmD [OF assms(1) w m]
  show "w_env w' = en \<and> (\<forall>e. r = Inl e \<longrightarrow> \<not> panics e)"
  proof (cases q)
    case (Inl e)
    with r m 1 show ?thesis by (auto simp: bnd_def)
  next
    case (Inr x)
    with r m have "f x w1 = (r, w')" by (simp add: bnd_def)
    with calmD [OF assms(3) [OF assms(2) [OF w m [unfolded Inr]]]] 1 show ?thesis by blast
  qed
qed

lemma calm_bnd: "calm en m \<Longrightarrow> (\<And>x. calm en (f x)) \<Longrightarrow> calm en (bnd m f)"
  by (rule calm_bnd_result [where Q = "\<lambda>_. True"]) simp_all

lemma calm_thn: "calm en m \<Longrightarrow> calm en m' \<Longrightarrow> calm en (thn m m')"
  unfolding thn_def by (rule calm_bnd)

lemma calm_attempt: "calm en m \<Longrightarrow> calm en (attempt m)"
  by (simp add: calm_def attempt_def split_beta)

lemma calm_wrap: "calm en m \<Longrightarrow> calm en (wrap t m)"
  unfolding calm_def wrap_def by (auto split: prod.splits sum.splits)

lemma calm_ignore: "calm en m \<Longrightarrow> calm en (ignore m)"
  by (simp add: calm_def ignore_def)

lemma calm_each: "(\<And>x. x \<in> set xs \<Longrightarrow> calm en (f x)) \<Longrightarrow> calm en (each f xs)"
  by (induction xs) (auto intro!: calm_ret calm_bnd)

lemma calm_if: "(b \<Longrightarrow> calm en m) \<Longrightarrow> (\<not> b \<Longrightarrow> calm en m') \<Longrightarrow> calm en (if b then m else m')" by simp

lemma calm_option: "calm en n \<Longrightarrow> (\<And>x. calm en (s x)) \<Longrightarrow> calm en (case x of None \<Rightarrow> n | Some y \<Rightarrow> s y)"
  by (simp split: option.split)

lemma calm_sum: "(\<And>e. calm en (l e)) \<Longrightarrow> (\<And>x. calm en (s x)) \<Longrightarrow> calm en (case x of Inl e \<Rightarrow> l e | Inr y \<Rightarrow> s y)"
  by (simp split: sum.split)

lemma calm_prod: "(\<And>a b. calm en (f a b)) \<Longrightarrow> calm en (case x of (a, b) \<Rightarrow> f a b)"
  by (simp split: prod.split)

lemma calm_Let: "calm en (f a) \<Longrightarrow> calm en (let x = a in f x)"
  by (simp add: Let_def)

text \<open>An error that is handed on is one that was no panic.\<close>

lemma calm_attempt_bnd:
  assumes "calm en m" and "\<And>e. \<not> panics e \<Longrightarrow> calm en (f (Inl e))" and "\<And>x. calm en (f (Inr x))"
  shows "calm en (bnd (attempt m) f)"
proof (rule calmI)
  fix w r w'
  assume w: "w_env w = en" and r: "bnd (attempt m) f w = (r, w')"
  obtain q w1 where m: "m w = (q, w1)" by (cases "m w")
  note 1 = calmD [OF assms(1) w m]
  have "f q w1 = (r, w')" using r by (simp add: bnd_attempt [of m w, OF m])
  with 1 assms(2,3) calmD [of en "f q"] show "w_env w' = en \<and> (\<forall>e. r = Inl e \<longrightarrow> \<not> panics e)" by (cases q) blast+
qed

lemma calm_case: "calm en (l e) \<Longrightarrow> calm en (case Inl e of Inl x \<Rightarrow> l x | Inr y \<Rightarrow> s y)"
  "calm en (s y) \<Longrightarrow> calm en (case Inr y of Inl x \<Rightarrow> l x | Inr y \<Rightarrow> s y)"
  by simp_all

lemmas calm_combinators [calm_intros] = calm_ret calm_fail calm_asks calm_attempt_bnd calm_case calm_bnd calm_thn calm_attempt calm_wrap
  calm_ignore calm_each calm_if calm_option calm_sum calm_prod calm_Let

text \<open>Calls of the world.\<close>

lemma calm_fs_call: "(\<And>f e. fst (act f) = Inl e \<Longrightarrow> \<not> panics e) \<Longrightarrow> calm en (fs_call op act)"
  by (auto simp: calm_def fs_call_def log_event_def Let_def split: option.splits prod.splits)
     (metis fst_conv)+

lemma calm_callout: "(\<And>e h x. ask e h = Inl x \<Longrightarrow> \<not> panics x) \<Longrightarrow> calm en (callout ev dt ask)"
  by (auto simp: calm_def callout_def)

lemma mkdirs_calm: "fst (mkdirs f m ds) = Inl e \<Longrightarrow> \<not> panics e"
  by (induction f m ds rule: mkdirs.induct) (auto split: option.splits node.splits)

lemma calm_files [calm_intros]:
  "calm en (mkdir_all p m)" "calm en (open_trunc p m)" "calm en (write_open p c)" "calm en (close_file p)"
  "calm en (write_file p c m)" "calm en (read_file p)" "calm en (stat p)" "calm en (read_dir p)" "calm en (os_remove p)"
  "calm en (remove_all p)" "calm en (os_rename p q)"
  unfolding mkdir_all_def open_trunc_def write_open_def close_file_def write_file_def read_file_def stat_def read_dir_def
    os_remove_def remove_all_def os_rename_def
  by (rule calm_fs_call,
      auto simp: put_file_def get_file_def remove_node_def dest: mkdirs_calm split: option.splits node.splits if_splits)+

lemma calm_calls [calm_intros]:
  "calm en (sleep d)" "calm en (exec a i)" "calm en (spawn b a n)" "calm en (kill pid sig)" "calm en net_interfaces"
  "calm en (rpc_status sock full)" "calm en (rpc_login sock k u h)" "calm en (rpc_networks sock)"
  "calm en (rpc_call sock r)" "calm en (http_get url hs)"
  unfolding sleep_def exec_def spawn_def kill_def net_interfaces_def rpc_status_def rpc_login_def rpc_networks_def
    rpc_call_def http_get_def
  by (rule calm_callout, auto split: sum.splits option.splits)+

lemma calm_tells [calm_intros]:
  "calm en (tell e)" "calm en (warnf t)" "calm en (printf t)" "calm en (write_out t)" "calm en (errorf t)"
  by (simp_all add: calm_def tell_def log_event_def warnf_def printf_def write_out_def errorf_def)

lemma calm_reads [calm_intros]: "calm en cancelled" "calm en now" "calm en (getenv k)" "calm en (dial sock)"
  unfolding cancelled_def now_def getenv_def dial_def by (intro calm_intros; simp)+

section \<open>Everything but the derivation\<close>

lemma calm_alive [calm_intros]: "calm en (alive pid)"
  unfolding alive_def by (intro calm_intros)

lemma calm_wait_socket [calm_intros]: "calm en (wait_socket sock pid deadline)"
proof -
  have "w_env (snd (wait_socket sock pid deadline w)) = en \<and>
      (\<forall>e. fst (wait_socket sock pid deadline w) = Inl e \<longrightarrow> \<not> panics e)" if "w_env w = en" for w
    using that
  proof (induction sock pid deadline w rule: wait_socket.induct)
    case (1 sock pid deadline w)
    obtain r w1 where st: "stat sock w = (r, w1)" by (cases "stat sock w")
    obtain a w2 where al: "alive pid w1 = (a, w2)" by (cases "alive pid w1")
    from calmD [OF calm_files(7) "1.prems" st] have e1: "w_env w1 = en" by blast
    from calmD [OF calm_alive this al] have e2: "w_env w2 = en" by blast
    have e3: "w_env (snd (sleep 100 w2)) = en" using calm_calls(1) [of en 100] e2 by (simp add: calm_def)
    from e1 e2 "1.IH" [OF st [symmetric] refl _ al [symmetric] refl _ _ e3] show ?case
      by (simp add: wait_socket.simps [of sock pid deadline w] st al)
  qed
  then show ?thesis by (simp add: calm_def)
qed

lemma calm_waits [calm_intros]:
  "calm en (\<lambda>w. (Inr (), wait_exit pid deadline w))" "calm en (\<lambda>w. (Inr (), wait_gone pid deadline w))"
proof -
  have "w_env (wait_exit pid deadline w) = w_env w" "w_env (wait_gone pid deadline w) = w_env w" for w
    using emits_wait_exit [where P = "\<lambda>_. True"] emits_wait_gone [where P = "\<lambda>_. True"]
    by (simp_all add: emits_def)
  then show "calm en (\<lambda>w. (Inr (), wait_exit pid deadline w))" "calm en (\<lambda>w. (Inr (), wait_gone pid deadline w))"
    by (simp_all add: calm_def)
qed

lemma calm_ready_loop [calm_intros]: "calm en (ready_loop sock deadline)"
proof -
  have "w_env (snd (ready_loop sock deadline w)) = en \<and>
      (\<forall>e. fst (ready_loop sock deadline w) = Inl e \<longrightarrow> \<not> panics e)" if "w_env w = en" for w
    using that
  proof (induction sock deadline w rule: ready_loop.induct)
    case (1 sock deadline w)
    obtain r w1 where st: "rpc_status sock False w = (r, w1)" by (cases "rpc_status sock False w")
    from calmD [OF calm_calls(6) "1.prems" st] have e1: "w_env w1 = en" "\<And>e. r = Inl e \<Longrightarrow> \<not> panics e" by blast+
    have e2: "w_env (snd (sleep 200 w1)) = en" using calm_calls(1) [of en 200] e1 by (simp add: calm_def)
    from e1 "1.IH" [OF st [symmetric] refl _ _ _ e2] show ?case
      by (cases r) (simp_all add: ready_loop.simps [of sock deadline w] st)
  qed
  then show ?thesis by (simp add: calm_def)
qed

lemma calm_daemon [calm_intros]:
  "calm en (read_pid p)" "calm en (recorded_alive p)" "calm en (running p)" "calm en (start i p extra)"
  "calm en (stop p)" "calm en (nuke p)" "calm en (nb_version bin)"
proof -
  have left: "calm en (remove_leftovers l)" for l
    by (induction l) (unfold remove_leftovers.simps, (intro calm_intros | assumption)+)
  show "calm en (read_pid p)" "calm en (recorded_alive p)" "calm en (running p)" "calm en (start i p extra)"
    "calm en (stop p)" "calm en (nuke p)" "calm en (nb_version bin)"
    unfolding running_def recorded_alive_def read_pid_def start_def stop_def nuke_def nuke_process_def nb_version_def
    by (intro calm_intros left; simp)+
qed

lemma calm_client [calm_intros]:
  "calm en (wait_sso_login sock ch host)" "calm en (set_config sock sc)" "calm en (networks sock)" "calm en (engine_up sock)"
  "calm en (engine_down sock)" "calm en (status sock)" "calm en (wait_ready sock timeout)" "calm en (login sock lp)"
  unfolding wait_sso_login_def set_config_def networks_def engine_up_def engine_down_def status_def wait_ready_def
    login_def
  by (intro calm_intros)+

lemma calm_by_os [calm_intros]: "calm en d \<Longrightarrow> calm en l \<Longrightarrow> calm en (by_os d l)"
  unfolding by_os_def by (rule calm_bnd [OF calm_asks]) (simp split: os.split)

lemma calm_platform [calm_intros]:
  "calm en config_root" "calm en (interface_hint n)" "calm en (discover_interface a)" "calm en (route_interface a)"
  "calm en (apply_host_dns name sp)" "calm en (remove_host_dns name)" "calm en list_host_dns_owners"
  "calm en stock_netbird_dns_present" "calm en new_env"
  unfolding config_root_def darwin_config_root_def linux_config_root_def home_dir_def interface_hint_def
    darwin_interface_hint_def linux_interface_hint_def discover_interface_def route_interface_def found_def
    apply_host_dns_def darwin_apply_host_dns_def require_root_def flush_dns_cache_def remove_host_dns_def
    darwin_remove_host_dns_def list_host_dns_owners_def stock_netbird_dns_present_def list_multibird_keys_def
    exec_scutil_def new_env_def
  by (intro calm_intros; simp)+

text \<open>The store and the registry.\<close>

lemma calm_store [calm_intros]:
  "calm en (save s i)" "calm en (load s name)" "calm en (store_remove s i purge)"
  unfolding save_def load_def store_remove_def by (intro calm_intros; simp)+

lemma calm_list_store [calm_intros]: "calm en (list_store s)" "calm en (next_index s)"
proof -
  have entries: "calm en (load_entries s es)" for es
    by (induction s es rule: load_entries.induct) (unfold load_entries.simps, (intro calm_intros | assumption | simp)+)
  show l: "calm en (list_store s)" unfolding list_store_def by (intro calm_intros entries; simp)
  show "calm en (next_index s)" unfolding next_index_def by (intro calm_intros l)
qed

lemma calm_registry [calm_intros]:
  "calm en (migrate s i)" "calm en (load_instance s name)" "calm en (list_instances s)" "calm en (add s i)"
  unfolding load_instance_def list_instances_def migrate_def add_def by (intro calm_intros; simp)+

text \<open>The boot units and the upgrade.\<close>

lemma calm_units [calm_intros]:
  "calm en (install name bin root)" "calm en (uninstall name)" "calm en (install_dns_watch name bin root)"
  "calm en (uninstall_dns_watch name)"
  unfolding install_def darwin_install_def linux_install_def install_systemd_def install_launchd_def
    install_dns_watch_def darwin_install_dns_watch_def linux_install_dns_watch_def uninstall_def
    darwin_uninstall_def linux_uninstall_def uninstall_systemd_def uninstall_launchd_def
    uninstall_dns_watch_def darwin_uninstall_dns_watch_def linux_uninstall_dns_watch_def remove_if_there_def
    unless_missing_def
  by (intro calm_intros; simp)+

lemma calm_upgrade [calm_intros]: "calm en (upgrade_cmd ver info check force)"
proof -
  have find: "find_binary n es b = Inl e \<Longrightarrow> \<not> panics e" for n es b e
    by (induction n es b rule: find_binary.induct) (auto split: option.splits if_splits sum.splits)
  have unpack: "calm en (case extract_binary ev a n of Inl e \<Rightarrow> fail (Wrap t e) | Inr b \<Rightarrow> ret b)" for ev a n t
    by (auto simp: extract_binary_def intro!: calm_fail calm_ret dest: find split: sum.splits)
  have "calm en token" unfolding token_def by (intro calm_intros)
  then have net: "calm en latest_release" "calm en (fetch a limit)" for a limit
    unfolding latest_release_def fetch_def by (intro calm_intros; simp)+
  show ?thesis
    unfolding upgrade_cmd_def upgrade_tail_def executable_def apply_release_def verified_binary_def replace_binary_def
    by (intro unpack net calm_intros; simp)
qed

lemma calm_logs [calm_intros]: "calm en (logs s i tail following polls)"
proof -
  have start: "log_start c t = Inl e \<Longrightarrow> \<not> panics e" for c t e
    by (auto simp: log_start_def Let_def split: if_splits)
  have follow: "snd (follow pos ps) = Some e \<Longrightarrow> \<not> panics e" for pos ps e
    by (induction pos ps rule: follow.induct) (auto simp: Let_def split: option.splits sum.splits prod.splits if_splits)
  have rest: "calm en (let (out, e) = follow pos polls in thn (write_out out) (case e of None \<Rightarrow> ret () | Some e \<Rightarrow> fail e))"
    for pos
    using follow [of pos polls] by (auto simp: split_beta Let_def intro!: calm_intros split: option.split)
  have "calm en (case log_start c t of Inl e \<Rightarrow> fail e | Inr (out, pos) \<Rightarrow>
      thn (write_out out) (if \<not> following then ret ()
        else let (out, e) = follow pos polls in thn (write_out out) (case e of None \<Rightarrow> ret () | Some e \<Rightarrow> fail e)))" for c t
  proof (cases "log_start c t")
    case (Inl e)
    with start show ?thesis by (simp add: calm_fail)
  next
    case (Inr x)
    then obtain out pos where x: "x = (out, pos)" by (cases x)
    show ?thesis unfolding Inr x sum.case prod.case by (intro calm_thn calm_tells calm_if calm_ret rest)
  qed
  then show ?thesis unfolding logs_def by (intro calm_bnd calm_wrap calm_files)
qed

section \<open>The derivation\<close>

lemma calm_caught_bnd:
  fixes f :: "err + 'a \<Rightarrow> 'b op"
  assumes "calm en m" and "\<And>e. \<not> panics e \<Longrightarrow> calm en (f (Inl e))" and "\<And>x. calm en (f (Inr x))"
  shows "calm en (bnd (caught m) f)"
proof (rule calm_bnd_result [where Q = "\<lambda>r. \<forall>e. r = Inl e \<longrightarrow> \<not> panics e"])
  show "calm en (caught m)" unfolding caught_def by (intro calm_attempt_bnd assms(1)) (auto simp: panics_def intro!: calm_intros)
next
  fix w r w'
  assume c: "caught m w = (Inr r, w')"
  obtain q v where "m w = (q, v)" by (cases "m w")
  from c caught_cases [of m w, OF this] show "\<forall>e. r = Inl e \<longrightarrow> \<not> panics e"
    by (cases q) (auto simp: panics_def split: if_splits)
next
  fix r :: "err + 'a"
  assume "\<forall>e. r = Inl e \<longrightarrow> \<not> panics e"
  with assms(2,3) show "calm en (f r)" by (cases r) auto
qed

text \<open>An IPv6 address with a prefix length that is an IPv4-mapped one of at least 96 bits.\<close>

definition mapped_net :: "string \<Rightarrow> bool" where
  "mapped_net s \<longleftrightarrow>
     (case parse_prefix s of Some (Prefix (V6 w z) b) \<Rightarrow> z = [] \<and> 96 \<le> b \<and> is4in6 (V6 w []) | _ \<Rightarrow> False)"

definition no_mapped_net :: "env \<Rightarrow> bool" where
  "no_mapped_net en \<longleftrightarrow>
     (\<forall>h sock st. e_status en h sock = Inr st \<longrightarrow> \<not> mapped_net (lp_ipv6 (fs_local (st_full st))))"

lemma derive_calm:
  assumes "\<not> mapped_net (lp_ipv6 (fs_local (st_full st)))"
  shows "derive st \<noteq> Inl DEPanic"
proof -
  let ?lp = "fs_local (st_full st)"
  have six: "reverse_zone (lp_ipv6 ?lp) \<noteq> ZonePanic"
    using assms by (auto simp: reverse_zone_panic_iff mapped_net_def)
  show ?thesis
  proof (cases "resolver_addr (lp_ip ?lp)")
    case (Inr l)
    then have "reverse_zone (lp_ip ?lp) \<noteq> ZonePanic" by (auto simp: resolver_addr_Inr reverse_zone_V4)
    with six add_zones_Inl [of _ "[lp_ip ?lp, lp_ipv6 ?lp]" DEPanic] show ?thesis
      by (auto simp: derive_def Let_def simp del: add_zones.simps split: option.splits sum.splits)
  qed (simp add: derive_def Let_def)
qed

lemma calm_apply: "\<not> mapped_net (lp_ipv6 (fs_local (st_full st))) \<Longrightarrow> calm en (apply_from_status i st)"
  unfolding apply_from_status_def using derive_calm [of st]
  by (auto intro!: calm_intros split: sum.split derive_error.split)

text \<open>After a status request.\<close>

lemma status_unmapped:
  "no_mapped_net en \<Longrightarrow> w_env w = en \<Longrightarrow> status sock w = (Inr st, w') \<Longrightarrow> \<not> mapped_net (lp_ipv6 (fs_local (st_full st)))"
  by (auto simp: no_mapped_net_def status_def rpc_status_def callout_def split: sum.splits)

lemma calm_status_bnd:
  assumes "no_mapped_net en" and "\<And>st. \<not> mapped_net (lp_ipv6 (fs_local (st_full st))) \<Longrightarrow> calm en (f st)"
  shows "calm en (bnd (wrap t (status sock)) f)"
    and "calm en g \<Longrightarrow> calm en (bnd (attempt (status sock)) (\<lambda>r. case r of Inl _ \<Rightarrow> g | Inr st \<Rightarrow> f st))"
proof -
  let ?Q = "\<lambda>st. \<not> mapped_net (lp_ipv6 (fs_local (st_full st)))"
  show "calm en (bnd (wrap t (status sock)) f)"
    by (rule calm_bnd_result [where Q = ?Q]) (intro calm_intros, use status_unmapped [OF assms(1)] in simp, rule assms(2))
  show "calm en (bnd (attempt (status sock)) (\<lambda>r. case r of Inl _ \<Rightarrow> g | Inr st \<Rightarrow> f st))" if "calm en g"
  proof (rule calm_bnd_result [where Q = "\<lambda>r. \<forall>st. r = Inr st \<longrightarrow> ?Q st"])
    show "calm en (attempt (status sock))" by (intro calm_attempt calm_client)
  next
    fix w r w'
    assume "w_env w = en" and "attempt (status sock) w = (Inr r, w')"
    then show "\<forall>st. r = Inr st \<longrightarrow> ?Q st" using status_unmapped [OF assms(1)] by simp blast
  next
    fix r :: "err + status_response"
    assume "\<forall>st. r = Inr st \<longrightarrow> ?Q st"
    with assms(2) that show "calm en (case r of Inl _ \<Rightarrow> g | Inr st \<Rightarrow> f st)" by (simp split: sum.split)
  qed
qed

section \<open>The life of an instance\<close>

lemma calm_parts [calm_intros]:
  "calm en (instance_hostname name)" "calm en (sso_flow i sock host ch)" "calm en (record_interface s i st)"
  "calm en (warn_if_failed r text)" "calm en (stop_engine i sock)" "calm en (remove_quietly name)"
  "calm en (backfill s i v)"
  unfolding instance_hostname_def sso_flow_def record_interface_def warn_if_failed_def stop_engine_def remove_quietly_def
    backfill_def
  by (intro calm_intros; simp)+

lemma calm_operations [calm_intros]:
  "calm en (log_in s i)" "calm en (down s i)" "calm en (remove_instance s i purge)" "calm en (nuke_instance s i)"
  "calm en (push_config s i)" "calm en (set_instance s i ch)" "calm en (peers_one s i)" "calm en (snapshot_one s i)"
proof -
  show d: "calm en (down s i)" for i unfolding down_def by (intro calm_intros)
  show p: "calm en (push_config s i)" for i unfolding push_config_def by (intro calm_intros)
  show "calm en (log_in s i)" "calm en (remove_instance s i purge)" "calm en (nuke_instance s i)"
    "calm en (set_instance s i ch)" "calm en (peers_one s i)" "calm en (snapshot_one s i)"
    unfolding log_in_def remove_instance_def nuke_instance_def set_instance_def peers_one_def snapshot_one_def
      snapshot_from_def snap_net_def snap_routes_def
    by (intro d p calm_intros)+
qed

lemma calm_conflicts [calm_intros]: "calm en (conflicts_involving s name)" "calm en (check_conflicts s i strict)"
proof -
  show c: "calm en (conflicts_involving s name)" for name
    unfolding conflicts_involving_def snapshot_running_def settle_route_def by (intro calm_intros)
  show "calm en (check_conflicts s i strict)" unfolding check_conflicts_def by (intro calm_intros c; simp)
qed

lemma calm_doctor [calm_intros]: "calm en (doctor ord s)"
  unfolding doctor_def binary_check_def conflict_checks_def stray_checks_def native_checks_def run_dir_check_def
    leftover_checks_def leftovers_of_def stale_pid_def stale_socket_def orphan_checks_def
  by (intro calm_intros)

lemma calm_sweep_step [calm_intros]: "calm en (sweep_step s)"
proof -
  have sweep: "calm en (sweep known xs)" for known xs
    by (induction xs) (unfold sweep.simps, (intro calm_intros | assumption)+)
  show ?thesis unfolding sweep_step_def dns_cleanup_strays_def by (intro calm_intros sweep)
qed

text \<open>What registers DNS servers.\<close>

lemma calm_dns_sync: "no_mapped_net en \<Longrightarrow> calm en (dns_sync s i)"
  unfolding dns_sync_def Let_def
  by (intro calm_bnd calm_if calm_thn calm_wrap calm_status_bnd(1) calm_apply calm_ret calm_daemon calm_platform calm_reads)

lemma calm_up:
  assumes "no_mapped_net en"
  shows "calm en (up s i strict)"
proof -
  have "calm en (finish_up s i strict st)" if "\<not> mapped_net (lp_ipv6 (fs_local (st_full st)))" for i st
    unfolding finish_up_def
    by (rule calm_bnd, intro calm_intros, rule calm_caught_bnd [OF calm_apply [OF that]]; intro calm_intros)
  then have "calm en (bnd (wrap t (status sock)) (finish_up s i strict))" for i t sock
    by (rule calm_status_bnd(1) [OF assms])
  then show ?thesis
    unfolding up_def Let_def
    by (rule_tac calm_bnd, intro calm_intros) (intro calm_thn calm_wrap calm_daemon calm_reads calm_client
        calm_bnd [OF calm_if [OF calm_ret calm_operations(1)]])
qed

lemma calm_status_one:
  assumes "no_mapped_net en"
  shows "calm en (status_one s i)"
proof -
  have "calm en (register_dns i st)" if "\<not> mapped_net (lp_ipv6 (fs_local (st_full st)))" for st
    unfolding register_dns_def by (rule calm_caught_bnd [OF calm_apply [OF that]]; intro calm_intros)
  then have "calm en (thn (register_dns i st) (backfill s i v))" if "\<not> mapped_net (lp_ipv6 (fs_local (st_full st)))" for st v
    using that by (intro calm_thn calm_parts) simp
  then have live: "calm en (bnd (attempt (status sock)) (\<lambda>r. case r of Inl _ \<Rightarrow> ret v
      | Inr st \<Rightarrow> thn (register_dns i st) (backfill s i (live_status st v))))" for sock v
    by (intro calm_status_bnd(2) [OF assms] calm_ret)
  show ?thesis
    unfolding status_one_def Let_def
    by (intro live calm_bnd calm_if calm_attempt calm_daemon calm_reads calm_ret)
qed

section \<open>The commands\<close>

lemma calm_targets [calm_intros]: "calm en (targets s args all)" "calm en (instances_for s args)"
  unfolding targets_def instances_for_def by (intro calm_intros; simp)+

lemma calm_encode [calm_intros]: "calm en (encode j)"
  unfolding encode_def by (intro calm_intros)

lemma calm_commands:
  "calm en (add_cmd name af)" "calm en (down_cmd args all)" "calm en (remove_cmd name purge)" "calm en (nuke_cmd name)"
  "calm en (peers_cmd args json_out)" "calm en list_cmd" "calm en (doctor_cmd ord strict json_out)"
  "calm en (logs_cmd name following kb polls)" "calm en (install_cmd name watch_too)" "calm en (uninstall_cmd name)"
  unfolding add_cmd_def down_cmd_def remove_cmd_def nuke_cmd_def peers_cmd_def peers_def list_cmd_def doctor_cmd_def
    logs_cmd_def install_cmd_def uninstall_cmd_def executable_def bad_mode_def
  by (intro calm_intros; simp)+

lemma calm_set_cmd: "calm en (set_cmd name f)"
proof -
  have "set_changes_of f = Inl e \<Longrightarrow> \<not> panics e" for e
    by (auto simp: set_changes_of_def bad_mode_def sum_bind_eq_Inl split: option.splits if_splits sum.splits)
  then show ?thesis unfolding set_cmd_def
    by (intro calm_bnd calm_platform calm_registry) (auto intro!: calm_intros split: sum.split)
qed

lemma calm_dns_sync_cmd:
  assumes "no_mapped_net en"
  shows "calm en (dns_sync_cmd args all watch)"
proof -
  have each: "calm en (sync_each s l)" for s l
  proof (induction l)
    case (Cons i l)
    show ?case unfolding sync_each.simps
      by (rule calm_caught_bnd [OF calm_dns_sync [OF assms]]; intro Cons.IH calm_intros)
  qed (unfold sync_each.simps, rule calm_ret)
  show ?thesis unfolding dns_sync_cmd_def by (intro calm_intros each; simp)
qed

lemma calm_up_cmd:
  assumes "no_mapped_net en"
  shows "calm en (up_cmd args all strict)"
proof -
  have each: "calm en (up_each s strict all l)" for s l
  proof (induction l)
    case (Cons i l)
    show ?case unfolding up_each.simps
      by (rule calm_caught_bnd [OF calm_up [OF assms]]; intro Cons.IH calm_intros)
  qed (unfold up_each.simps, rule calm_ret)
  show ?thesis unfolding up_cmd_def by (intro calm_intros each; simp add: up_failed_def)
qed

lemma calm_status_cmd:
  assumes "no_mapped_net en"
  shows "calm en (status_cmd args json_out)"
  unfolding status_cmd_def status_all_def
  by (intro calm_bnd calm_each calm_status_one [OF assms] calm_platform calm_targets calm_if calm_encode calm_tells)

lemma calm_root_cmd:
  assumes "no_mapped_net en"
  shows "calm en (root_cmd ver info ord polls c)"
proof -
  note cmds = calm_commands calm_set_cmd calm_dns_sync_cmd [OF assms] calm_up_cmd [OF assms] calm_status_cmd [OF assms]
    calm_upgrade
  show ?thesis
    by (cases c) (simp_all add: root_cmd_def tui_run_def Let_def, (intro calm_thn cmds calm_ret calm_fail; simp)+)
qed

section \<open>Properties\<close>



text \<open>The exception: \<^verbatim>\<open>status\<close> on a host where a daemon in multibird DNS mode reports such a network.\<close>

definition mapped_world :: world where
  "mapped_world =
     (example_world [(''/r'', Dir 448), (''/r/a'', Dir 448),
        (''/r/a/instance.toml'', File (example_enc ((example_inst ''a'' 0)\<lparr>i_dns_mode := DNSMultibird\<rparr>)) 384),
        (''/var/run/multibird/a.pid'', File ''11'' 420)])
     \<lparr>w_env := example_env\<lparr>e_environ := [(''MULTIBIRD_CONFIG_ROOT'', ''/r'')], e_os := Darwin,
        e_kill := \<lambda>_ _ _. None,
        e_status := \<lambda>_ _. Inr (example_status ''host.mesh.example'' ''100.96.43.121/16'' ''::ffff:10.0.0.1/112'' [])\<rparr>\<rparr>"

lemma status_panics:
  "fst (exit_status (root_cmd ''1.0'' None id [] (CmdStatus [] False)) mapped_world) = Inr 2"
  by code_simp

end
