(* ===== verification/Settings.thy ===== *)
theory Settings
  imports Lifecycle
begin

text \<open>
  \<^verbatim>\<open>internal/ops/set.go\<close>, what \<^verbatim>\<open>Set\<close> does on its way (the operations are in the theory \<^theory_text>\<open>Lifecycle\<close>): which
  settings change, when the daemon has to hear of them, and that the instance's file is written last.
\<close>

section \<open>The changed instance\<close>

definition changed :: "set_changes \<Rightarrow> inst \<Rightarrow> inst" where
  "changed ch i =
     i\<lparr>i_netbird_bin := (case ch_netbird_bin ch of None \<Rightarrow> i_netbird_bin i | Some b \<Rightarrow> b),
       i_dns_mode := (case ch_dns_mode ch of None \<Rightarrow> i_dns_mode i | Some m \<Rightarrow> m),
       i_wireguard_port := (case ch_wireguard_port ch of None \<Rightarrow> i_wireguard_port i | Some q \<Rightarrow> q)\<rparr>"

definition daemon_settings_change :: "set_changes \<Rightarrow> inst \<Rightarrow> bool" where
  "daemon_settings_change ch i \<longleftrightarrow>
     i_dns_mode (changed ch i) \<noteq> i_dns_mode i \<or> i_wireguard_port (changed ch i) \<noteq> i_wireguard_port i"

lemma inst_eqI:
  fixes i j :: inst
  assumes "i_name i = i_name j" and "i_management_url i = i_management_url j" and "i_setup_key i = i_setup_key j"
    and "i_sso i = i_sso j" and "i_netbird_bin i = i_netbird_bin j" and "i_index i = i_index j"
    and "i_wireguard_port i = i_wireguard_port j" and "i_dns_mode i = i_dns_mode j"
    and "i_legacy_disable_dns i = i_legacy_disable_dns j" and "i_logged_in i = i_logged_in j"
    and "i_interface i = i_interface j"
  shows "i = j"
  using assms by simp

lemma apply_changes_exact: "apply_changes ch i = (changed ch i, daemon_settings_change ch i)"
  by (cases "ch_netbird_bin ch"; cases "ch_dns_mode ch"; cases "ch_wireguard_port ch")
     (auto simp: apply_changes_def changed_def daemon_settings_change_def Let_def intro!: inst_eqI)

lemma changed_simps [simp]: "i_name (changed ch i) = i_name i" "i_logged_in (changed ch i) = i_logged_in i"
  by (simp_all add: changed_def)

section \<open>Before the file is written\<close>

definition before_save :: "store \<Rightarrow> inst \<Rightarrow> set_changes \<Rightarrow> unit op" where
  "before_save s i ch =
     thn (if daemon_settings_change ch i \<and> i_logged_in i then push_config s (changed ch i) else ret ())
         (if i_dns_mode i = DNSMultibird \<and> i_dns_mode (changed ch i) \<noteq> DNSMultibird
          then bnd (attempt (remove_host_dns (i_name i))) (\<lambda>r.
            warn_if_failed r (\<lambda>t. about (i_name i) @ '': could not remove host DNS registration: '' @ t))
          else ret ())"

lemma set_parts: "set_instance s i ch = thn (before_save s i ch) (save s (changed ch i))"
  by (simp add: set_instance_def before_save_def apply_changes_exact thn_def bnd_assoc)

text \<open>An event that opens no file for writing and leaves the instance's file alone.\<close>

definition early :: "string \<Rightarrow> event \<Rightarrow> bool" where
  "early q e \<longleftrightarrow> (\<forall>f. e = EvFs f \<longrightarrow> (affects f q \<longrightarrow> adds_only f) \<and> (\<forall>p m. f \<noteq> OpOpenTrunc p m))"

lemma early_simps [simp]:
  "early q (EvWarn t)" "early q (EvPrint t)" "early q (EvSleep d)" "early q EvIfaces" "early q (EvKill pid sig)"
  "early q (EvExec argv t)" "early q (EvSpawn b a n)" "early q (EvRpc sock r)"
  "early q (EvFs (OpRead p))" "early q (EvFs (OpStat p))" "early q (EvFs (OpReadDir p))" "early q (EvFs (OpClose p))"
  "early q (EvFs (OpMkdirAll p m))" "early q (EvFs (OpRemove p)) = (p \<noteq> q)" "early q (EvFs (OpWriteFile p m)) = (p \<noteq> q)"
  by (auto simp: early_def adds_only_def)

lemma early_before_save:
  assumes "valid_name (i_name i)"
  shows "keeps (emits (early (toml_file s (i_name i)))) (before_save s i ch)"
proof -
  let ?j = "changed ch i" and ?q = "toml_file s (i_name i)"
  have v: "valid_name (i_name ?j)" using assms by simp
  have q: "?q = p_toml_path (store_params s ?j)" using store_params_paths(2) [OF v, of s] by simp
  have "p_socket_path (store_params s ?j) \<noteq> ?q" "p_pid_file (store_params s ?j) \<noteq> ?q"
    using owned_paths_distinct [OF v, of "s_root s" "s_run s"] unfolding q store_params_def owned_paths_def by auto
  then show ?thesis
    unfolding before_save_def push_config_def Let_def
    by (intro frame_intros emits_remove_own) simp_all
qed

lemma push_config_hist:
  assumes "push_config s i w = (Inr (), w')"
  shows "\<exists>hint. EvRpc (p_socket_path (store_params s i)) (set_config_request (config_for s i hint)) \<in> set (new_events w w')"
proof -
  let ?sock = "p_socket_path (store_params s i)" and ?any = "emits (\<lambda>_. True)"
  obtain live w1 os w2 u2 w3 u3 w4 u4 w5 hint w6 u6 w7
    where 1: "running (store_params s i) w = (Inr live, w1)"
      and 3: "(if live then ret ()
              else wrap ''applying settings needs the instance's daemon'' (start i (store_params s i) (daemon_env_of os))) w1 = (Inr u2, w3)"
      and 4: "dial ?sock w3 = (Inr u3, w4)"
      and 5: "wait_ready ?sock 15000 w4 = (Inr u4, w5)"
      and 6: "interface_hint (i_index i) w5 = (Inr hint, w6)"
      and 7: "set_config ?sock (config_for s i hint) w6 = (Inr u6, w7)"
      and 8: "(if \<not> live then bnd (attempt (stop (store_params s i))) (\<lambda>r.
                warn_if_failed r (\<lambda>t. about (i_name i) @ '': stopping the temporary daemon failed: '' @ t))
              else printf (about (i_name i) @ '': settings saved'')) w7 = (Inr (), w')"
    using assms unfolding push_config_def Let_def by (auto simp: op_results)
  have k: "keeps ?any (running (store_params s i))"
    "keeps ?any (if live then ret () else wrap ''applying settings needs the instance's daemon'' (start i (store_params s i) (daemon_env_of os)))"
    "keeps ?any (dial ?sock)" "keeps ?any (wait_ready ?sock 15000)" "keeps ?any (interface_hint (i_index i))"
    "keeps ?any (if \<not> live then bnd (attempt (stop (store_params s i))) (\<lambda>r.
                warn_if_failed r (\<lambda>t. about (i_name i) @ '': stopping the temporary daemon failed: '' @ t))
              else printf (about (i_name i) @ '': settings saved''))"
    by (intro frame_intros TrueI)+
  have "w_hist w7 = EvRpc ?sock (set_config_request (config_for s i hint)) # w_hist w6"
    using 7 by (auto simp: set_config_def dest: rpc_call_hist)
  with keeps_any [OF k(1) 1] keeps_any [OF k(2) 3] keeps_any [OF k(3) 4] keeps_any [OF k(4) 5] keeps_any [OF k(5) 6]
    keeps_any [OF k(6) 8]
  obtain a b where "w_hist w' = (a @ EvRpc ?sock (set_config_request (config_for s i hint)) # b) @ w_hist w"
    by (metis append.assoc append_Cons)
  from new_events_append [OF this] show ?thesis by (intro exI [of _ hint]) simp
qed

section \<open>Writing the file\<close>

lemma save_success:
  assumes "save s i w = (Inr (), w')" and "valid_name (i_name i)" and "toml_ok w"
  shows "stored s w' (i_name i) = Some i"
proof -
  let ?q = "toml_file s (i_name i)" and ?p = "store_params s i"
  have q: "p_toml_path ?p = ?q" by (rule store_params_paths(2) [OF assms(2)])
  obtain u1 w1 u2 w2 r w3 where 1: "mkdir_all (p_dir ?p) 448 w = (Inr u1, w1)" and 2: "open_trunc ?q 384 w1 = (Inr u2, w2)"
    and r: "write_open ?q (e_toml_enc (w_env w2) i) w2 = (r, w3)"
      "(case r of Inl e \<Rightarrow> thn (ignore (close_file ?q)) (fail (Wrap ''encoding'' e))
         | Inr _ \<Rightarrow> wrap ''writing'' (close_file ?q)) w3 = (Inr (), w')"
    using assms(1) unfolding save_def Let_def q by (auto simp: op_results)
  then obtain u3 where 3: "write_open ?q (e_toml_enc (w_env w2) i) w2 = (Inr u3, w3)" and 4: "close_file ?q w3 = (Inr (), w')"
    by (cases r) (auto simp: op_results)
  have e: "w_env w1 = w_env w" "w_env w2 = w_env w1" "w_env w3 = w_env w2" "w_env w' = w_env w3"
    using 1 2 3 4 unfolding mkdir_all_def open_trunc_def write_open_def close_file_def
    by (auto dest: fs_call_frame(1))
  obtain c m where "map_of (w_fs w2) ?q = Some (File c m)"
    using 2 unfolding open_trunc_def
    by (elim fs_call_cases) (auto simp: put_file_def split: option.splits node.splits if_splits dest!: sym [of _ "w_fs w2"])
  then have "map_of (w_fs w3) ?q = Some (File (e_toml_enc (w_env w2) i) m)"
    using 3 unfolding write_open_def by (elim fs_call_cases) (auto dest!: sym [of _ "w_fs w3"])
  moreover have "w_fs w' = w_fs w3" using 4 unfolding close_file_def by (auto elim!: fs_call_cases)
  ultimately show ?thesis using assms(3) e by (simp add: stored_def toml_ok_def)
qed

lemma save_opens:
  assumes "save s i w = (r, w')" and "\<And>m. EvFs (OpOpenTrunc (p_toml_path (store_params s i)) m) \<notin> set (new_events w w')"
  shows "\<not> is_ok r \<and> emits (early q) w w'"
proof -
  let ?p = "store_params s i"
  obtain x w1 where 1: "mkdir_all (p_dir ?p) 448 w = (x, w1)" by (cases "mkdir_all (p_dir ?p) 448 w")
  have e: "emits (early q) w w1" by (rule keepsD [OF keeps_files(1) 1]) simp
  show ?thesis
  proof (cases x)
    case (Inl e')
    then have "w' = w1" "\<not> is_ok r" using assms(1) 1 by (auto simp: save_def Let_def thn_def bnd_def wrap_def)
    with e show ?thesis by simp
  next
    case (Inr u)
    obtain y w2 where 2: "open_trunc (p_toml_path ?p) 384 w1 = (y, w2)" by (cases "open_trunc (p_toml_path ?p) 384 w1")
    define rest where "rest = bnd (asks (\<lambda>w. e_toml_enc (w_env w) i)) (\<lambda>text.
         bnd (attempt (write_open (p_toml_path ?p) text)) (\<lambda>r.
           case r of
             Inl e \<Rightarrow> thn (ignore (close_file (p_toml_path ?p))) (fail (Wrap ''encoding'' e))
           | Inr _ \<Rightarrow> wrap ''writing'' (close_file (p_toml_path ?p))))"
    have made: "wrap ''creating instance dir'' (mkdir_all (p_dir ?p) 448) w = (Inr u, w1)" using 1 Inr by simp
    have "save s i w = thn (wrap ''writing'' (open_trunc (p_toml_path ?p) 384)) rest w1"
      unfolding save_def Let_def rest_def thn_def
      by (rule bnd_Inr [where m = "wrap ''creating instance dir'' (mkdir_all (p_dir ?p) 448)", OF made])
    then have "snd (save s i w) = (case y of Inl _ \<Rightarrow> w2 | Inr _ \<Rightarrow> snd (rest w2))"
      using 2 by (cases y) (simp_all add: thn_def bnd_def wrap_def)
    then have "w' = (case y of Inl _ \<Rightarrow> w2 | Inr _ \<Rightarrow> snd (rest w2))" by (simp add: assms(1))
    moreover have "keeps (emits (\<lambda>_. True)) rest" unfolding rest_def by (intro frame_intros TrueI)
    then have "emits (\<lambda>_. True) w2 (snd (rest w2))" by (simp add: keeps_def)
    ultimately have "emits (\<lambda>_. True) w2 w'" by (cases y) (simp_all add: emits_refl)
    moreover have "w_hist w2 = EvFs (OpOpenTrunc (p_toml_path ?p) 384) # w_hist w1"
      using 2 unfolding open_trunc_def by (rule fs_call_frame(3))
    ultimately have "w_hist w' = (new_events w2 w' @ EvFs (OpOpenTrunc (p_toml_path ?p) 384) # new_events w w1) @ w_hist w"
      using emits_hist [OF e] emits_hist [of "\<lambda>_. True" w2 w'] by simp
    from new_events_append [OF this] assms(2) [of 384] show ?thesis by simp
  qed
qed

lemma early_stored:
  assumes "emits (early (toml_file s n)) w v" and "quiet w" and "stored s w n \<noteq> None"
  shows "stored s v n = stored s w n"
proof -
  have node: "map_of (w_fs v) (toml_file s n) = map_of (w_fs w) (toml_file s n)"
  proof (rule ccontr)
    assume "map_of (w_fs v) (toml_file s n) \<noteq> map_of (w_fs w) (toml_file s n)"
    from emits_affects [OF assms(1,2) this] assms(3) show False by (auto simp: early_def stored_def split: option.splits)
  qed
  have env: "w_env v = w_env w" using assms(1) by (simp add: emits_def)
  show ?thesis unfolding stored_def node env ..
qed

lemma before_save_hist:
  assumes "before_save s i ch w = (Inr u, v)" and "i_logged_in i" and "daemon_settings_change ch i"
  shows "\<exists>hint. EvRpc (p_socket_path (store_params s (changed ch i))) (set_config_request (config_for s (changed ch i) hint))
    \<in> set (new_events w v)"
proof -
  obtain w1 u' where 1: "push_config s (changed ch i) w = (Inr (), w1)"
    and 2: "(if i_dns_mode i = DNSMultibird \<and> i_dns_mode (changed ch i) \<noteq> DNSMultibird
          then bnd (attempt (remove_host_dns (i_name i))) (\<lambda>r.
            warn_if_failed r (\<lambda>t. about (i_name i) @ '': could not remove host DNS registration: '' @ t))
          else ret ()) w1 = (Inr u', v)"
    using assms by (auto simp: before_save_def thn_result)
  have "keeps (emits (\<lambda>_. True)) (push_config s (changed ch i))"
    unfolding push_config_def Let_def by (intro frame_intros TrueI)
  from emits_hist [OF keepsD [OF this 1]] have h1: "w_hist w1 = new_events w w1 @ w_hist w" .
  have "keeps (emits (\<lambda>_. True)) (if i_dns_mode i = DNSMultibird \<and> i_dns_mode (changed ch i) \<noteq> DNSMultibird
          then bnd (attempt (remove_host_dns (i_name i))) (\<lambda>r.
            warn_if_failed r (\<lambda>t. about (i_name i) @ '': could not remove host DNS registration: '' @ t))
          else ret ())" by (intro frame_intros emits_remove_own TrueI)
  from emits_hist [OF keepsD [OF this 2]] h1 have "w_hist v = (new_events w1 v @ new_events w w1) @ w_hist w" by simp
  from new_events_append [OF this] push_config_hist [OF 1] show ?thesis by auto
qed

section \<open>Properties\<close>

text \<open>C10: \<^verbatim>\<open>set\<close> keeps the file and the daemon in step.  The new instance has exactly the settings that were
  given changed.  If that changes the DNS mode or the port of an instance that has logged in, its file is not
  opened for writing before the instance's own daemon has been sent its isolation parameters with the new mode
  and port.  A \<^verbatim>\<open>set\<close> that succeeds has stored exactly the new instance; one that fails before the file is
  opened leaves what was stored, as long as no other process changes files.\<close>

theorem set_file_and_daemon:
  assumes "set_instance s i ch w = (r, w')" and "valid_name (i_name i)"
  shows "(r = Inr () \<and> toml_ok w \<longrightarrow> stored s w' (i_name i) = Some (changed ch i)) \<and>
    (\<forall>newer q m older. new_events w w' = newer @ EvFs (OpOpenTrunc q m) # older \<longrightarrow>
       q = toml_file s (i_name i) \<and>
       (i_logged_in i \<and> daemon_settings_change ch i \<longrightarrow>
        (\<exists>hint. EvRpc (p_socket_path (store_params s i)) (set_config_request (config_for s (changed ch i) hint)) \<in> set older))) \<and>
    (quiet w \<and> stored s w (i_name i) \<noteq> None \<and> (\<forall>q m. EvFs (OpOpenTrunc q m) \<notin> set (new_events w w')) \<longrightarrow>
       stored s w' (i_name i) = stored s w (i_name i))"
proof -
  let ?j = "changed ch i" and ?q = "toml_file s (i_name i)"
  have sock: "p_socket_path (store_params s ?j) = p_socket_path (store_params s i)" by (simp add: store_params_def)
  have q: "p_toml_path (store_params s ?j) = ?q" using store_params_paths(2) [of ?j s] assms(2) by simp
  obtain x v where b: "before_save s i ch w = (x, v)" by (cases "before_save s i ch w")
  have early: "emits (early ?q) w v" by (rule keepsD [OF early_before_save [OF assms(2)] b])
  have env: "w_env v = w_env w" using early by (simp add: emits_def)
  have none: "EvFs (OpOpenTrunc p m) \<notin> set (new_events w v)" for p m
    using emits_new_events [OF early] by (auto simp: early_def)
  show ?thesis
  proof (cases x)
    case (Inl e)
    then have w': "w' = v" and r: "r = Inl e" using assms(1) b by (simp_all add: set_parts thn_def bnd_def)
    have "new_events w w' \<noteq> newer @ EvFs (OpOpenTrunc p m) # older" for newer p m older
      using none [of p m] unfolding w' by (metis in_set_conv_decomp)
    then show ?thesis using early_stored [OF early] by (simp add: r w')
  next
    case (Inr u)
    then have save: "save s ?j v = (r, w')" using assms(1) b by (simp add: set_parts thn_def bnd_def)
    have saved: "emits (\<lambda>e. \<forall>p m. e = EvFs (OpOpenTrunc p m) \<longrightarrow> p = ?q) v w'"
      by (rule keepsD [OF emits_save save]) (simp_all add: q)
    have "w_hist w' = (new_events v w' @ new_events w v) @ w_hist w"
      using emits_hist [OF early] emits_hist [OF saved] by simp
    then have new: "new_events w w' = new_events v w' @ new_events w v" by (rule new_events_append)
    have "stored s w' (i_name i) = Some ?j" if "r = Inr ()" "toml_ok w"
      using save_success [of s ?j v w'] save that assms(2) env by (simp add: toml_ok_def)
    moreover have "p = ?q \<and> set (new_events w v) \<subseteq> set older"
      if split: "new_events w w' = newer @ EvFs (OpOpenTrunc p m) # older" for newer p m older
    proof
      have "EvFs (OpOpenTrunc p m) \<in> set (new_events v w')" using split none [of p m] unfolding new
        by (metis Un_iff in_set_conv_decomp set_append)
      with emits_new_events [OF saved] show "p = ?q" by blast
      from split none [of p m] show "set (new_events w v) \<subseteq> set older"
        unfolding new by (auto simp: append_eq_append_conv2 append_eq_Cons_conv Cons_eq_append_conv)
    qed
    moreover have "\<exists>hint. EvRpc (p_socket_path (store_params s i)) (set_config_request (config_for s ?j hint)) \<in> set (new_events w v)"
      if "i_logged_in i" "daemon_settings_change ch i"
      using before_save_hist [OF b [unfolded Inr] that] unfolding sock .
    moreover have "stored s w' (i_name i) = stored s w (i_name i)"
      if "quiet w" "stored s w (i_name i) \<noteq> None" "\<forall>p m. EvFs (OpOpenTrunc p m) \<notin> set (new_events w w')"
    proof -
      have "emits (early ?q) v w'" using save_opens [OF save] that(3) by (simp add: new)
      from emits_trans [OF early this] early_stored that(1,2) show ?thesis by blast
    qed
    ultimately show ?thesis by (intro conjI allI impI) blast+
  qed
qed

section \<open>A run\<close>

definition new_port :: set_changes where
  "new_port = \<lparr>ch_dns_mode = None, ch_wireguard_port = Some 52000, ch_netbird_bin = None\<rparr>"

definition member :: inst where
  "member = (example_inst ''a'' 2)\<lparr>i_logged_in := True\<rparr>"

theorem set_file_and_daemon_witness:
  "let v = snd (set_instance example_store_at member new_port lone_running)
   in (\<exists>hint. EvRpc ''/run/a.sock'' (RpcSetConfig ''default'' ''empty'' ''https://api.netbird.io'' 52000 False hint)
         \<in> set (new_events lone_running v)) \<and>
      stored example_store_at v ''a'' = Some (member\<lparr>i_wireguard_port := 52000\<rparr>)"
proof -
  let ?v = "snd (set_instance example_store_at member new_port lone_running)"
  have ok: "fst (set_instance example_store_at member new_port lone_running) = Inr ()"
    and ev: "EvFs (OpOpenTrunc ''/r/a/instance.toml'' 384) \<in> set (new_events lone_running ?v)"
    and sk: "p_socket_path (store_params example_store_at member) = ''/run/a.sock''"
    and v: "valid_name (i_name member)"
    by code_simp+
  have t: "toml_ok lone_running"
    by (simp add: toml_ok_def lone_running_def two_running_def example_env_def example_codec)
  have c: "daemon_settings_change new_port member" "i_logged_in member" "i_name member = ''a''"
    by (simp_all add: daemon_settings_change_def changed_def new_port_def member_def)
  have j: "changed new_port member = member\<lparr>i_wireguard_port := 52000\<rparr>"
    by (simp add: changed_def new_port_def member_def)
  obtain newer older where split: "new_events lone_running ?v = newer @ EvFs (OpOpenTrunc ''/r/a/instance.toml'' 384) # older"
    using split_list [OF ev] by blast
  have cfg: "set_config_request (config_for example_store_at (changed new_port member) hint) =
      RpcSetConfig ''default'' ''empty'' ''https://api.netbird.io'' 52000 False hint" for hint
    unfolding j by (simp add: set_config_request_def config_for_def store_params_def member_def dns_disable_sys_def)
  have "set_instance example_store_at member new_port lone_running = (Inr (), ?v)" using ok by (metis prod.collapse)
  note set = set_file_and_daemon [OF this v]
  from set [THEN conjunct1] t c(3) have "stored example_store_at ?v ''a'' = Some (member\<lparr>i_wireguard_port := 52000\<rparr>)"
    by (simp add: j)
  moreover from set [THEN conjunct2, THEN conjunct1] split c(1,2)
  obtain hint where "EvRpc ''/run/a.sock'' (RpcSetConfig ''default'' ''empty'' ''https://api.netbird.io'' 52000 False hint) \<in> set older"
    unfolding sk cfg by blast
  then have "EvRpc ''/run/a.sock'' (RpcSetConfig ''default'' ''empty'' ''https://api.netbird.io'' 52000 False hint)
      \<in> set (new_events lone_running ?v)" by (simp add: split)
  ultimately show ?thesis unfolding Let_def by blast
qed

end
