(* ===== verification/Views.thy ===== *)
theory Views
  imports Twins Commands
begin

text \<open>
  The commands that show something: \<^verbatim>\<open>list\<close>, \<^verbatim>\<open>peers\<close>, \<^verbatim>\<open>doctor\<close>, \<^verbatim>\<open>logs\<close> and \<^verbatim>\<open>upgrade --check\<close>.  They look at
  processes, daemons and the host; what they write is the config root's directory and the files of instances
  that the store migrates as it reads them.  (\<^verbatim>\<open>status\<close> is not one of them: it registers DNS servers and records
  interfaces.)
\<close>

section \<open>Looking\<close>

definition shows_only :: "command \<Rightarrow> bool" where
  "shows_only c \<longleftrightarrow>
     (case c of CmdList \<Rightarrow> True | CmdPeers _ _ \<Rightarrow> True | CmdDoctor _ _ \<Rightarrow> True | CmdLogs _ _ _ \<Rightarrow> True
      | CmdUpgrade check _ \<Rightarrow> check | _ \<Rightarrow> False)"

text \<open>No process is started, no signal sent but the probe 0, no daemon given an order, no DNS key changed: scripts
  only list.  Files are read; what is written are directories and, by the migration, files of instances.\<close>

definition view_event :: "event \<Rightarrow> bool" where
  "view_event e \<longleftrightarrow>
     (case e of
        EvFs f \<Rightarrow>
          (case f of
             OpRead _ \<Rightarrow> True | OpStat _ \<Rightarrow> True | OpReadDir _ \<Rightarrow> True | OpMkdirAll _ _ \<Rightarrow> True
           | OpOpenTrunc q _ \<Rightarrow> key_file q | OpWrite q \<Rightarrow> key_file q | OpClose q \<Rightarrow> key_file q
           | _ \<Rightarrow> False)
      | EvExec _ script \<Rightarrow> script \<in> {[], list_script, ''list State:/Network/Service/NetBird-.*/DNS'' @ nl @ ''quit'' @ nl}
      | EvSpawn _ _ _ \<Rightarrow> False
      | EvKill _ sig \<Rightarrow> sig = 0
      | EvRpc _ r \<Rightarrow> only_asks r
      | _ \<Rightarrow> True)"

lemma view_simps [simp]:
  "view_event (EvWarn t)" "view_event (EvPrint t)" "view_event (EvError t)" "view_event (EvOut t)"
  "view_event (EvHttp url hs)" "view_event (EvFs (OpRead p))" "view_event (EvFs (OpStat p))"
  "view_event (EvFs (OpReadDir p))" "view_event (EvFs (OpMkdirAll p m))"
  "view_event (EvFs (OpOpenTrunc q m)) = key_file q" "view_event (EvFs (OpWrite q)) = key_file q"
  "view_event (EvFs (OpClose q)) = key_file q"
  by (simp_all add: view_event_def)

lemma inspects_view: "inspects e \<Longrightarrow> view_event e"
  by (auto simp: view_event_def inspects_def looks_def only_asks_def split: event.splits fs_op.splits)

lemma view_inspects: "keeps (emits inspects) m \<Longrightarrow> keeps (emits view_event) m"
  by (erule keeps_mono) (rule inspects_view)

lemma view_looks: "keeps (emits looks) m \<Longrightarrow> keeps (emits view_event) m"
  by (erule keeps_mono) (rule inspects_view, simp add: inspects_def)

section \<open>The commands\<close>

lemma view_store:
  "keeps (emits view_event) new_env" "keeps (emits view_event) (load_instance s n)"
  "keeps (emits view_event) (list_instances s)" "keeps (emits view_event) (instances_for s args)"
proof -
  show "keeps (emits view_event) new_env" unfolding new_env_def by (intro frame_intros emits_config_root; simp)
  have m: "keeps (emits view_event) (migrate s i)" for i unfolding migrate_alt by (intro frame_intros; simp)
  show 1: "keeps (emits view_event) (load_instance s n)" for n unfolding load_instance_def by (intro frame_intros m; simp)
  show 2: "keeps (emits view_event) (list_instances s)" unfolding list_instances_def by (intro frame_intros m; simp)
  show "keeps (emits view_event) (instances_for s args)" unfolding instances_for_def by (intro frame_intros 1 2)
qed

lemma view_commands:
  "keeps (emits view_event) list_cmd" "keeps (emits view_event) (peers_cmd args json_out)"
  "keeps (emits view_event) (doctor_cmd ord strict json_out)" "keeps (emits view_event) (logs_cmd n following kb polls)"
  "keeps (emits view_event) (upgrade_cmd ver info True force)"
proof -
  note store = view_store
  show "keeps (emits view_event) list_cmd" unfolding list_cmd_def by (intro frame_intros store; simp)
  show "keeps (emits view_event) (peers_cmd args json_out)"
    unfolding peers_cmd_def peers_def encode_def by (intro frame_intros store view_looks [OF peers_one_looks]; simp)
  have "keeps (emits view_event) (doctor ord s)" for s
  proof -
    have "doctor ord s = bnd (attempt (list_instances s)) (\<lambda>r.
        examine ord s (case r of Inl e \<Rightarrow> [failed ''config root'' (err_text e)] | Inr _ \<Rightarrow> [])
          (case r of Inl _ \<Rightarrow> [] | Inr is \<Rightarrow> is))"
      by (simp add: doctor_def examine_def Let_def)
    then show ?thesis by (simp only:) (intro frame_intros store view_inspects [OF inspects_examine])
  qed
  then show "keeps (emits view_event) (doctor_cmd ord strict json_out)"
    unfolding doctor_cmd_def encode_def by (intro frame_intros store; simp)
  show "keeps (emits view_event) (logs_cmd n following kb polls)"
    unfolding logs_cmd_def logs_def by (intro frame_intros store; simp)
  have "keeps (emits view_event) latest_release" by (intro frame_intros; simp)
  then show "keeps (emits view_event) (upgrade_cmd ver info True force)"
    unfolding upgrade_cmd_def if_True by (intro frame_intros; simp)
qed

lemma view_root:
  assumes "shows_only c"
  shows "keeps (emits view_event) (root_cmd ver info ord polls c)"
  using assms
  by (cases c) (auto simp: shows_only_def root_cmd_def Let_def intro!: ev.keeps_thn ev.keeps_ret view_commands)

section \<open>Property\<close>



end
