(* ===== verification/Readback.thy ===== *)
theory Readback
  imports Commands
begin

text \<open>
  Reading JSON back: a reference reader for the texts that \<^verbatim>\<open>--json\<close> prints, written without regard to
  the printer (any white space between tokens), and what a script that reads the output of \<^verbatim>\<open>status\<close> and
  \<^verbatim>\<open>doctor\<close> learns from it: exactly what the command found.
\<close>

section \<open>A reader\<close>

definition skip :: "string \<Rightarrow> string" where
  "skip s = dropWhile is_space s"

definition expect :: "char \<Rightarrow> string \<Rightarrow> string option" where
  "expect c s = (case skip s of [] \<Rightarrow> None | x # r \<Rightarrow> if x = c then Some r else None)"

definition escapes :: "(char \<times> char) list" where
  "escapes =
     [(CHR 0x22, CHR 0x22), (CHR 0x5C, CHR 0x5C), (CHR ''/'', CHR ''/''), (CHR ''b'', CHR 0x08), (CHR ''f'', CHR 0x0C),
      (CHR ''n'', CHR 0x0A), (CHR ''r'', CHR 0x0D), (CHR ''t'', CHR 0x09)]"

text \<open>The text of a string, from behind its opening quote.  Escapes by number are those of the bytes.\<close>

fun read_chars :: "string \<Rightarrow> (string \<times> string) option" where
  "read_chars [] = None"
| "read_chars (c # r) =
     (if c = CHR 0x22 then Some ([], r)
      else if c \<noteq> CHR 0x5C then map_option (apfst (Cons c)) (read_chars r)
      else case r of
             [] \<Rightarrow> None
           | e # r1 \<Rightarrow>
               if e = CHR ''u''
               then (case r1 of
                       _ # _ # h # l # r2 \<Rightarrow>
                         map_option (apfst (Cons (char_of (16 * hex_val h + hex_val l)))) (read_chars r2)
                     | _ \<Rightarrow> None)
               else (case map_of escapes e of
                       None \<Rightarrow> None
                     | Some x \<Rightarrow> map_option (apfst (Cons x)) (read_chars r1)))"

definition read_int :: "string \<Rightarrow> (int \<times> string) option" where
  "read_int s =
     (let neg = has_prefix s ''-''; t = (if neg then tl s else s); ds = takeWhile is_digit t; n = int (digits_val ds)
      in if ds = [] then None else Some (if neg then - n else n, dropWhile is_digit t))"

text \<open>What stands between brackets, up to the closing one.\<close>

fun read_seq :: "nat \<Rightarrow> (string \<Rightarrow> ('a \<times> string) option) \<Rightarrow> char \<Rightarrow> string \<Rightarrow> ('a list \<times> string) option" where
  "read_seq 0 item close s = None"
| "read_seq (Suc n) item close s =
     (case item s of
        None \<Rightarrow> None
      | Some (x, r) \<Rightarrow>
          (case expect close r of
             Some r1 \<Rightarrow> Some ([x], r1)
           | None \<Rightarrow>
               (case expect CHR '','' r of
                  None \<Rightarrow> None
                | Some r1 \<Rightarrow> map_option (apfst (Cons x)) (read_seq n item close r1))))"

definition read_list :: "(string \<Rightarrow> ('a \<times> string) option) \<Rightarrow> char \<Rightarrow> string \<Rightarrow> ('a list \<times> string) option" where
  "read_list item close s =
     (case expect close s of Some r \<Rightarrow> Some ([], r) | None \<Rightarrow> read_seq (length s) item close s)"

definition read_field :: "(string \<Rightarrow> ('a \<times> string) option) \<Rightarrow> string \<Rightarrow> ((string \<times> 'a) \<times> string) option" where
  "read_field item s =
     Option.bind (expect CHR 0x22 s) (\<lambda>r.
     Option.bind (read_chars r) (\<lambda>(k, r).
     Option.bind (expect CHR '':'' r) (\<lambda>r.
     Option.bind (item r) (\<lambda>(x, r). Some ((k, x), r)))))"

text \<open>A value nested at most \<open>n\<close> deep.\<close>

fun read_value :: "nat \<Rightarrow> string \<Rightarrow> (json \<times> string) option" where
  "read_value 0 s = None"
| "read_value (Suc n) s =
     (case skip s of
        [] \<Rightarrow> None
      | c # r \<Rightarrow>
          if c = CHR 0x22 then map_option (apfst JStr) (read_chars r)
          else if c = CHR ''['' then map_option (apfst JArr) (read_list (read_value n) CHR '']'' r)
          else if c = CHR ''{'' then map_option (apfst JObj) (read_list (read_field (read_value n)) CHR ''}'' r)
          else if has_prefix (c # r) ''true'' then Some (JBool True, drop 3 r)
          else if has_prefix (c # r) ''false'' then Some (JBool False, drop 4 r)
          else map_option (apfst JInt) (read_int (c # r)))"

definition json_read :: "string \<Rightarrow> json option" where
  "json_read s =
     (case read_value (length s) s of
        Some (j, r) \<Rightarrow> if skip r = [] then Some j else None
      | None \<Rightarrow> None)"

section \<open>It reads what is printed\<close>

lemma skip_simps [simp]:
  "\<not> is_space c \<Longrightarrow> skip (c # s) = c # s" "skip (new_line d @ s) = skip s" "skip (CHR 0x20 # s) = skip s"
  "skip (CHR 0x0A # s) = skip s"
proof -
  have "skip (replicate k CHR 0x20 @ s) = skip s" for k by (induction k) (simp_all add: skip_def is_space_def)
  then show "skip (new_line d @ s) = skip s" by (simp add: new_line_def skip_def is_space_def)
qed (simp_all add: skip_def is_space_def)

lemma hex_val_digit: "d < 16 \<Longrightarrow> hex_val (hex_digit d) = d"
proof -
  have "list_all (\<lambda>d. hex_val (hex_digit d) = d) [0..<16]" by code_simp
  then show "d < 16 \<Longrightarrow> hex_val (hex_digit d) = d" by (simp add: list_all_iff)
qed

lemma read_char: "read_chars (json_char c @ r) = map_option (apfst (Cons c)) (read_chars r)"
proof -
  have "(of_char c :: nat) < 256" by simp
  then have "(of_char c :: nat) div 16 < 16" by (simp only: less_mult_imp_div_less)
  then have h: "hex_val (hex_digit (of_char c div 16)) = of_char c div 16"
    "hex_val (hex_digit (of_char c mod 16)) = of_char c mod 16" by (simp_all add: hex_val_digit)
  have c: "char_of (16 * ((of_char c :: nat) div 16) + of_char c mod 16) = c" by simp
  show ?thesis by (simp add: json_char_def escapes_def h c)
qed

lemma read_string: "read_chars (concat (map json_char s) @ CHR 0x22 # r) = Some (s, r)"
  by (induction s) (simp_all add: read_char)

text \<open>What may follow a value: anything but another digit.\<close>

definition ends :: "string \<Rightarrow> bool" where
  "ends r \<longleftrightarrow> r = [] \<or> \<not> is_digit (hd r)"

lemma ends_simps [simp]:
  "ends []" "ends (new_line d @ r)" "ends (CHR '','' # r)" "ends (CHR 0x0A # r)"
  by (simp_all add: ends_def new_line_def is_digit_def)

lemma read_utoa: "ends r \<Longrightarrow> takeWhile is_digit (utoa n @ r) = utoa n \<and> dropWhile is_digit (utoa n @ r) = r"
  using utoa_digits [of n] by (cases r) (auto simp: ends_def list_all_iff takeWhile_append2)

lemma read_itoa: "ends r \<Longrightarrow> read_int (itoa i @ r) = Some (i, r)"
proof -
  assume r: "ends r"
  have "\<not> has_prefix (utoa n @ r) ''-''" for n
    using utoa_hd [of n] by (cases "utoa n") (auto simp: has_prefix_def is_digit_def)
  with read_utoa [OF r] show ?thesis by (simp add: read_int_def itoa_def Let_def has_prefix_def)
qed

lemma read_seq_items:
  assumes "xs \<noteq> []" and "length xs \<le> n" and "\<not> is_space close" and "close \<noteq> CHR '',''"
    and "\<And>x r. x \<in> set xs \<Longrightarrow> ends r \<Longrightarrow> item (new_line d @ pr x @ r) = Some (x, r)"
  shows "read_seq n item close (new_line d @ join (map pr xs) (CHR '','' # new_line d) @ new_line d' @ close # r) =
    Some (xs, r)"
  using assms
proof (induction n arbitrary: xs)
  case (Suc n)
  have close: "expect close (new_line d' @ close # r) = Some r" "expect close (CHR '','' # s) = None" for s
    using Suc.prems by (auto simp: expect_def is_space_def)
  have comma: "expect CHR '','' (CHR '','' # s) = Some s" for s by (simp add: expect_def is_space_def)
  obtain x ys where xs: "xs = x # ys" using Suc.prems(1) by (cases xs) auto
  show ?case
  proof (cases ys)
    case Nil
    with xs Suc.prems(5) [of x "new_line d' @ close # r"] close show ?thesis by simp
  next
    case (Cons y zs)
    have "read_seq n item close (new_line d @ join (map pr ys) (CHR '','' # new_line d) @ new_line d' @ close # r) =
      Some (ys, r)"
      by (rule Suc.IH) (use Suc.prems xs Cons in auto)
    with xs Cons Suc.prems(5) [of x "CHR '','' # s" for s] close comma show ?thesis by simp
  qed
qed simp

lemma join_length: "length xs \<le> length (join (map f xs) (c # sep)) + 1"
proof (induction xs)
  case (Cons y ys)
  then show ?case by (cases ys) auto
qed simp

lemma item_length: "x \<in> set xs \<Longrightarrow> length (f x) \<le> length (join (map f xs) sep)"
proof (induction xs)
  case (Cons y ys)
  then show ?case by (cases ys) auto
qed simp

lemma bracket_length:
  assumes "x \<in> set xs"
  shows "length (pr x) < length (json_bracket d l r (map pr xs))"
proof -
  from assms have "map pr xs \<noteq> []" by auto
  with item_length [OF assms, of pr "CHR '','' # new_line (Suc d)"] show ?thesis by (simp add: json_bracket_def)
qed

text \<open>A bracket is read as soon as its items are.\<close>

lemma read_bracket:
  assumes "\<not> is_space close" and "close \<noteq> CHR '',''"
    and "\<And>x r. x \<in> set xs \<Longrightarrow> ends r \<Longrightarrow> item (new_line (Suc d) @ pr x @ r) = Some (x, r)"
    and "\<And>x. x \<in> set xs \<Longrightarrow> pr x \<noteq> [] \<and> hd (pr x) \<noteq> close \<and> \<not> is_space (hd (pr x))"
  shows "\<exists>s. json_bracket d l close (map pr xs) @ r = l # s \<and> read_list item close s = Some (xs, r)"
proof (cases xs)
  case Nil
  with assms(1) show ?thesis by (simp add: json_bracket_def read_list_def expect_def)
next
  case (Cons x ys)
  let ?j = "join (map pr xs) (CHR '','' # new_line (Suc d))"
  let ?s = "new_line (Suc d) @ ?j @ new_line d @ close # r"
  from Cons have j: "?j \<noteq> [] \<and> hd ?j = hd (pr x)" using assms(4) [of x] by (cases ys) auto
  with assms(4) [of x] Cons have "expect close ?s = None"
    by (cases ?j) (auto simp: expect_def)
  moreover have "length xs \<le> length ?s" 
    using join_length [of xs pr "CHR '',''" "new_line (Suc d)"] by simp
  then have "read_seq (length ?s) item close ?s = Some (xs, r)"
    by (intro read_seq_items assms(1-3)) (simp_all add: Cons)
  ultimately have "read_list item close ?s = Some (xs, r)" by (simp add: read_list_def)
  with Cons show ?thesis by (simp add: json_bracket_def)
qed

lemma json_text_start: "json_text d j \<noteq> [] \<and> \<not> is_space (hd (json_text d j)) \<and> hd (json_text d j) \<notin> {CHR '']'', CHR ''}''}"
proof (cases j)
  case (JInt i)
  have "hd (utoa n) \<notin> {CHR '']'', CHR ''}''} \<and> \<not> is_space (hd (utoa n))" for n
    using utoa_hd [of n] digit_not_space by (auto simp: is_digit_def)
  with JInt show ?thesis by (simp add: itoa_def is_space_def)
qed (simp_all add: json_string_def json_bracket_def is_space_def)

lemma int_start: "c = hd (itoa i) \<Longrightarrow> c \<notin> {CHR 0x22, CHR ''['', CHR ''{'', CHR ''t'', CHR ''f''}"
  using utoa_hd [of "nat i"] by (auto simp: itoa_def is_digit_def)

lemma read_field_printed:
  assumes "item (CHR 0x20 # v @ r) = Some (x, r)"
  shows "read_field item (new_line d @ (json_string k @ '': '' @ v) @ r) = Some ((k, x), r)"
  using assms read_string [of k "'': '' @ v @ r"]
  by (simp add: read_field_def expect_def json_string_def is_space_def)

lemma read_printed:
  "length (json_text d j) \<le> n \<Longrightarrow> ends r \<Longrightarrow> skip s = skip (json_text d j @ r) \<Longrightarrow> read_value n s = Some (j, r)"
proof (induction j arbitrary: d n r s)
  case (JStr x)
  then obtain m where "n = Suc m" by (cases n) (auto simp: json_string_def)
  with JStr read_string [of x r] show ?case by (simp add: json_string_def is_space_def)
next
  case (JInt i)
  obtain m where n: "n = Suc m" using JInt.prems(1) by (cases n) auto
  obtain c cs where c: "itoa i = c # cs" by (cases "itoa i") auto
  with int_start [of c i] json_text_start [of d "JInt i"] JInt.prems read_itoa [OF JInt.prems(2), of i]
  show ?case by (auto simp: n has_prefix_def)
next
  case (JBool b)
  then obtain m where "n = Suc m" by (cases n) (auto split: if_splits)
  with JBool show ?case by (cases b) (simp_all add: is_space_def has_prefix_def)
next
  case (JArr js)
  obtain m where n: "n = Suc m" using JArr.prems(1) by (cases n) (auto simp: json_bracket_def split: if_splits)
  have "read_value m (new_line (Suc d) @ json_text (Suc d) x @ r') = Some (x, r')" if "x \<in> set js" "ends r'" for x r'
  proof (rule JArr.IH [OF that(1) _ that(2)])
    show "length (json_text (Suc d) x) \<le> m"
      using bracket_length [OF that(1), of "json_text (Suc d)"] JArr.prems(1) unfolding n json_text.simps
      by (meson le_less_trans less_Suc_eq_le not_le)
  qed simp
  from read_bracket [of "CHR '']''" js "read_value m" d "json_text (Suc d)" "CHR ''[''" r, OF _ _ this] json_text_start
  obtain t where "json_text d (JArr js) @ r = CHR ''['' # t" "read_list (read_value m) CHR '']'' t = Some (js, r)"
    by (auto simp: is_space_def)
  with JArr.prems(3) show ?case by (simp add: n is_space_def del: json_text.simps)
next
  case (JObj fs)
  let ?p = "\<lambda>(k, v). json_string k @ '': '' @ json_text (Suc d) v"
  obtain m where n: "n = Suc m" using JObj.prems(1) by (cases n) (auto simp: json_bracket_def split: if_splits)
  have "read_field (read_value m) (new_line (Suc d) @ ?p x @ r') = Some (x, r')" if x: "x \<in> set fs" "ends r'" for x r'
  proof -
    obtain k v where kv: "x = (k, v)" by (cases x)
    have "length (json_text (Suc d) v) \<le> m"
      using bracket_length [OF x(1), of ?p d "CHR ''{''" "CHR ''}''"] JObj.prems(1) unfolding n json_text.simps kv
      by simp
    then have "read_value m (CHR 0x20 # json_text (Suc d) v @ r') = Some (v, r')"
      using x(2) by (intro JObj.IH [OF x(1), where d = "Suc d"]) (simp_all add: kv)
    then have "read_field (read_value m) (new_line (Suc d) @ (json_string k @ '': '' @ json_text (Suc d) v) @ r') =
      Some ((k, v), r')" by (rule read_field_printed)
    then show ?thesis by (simp add: kv)
  qed
  from read_bracket [of "CHR ''}''" fs "read_field (read_value m)" d ?p "CHR ''{''" r, OF _ _ this]
  obtain t where "json_text d (JObj fs) @ r = CHR ''{'' # t"
    "read_list (read_field (read_value m)) CHR ''}'' t = Some (fs, r)"
    by (auto simp: is_space_def json_string_def)
  with JObj.prems(3) show ?case by (simp add: n is_space_def del: json_text.simps)
qed

lemma json_round_trip: "json_read (json_text 0 j @ [CHR 0x0A]) = Some j"
  using read_printed [of 0 j "Suc (length (json_text 0 j))" "[CHR 0x0A]" "json_text 0 j @ [CHR 0x0A]"]
  by (simp add: json_read_def skip_def is_space_def)

section \<open>What the output says\<close>

fun elements :: "json \<Rightarrow> json list option" where
  "elements (JArr js) = Some js"
| "elements _ = None"

text \<open>A field of an object; a missing text is empty, as the printer leaves empty texts out.\<close>

fun field :: "string \<Rightarrow> json \<Rightarrow> json option" where
  "field k (JObj fs) = map_of fs k"
| "field k _ = None"

definition text_at :: "string \<Rightarrow> json \<Rightarrow> string" where
  "text_at k j = (case field k j of Some (JStr s) \<Rightarrow> s | _ \<Rightarrow> [])"

definition int_at :: "string \<Rightarrow> json \<Rightarrow> int" where
  "int_at k j = (case field k j of Some (JInt i) \<Rightarrow> i | _ \<Rightarrow> 0)"

definition bool_at :: "string \<Rightarrow> json \<Rightarrow> bool" where
  "bool_at k j = (case field k j of Some (JBool b) \<Rightarrow> b | _ \<Rightarrow> False)"

definition status_at :: "json \<Rightarrow> instance_status" where
  "status_at j =
     \<lparr>v_name = text_at ''name'' j, v_management_url = text_at ''management_url'' j, v_state = text_at ''state'' j,
      v_netbird_ip = text_at ''netbird_ip'' j, v_peers = nat (int_at ''peers'' j), v_interface = text_at ''interface'' j,
      v_version = text_at ''netbird_version'' j, v_wg_port = int_at ''wireguard_port'' j,
      v_log_file = text_at ''log_file'' j\<rparr>"

definition check_at :: "json \<Rightarrow> check" where
  "check_at j =
     \<lparr>ck_name = text_at ''name'' j, ck_ok = bool_at ''ok'' j, ck_warn = bool_at ''warn'' j,
      ck_detail = text_at ''detail'' j\<rparr>"

lemmas at_defs = text_at_def int_at_def bool_at_def json_opt_def

lemma status_at_json [simp]: "status_at (status_json v) = v"
  by (simp add: status_at_def status_json_def at_defs)

lemma check_at_json [simp]: "check_at (check_json c) = c"
  by (simp add: check_at_def check_json_def at_defs)

text \<open>The records that a text holds.\<close>

definition records :: "(json \<Rightarrow> 'a) \<Rightarrow> string \<Rightarrow> 'a list option" where
  "records f t = map_option (map f) (Option.bind (json_read t) elements)"

lemma records_printed: "records f (json_text 0 (JArr js) @ [CHR 0x0A]) = Some (map f js)"
  by (simp only: records_def json_round_trip) simp

lemma encode_json: "encode j w = (Inr (), log_event (EvOut (json_text 0 j @ [CHR 0x0A])) w)"
  by (simp add: encode_def write_out_def tell_def)

text \<open>C23: What \<^verbatim>\<open>--json\<close> prints can be read back.  A \<^verbatim>\<open>status --json\<close> that has found its instances ends with one text
  on its output, after everything else it does, and a JSON reader gets from that text exactly the statuses that were
  found; a \<^verbatim>\<open>doctor --json\<close> writes one text from which the reader gets exactly the checks, and it fails if and only
  if one of the checks read failed or, with \<^verbatim>\<open>--strict\<close>, warned.  So names, addresses and messages may hold any
  characters.\<close>

theorem json_output_reads_back:
  assumes "new_env w = (Inr s, w0)"
  shows "(\<forall>insts w1 sts w2.
      instances_for s args w0 = (Inr insts, w1) \<longrightarrow> status_all s insts w1 = (Inr sts, w2) \<longrightarrow>
      (\<exists>t. status_cmd args True w = (Inr (), log_event (EvOut t) w2) \<and> records status_at t = Some sts)) \<and>
   (\<forall>checks w1.
      doctor ord s w0 = (Inr checks, w1) \<longrightarrow>
      (\<exists>t r. doctor_cmd ord strict True w = (r, log_event (EvOut t) w1) \<and> records check_at t = Some checks \<and>
         (r = Inr () \<longleftrightarrow> (\<forall>c \<in> set checks. ck_ok c \<and> \<not> (strict \<and> ck_warn c)))))"
proof (intro conjI allI impI)
  fix insts w1 sts w2
  assume "instances_for s args w0 = (Inr insts, w1)" "status_all s insts w1 = (Inr sts, w2)"
  with assms have "status_cmd args True w = encode (JArr (map status_json sts)) w2"
    by (simp add: status_cmd_def bnd_def)
  then show "\<exists>t. status_cmd args True w = (Inr (), log_event (EvOut t) w2) \<and> records status_at t = Some sts"
    by (intro exI [where x = "json_text 0 (JArr (map status_json sts)) @ [CHR 0x0A]"])
      (simp add: encode_json records_printed o_def del: json_text.simps)
next
  fix checks w1
  assume "doctor ord s w0 = (Inr checks, w1)"
  let ?t = "json_text 0 (JArr (map check_json checks)) @ [CHR 0x0A]"
  let ?r = "fst (doctor_cmd ord strict True w)"
  from assms \<open>doctor ord s w0 = (Inr checks, w1)\<close>
  have "doctor_cmd ord strict True w = (?r, log_event (EvOut ?t) w1)"
    and "?r = Inr () \<longleftrightarrow> (\<forall>c \<in> set checks. ck_ok c \<and> \<not> (strict \<and> ck_warn c))"
    by (auto simp: doctor_cmd_def bnd_def thn_def encode_json Let_def filter_empty_conv fail_def ret_def
        simp del: json_text.simps)
  then show "\<exists>t r. doctor_cmd ord strict True w = (r, log_event (EvOut t) w1) \<and> records check_at t = Some checks \<and>
         (r = Inr () \<longleftrightarrow> (\<forall>c \<in> set checks. ck_ok c \<and> \<not> (strict \<and> ck_warn c)))"
    by (intro exI [where x = ?t] exI [where x = ?r]) (simp add: records_printed o_def del: json_text.simps)
qed

text \<open>Of two instances one has a daemon.\<close>

theorem json_output_reads_back_witness:
  "\<exists>t w' s w0 insts w1 sts w2.
     new_env half_up = (Inr s, w0) \<and> instances_for s [] w0 = (Inr insts, w1) \<and> status_all s insts w1 = (Inr sts, w2) \<and>
     map v_name sts = [''a'', ''b''] \<and> w_hist w' = EvOut t # w_hist w2 \<and>
     status_cmd [] True half_up = (Inr (), w') \<and> records status_at t = Some sts"
proof -
  let ?s = "\<lparr>s_root = ''/r'', s_run = ''/var/run/multibird''\<rparr>"
  have 1: "fst (new_env half_up) = Inr ?s" by (rule half_up_run)
  have 2: "case fst (instances_for ?s [] (snd (new_env half_up))) of Inl _ \<Rightarrow> False | Inr l \<Rightarrow>
      (case fst (status_all ?s l (snd (instances_for ?s [] (snd (new_env half_up))))) of
         Inl _ \<Rightarrow> False | Inr sts \<Rightarrow> map v_name sts = [''a'', ''b''])" by code_simp
  obtain w0 where w0: "new_env half_up = (Inr ?s, w0)" using 1 by (metis prod.collapse)
  obtain r1 w1 where r1: "instances_for ?s [] w0 = (r1, w1)" by (cases "instances_for ?s [] w0")
  note 2 = 2 [unfolded w0 snd_conv r1 fst_conv]
  then obtain insts where insts: "r1 = Inr insts" by (cases r1) simp_all
  obtain r2 w2 where r2: "status_all ?s insts w1 = (r2, w2)" by (cases "status_all ?s insts w1")
  note 2 = 2 [unfolded insts sum.case r2 fst_conv]
  then obtain sts where sts: "r2 = Inr sts" "map v_name sts = [''a'', ''b'']" by (cases r2) simp_all
  note found = r1 [unfolded insts] r2 [unfolded sts(1)]
  from json_output_reads_back [OF w0, THEN conjunct1, rule_format, OF found]
  obtain t where "status_cmd [] True half_up = (Inr (), log_event (EvOut t) w2)" "records status_at t = Some sts"
    by blast
  moreover have "w_hist (log_event (EvOut t) w2) = EvOut t # w_hist w2" by (simp add: log_event_def)
  ultimately show ?thesis using w0 found sts(2) by - (intro exI conjI, assumption+)
qed

end
