(* ===== verification/Spec2Isabelle.thy ===== *)
theory Spec2Isabelle
  imports Commands Secrecy Panics Settings Views Readback
begin

text \<open>
  A model of \<^verbatim>\<open>multibird\<close>: several NetBird clients on one host, one daemon for each mesh, and one command
  line for all of them.

  \<^bold>\<open>The program.\<close>  An instance is a TOML file under the config root.  From it and two directories everything
  else is derived: configuration, log and state directory of the daemon, its socket and pid file, its
  WireGuard port.  Commands read instances from the store, start and stop daemons, talk to them over gRPC,
  check what is running for conflicts, register the meshes' resolvers with the host (macOS), write boot units
  and replace the binary.

  \<^bold>\<open>The theories\<close>, from the ground up, with the code under \<^verbatim>\<open>src/\<close> that they model:

  \<^item> \<^theory_text>\<open>Prelude\<close>, \<^theory_text>\<open>GoStrings\<close>, \<^theory_text>\<open>Paths\<close>, \<^theory_text>\<open>Netip\<close>, \<^theory_text>\<open>Output\<close>: shared lemmas, and what the program
    uses of Go's standard library (\<^verbatim>\<open>strings\<close>, \<^verbatim>\<open>strconv\<close>, \<^verbatim>\<open>path/filepath\<close>, \<^verbatim>\<open>net/netip\<close>, \<^verbatim>\<open>encoding/json\<close>,
    \<^verbatim>\<open>text/tabwriter\<close>, \<^verbatim>\<open>time\<close>).
  \<^item> Pure parts: \<^theory_text>\<open>Instance\<close> (\<^verbatim>\<open>internal/instance/instance.go\<close>: the record, DNS modes, \<^verbatim>\<open>DeriveParams\<close>, redaction,
    names), \<^theory_text>\<open>HostDNS\<close> (\<^verbatim>\<open>internal/hostdns\<close>: from a status to a resolver specification), \<^theory_text>\<open>Preflight\<close>
    (\<^verbatim>\<open>internal/preflight\<close>: the three conflict checks), \<^theory_text>\<open>Scutil\<close> (\<^verbatim>\<open>internal/platform/scutil.go\<close>: keys, batches,
    scripts, and their reading back), \<^theory_text>\<open>Version\<close> (\<^verbatim>\<open>internal/version\<close>).
  \<^item> \<^theory_text>\<open>World\<close>, \<^theory_text>\<open>Frames\<close>, \<^theory_text>\<open>Example\<close>: the state that effects work on, how to reason about them, and a concrete
    environment in which the theorems are applied.
  \<^item> \<^theory_text>\<open>Store\<close> (\<^verbatim>\<open>internal/instance/store.go\<close>), \<^theory_text>\<open>Registry\<close> (\<^verbatim>\<open>NewEnv\<close>, \<^verbatim>\<open>Load\<close>, \<^verbatim>\<open>List\<close>, \<^verbatim>\<open>Add\<close> of
    \<^verbatim>\<open>internal/ops/ops.go\<close>), \<^theory_text>\<open>Daemon\<close> (\<^verbatim>\<open>internal/daemon\<close>, \<^verbatim>\<open>internal/nbcli\<close>), \<^theory_text>\<open>NbGrpc\<close>
    (\<^verbatim>\<open>internal/nbgrpc\<close>), \<^theory_text>\<open>Platform\<close> (\<^verbatim>\<open>internal/platform\<close>, both systems), \<^theory_text>\<open>Persist\<close>
    (\<^verbatim>\<open>internal/persist\<close>, both systems), \<^theory_text>\<open>SelfUpdate\<close> (\<^verbatim>\<open>internal/selfupdate\<close>).
  \<^item> \<^verbatim>\<open>internal/ops\<close>: \<^theory_text>\<open>HostSync\<close> and \<^theory_text>\<open>Watch\<close> (\<^verbatim>\<open>dns.go\<close>), \<^theory_text>\<open>Snapshot\<close> (\<^verbatim>\<open>preflight.go\<close>), \<^theory_text>\<open>Lifecycle\<close>
    (\<^verbatim>\<open>ops.go\<close>, \<^verbatim>\<open>set.go\<close>), \<^theory_text>\<open>Peers\<close>, \<^theory_text>\<open>Doctor\<close>, \<^theory_text>\<open>Logs\<close> (the files of these names).
  \<^item> \<^theory_text>\<open>Commands\<close>: \<^verbatim>\<open>cmd/multibird/main.go\<close>, every command after its arguments and flags are parsed, and the exit
    status.
  \<^item> About several components at once: \<^theory_text>\<open>Twins\<close> and \<^theory_text>\<open>Secrecy\<close> (two runs side by side, in worlds that
    differ in setup keys only), \<^theory_text>\<open>Panics\<close> (which errors an operation can end in), \<^theory_text>\<open>Settings\<close> (\<^verbatim>\<open>set\<close>: the
    file against the daemon), \<^theory_text>\<open>Views\<close> (what the commands that only show something do), \<^theory_text>\<open>Readback\<close> (a JSON
    reader for the output).  This theory puts everything together.

  \<^bold>\<open>State and operations.\<close>  A Go function with effects is an operation: a function from a world to a result (an
  error or a value) and a world.  The world holds the files, a clock in milliseconds, the history of events
  and the environment; what the environment answers may depend on the whole history.  File operations are
  atomic and may fail at any point (\<open>e_fault\<close>); other processes may change files whenever the program waits
  or calls out (\<open>e_step\<close>).  Early returns are \<open>bnd\<close>, errors passed on as values \<open>attempt\<close>.  A pointer whose
  target a function changes is handed on.  A panic is an error of its own that every handler passes on
  (\<open>caught\<close>).  The DNS watch, which has goroutines, is an inductive step relation (\<^theory_text>\<open>Watch\<close>).

  \<^bold>\<open>Conventions.\<close>  Messages are kept up to their first dash; the advice after it is left out.  Text is ASCII.
  \<^verbatim>\<open>sort.Slice\<close> is a stable sort, which is one of the orders it may give.  Go integers are \<open>int\<close> where no
  value of the program comes near their bounds, and wrapped to 64 bits where the user picks the value
  (\<^verbatim>\<open>--tail\<close>); addresses are words.

  \<^bold>\<open>Parameters\<close> (fields of \<open>env\<close>, or arguments): netbird's daemons and generated messages, the TOML library
  (decoding an encoded instance gives it back is the one law assumed of it, where it is needed), the JSON,
  gzip and tar decoders and SHA-256, the commands run, the iteration order of a Go map, what the build puts
  into the binary.

  \<^bold>\<open>Interfaces.\<close>  The locale \<open>frame\<close> states what a reflexive and transitive relation between worlds gives for the
  combinators; it is interpreted for events (\<open>ev\<close>), untouched files (\<open>still\<close>), the clock (\<open>clk\<close>) and runs in
  one environment (\<open>run\<close>, below).  \<open>symmetric_scan\<close> is the contract of a pairwise conflict check, interpreted
  for nets and routes.  \<open>keyed_store\<close> is the contract of the store, interpreted for the TOML files.

  \<^bold>\<open>What is shown.\<close>  Isolation: no command on one instance touches another, and the other's files are
  after it what they were (\<^theory_text>\<open>Instance\<close>, \<^theory_text>\<open>Daemon\<close>, \<^theory_text>\<open>Lifecycle\<close>; an operation's events account for all it
  does to the files, \<^theory_text>\<open>Frames\<close>), the sweep and the watch keep to their owners (\<^theory_text>\<open>HostSync\<close>, \<^theory_text>\<open>Watch\<close>), the
  viewing commands disturb nothing (\<^theory_text>\<open>Views\<close>), and the whole program leaves the stock installation alone
  (below).  Secrecy: noninterference for setup keys, over every command and the watch: the key of an
  instance shows in a login request and in its TOML file and nowhere else (\<^theory_text>\<open>Secrecy\<close>).  Exactness: preflight,
  doctor, the derivation of resolvers, peers, logs, checksums.  Refinement: the directory of files implements a
  map with an invariant (\<^theory_text>\<open>Store\<close>, \<^theory_text>\<open>Registry\<close>).  Order: login and settings before the engine, the daemon's
  settings before the file (\<^theory_text>\<open>Settings\<close>).  Errors: every command ends with exit status 0 or 1, never in a
  panic, with one kind of report excepted (\<^theory_text>\<open>Panics\<close>).  Round trips: keys, listings, units, the store, the JSON
  output (\<^theory_text>\<open>Readback\<close>).  Verified upgrade and its gate.

  \<^bold>\<open>Termination.\<close>  No fuel is used.  The waiting loops of \<^theory_text>\<open>Daemon\<close> and \<^theory_text>\<open>NbGrpc\<close> sleep, a sleep advances the
  clock, and the time left to the deadline is the measure; the loops over data are structural.  The log follower
  and the watch run until they are interrupted: the first consumes a list of what its polls find, the second is
  a relation whose every reachable state is covered.  The watch's channel holds 8 events, its debounce is
  2 s and its poll 60 s, as in the code.

  \<^bold>\<open>Not modelled.\<close>  The cobra declarations, that is flag
  parsing, help texts and completion scripts (the completion of names is modelled).  Timeouts of gRPC contexts
  are errors that the environment may give.  Concurrent watchers interleave at the granularity of the host
  operations.  Scripts, CI and the tests.
\<close>

section \<open>The whole program: what a command may do\<close>

text \<open>The config root that an environment leads to; finding it asks nothing but the environment.\<close>

definition config_dir :: "env \<Rightarrow> string option" where
  "config_dir en =
     (case fst (config_root \<lparr>w_fs = [], w_hist = [], w_clock = 0, w_env = en\<rparr>) of Inl _ \<Rightarrow> None | Inr r \<Rightarrow> Some r)"

text \<open>Where boot units are, on both systems: for \<^verbatim>\<open>up\<close> and for the DNS watch.\<close>

definition unit_files :: "string \<Rightarrow> string list" where
  "unit_files n =
     [''/etc/systemd/system/multibird-'' @ n @ ''.service'',
      ''/etc/systemd/system/multibird-dnswatch-'' @ n @ ''.service'',
      ''/Library/LaunchDaemons/io.github.magnetrong.multibird.'' @ n @ ''.plist'',
      ''/Library/LaunchDaemons/io.github.magnetrong.multibird.dnswatch.'' @ n @ ''.plist'']"

text \<open>The files of an instance with a valid name: its directory with all below it, its socket and pid file.\<close>

definition instance_file :: "env \<Rightarrow> string \<Rightarrow> bool" where
  "instance_file en q \<longleftrightarrow>
     (\<exists>n. valid_name n \<and>
        ((\<exists>root. config_dir en = Some root \<and> (q = path_join [root, n] \<or> below (path_join [root, n]) q)) \<or>
         q = run_dir @ ''/'' @ n @ ''.sock'' \<or> q = run_dir @ ''/'' @ n @ ''.pid''))"

text \<open>The files that are the program's to write: its two directories, the files of instances, boot units
  (\<^verbatim>\<open>uninstall\<close> does not check the name it is given), and for \<^verbatim>\<open>upgrade\<close> the binary itself.\<close>

definition program_file :: "env \<Rightarrow> command \<Rightarrow> string \<Rightarrow> bool" where
  "program_file en c q \<longleftrightarrow>
     q = run_dir \<or> config_dir en = Some q \<or> instance_file en q \<or>
     (\<exists>n. (valid_name n \<or> c = CmdUninstall n) \<and> q \<in> set (unit_files n)) \<or>
     (\<exists>check force bin. c = CmdUpgrade check force \<and> e_executable en = Some bin \<and> q \<in> {bin, bin @ ''.new''})"

text \<open>The one script that looks for stock NetBird's keys.\<close>

definition stock_listing :: string where
  "stock_listing = ''list State:/Network/Service/NetBird-.*/DNS'' @ nl @ ''quit'' @ nl"

text \<open>Only the files of an instance are removed with everything below them.  Anyone's daemon may be asked for its status and networks; orders go to a socket of an instance, a
  daemon is started only as that of an instance, and a script writes only keys that have an owner.\<close>

definition program_event :: "env \<Rightarrow> command \<Rightarrow> event \<Rightarrow> bool" where
  "program_event en c e \<longleftrightarrow>
     (case e of
        EvFs f \<Rightarrow> (\<forall>q \<in> set (written_paths f). program_file en c q) \<and>
          (\<forall>q. f = OpRemoveAll q \<longrightarrow> instance_file en q)
      | EvExec argv script \<Rightarrow>
          script = stock_listing \<or> (\<exists>owner. owner \<noteq> [] \<and> key_script owner script)
      | EvSpawn bin args environ \<Rightarrow>
          (\<exists>root i. config_dir en = Some root \<and> valid_name (i_name i) \<and>
             (let p = derive_params i root run_dir
              in args = service_run_args (p_config_json p) (p_daemon_addr p) (p_log_file p) log_level \<and>
                 effective environ ''NB_STATE_DIR'' = Some (p_state_dir p)))
      | EvRpc sock r \<Rightarrow> only_asks r \<or> (\<exists>n. valid_name n \<and> sock = run_dir @ ''/'' @ n @ ''.sock'')
      | EvHttp _ _ \<Rightarrow> (\<exists>check force. c = CmdUpgrade check force)
      | _ \<Rightarrow> True)"

text \<open>Every instance file carries a valid name.\<close>

definition names_ok :: "env \<Rightarrow> bool" where
  "names_ok en \<longleftrightarrow> (\<forall>t i. e_toml_dec en t = Inr i \<longrightarrow> valid_name (i_name i))"

subsection \<open>Runs in one environment\<close>

definition inrun :: "env \<Rightarrow> (event \<Rightarrow> bool) \<Rightarrow> world \<Rightarrow> world \<Rightarrow> bool" where
  "inrun en P w w' \<longleftrightarrow> (w_env w = en \<longrightarrow> emits P w w')"

interpretation run: frame "inrun en P" for en P
proof
  show "inrun en P w w" for w by (simp add: inrun_def emits_refl)
  show "inrun en P u w" if "inrun en P u v" "inrun en P v w" for u v w
    using that by (metis emits_def emits_trans inrun_def)
qed

lemma run_emits: "keeps (emits P) m \<Longrightarrow> keeps (inrun en P) m"
  by (simp add: keeps_def inrun_def)

text \<open>What a value is known to satisfy in this environment.\<close>

definition yields :: "env \<Rightarrow> ('a \<Rightarrow> bool) \<Rightarrow> 'a op \<Rightarrow> bool" where
  "yields en Q m \<longleftrightarrow> (\<forall>w x w'. w_env w = en \<longrightarrow> m w = (Inr x, w') \<longrightarrow> Q x)"

lemma run_bnd:
  assumes m: "keeps (inrun en P) m" and q: "yields en Q m" and f: "\<And>x. Q x \<Longrightarrow> keeps (inrun en P) (f x)"
  shows "keeps (inrun en P) (bnd m f)"
  unfolding keeps_def
proof
  fix w
  obtain r w1 where r: "m w = (r, w1)" by (cases "m w")
  have 1: "inrun en P w w1" by (rule keepsD [OF m r])
  show "inrun en P w (snd (bnd m f w))"
  proof (cases r)
    case (Inl e)
    with r 1 show ?thesis by (simp add: bnd_def)
  next
    case (Inr x)
    show ?thesis
    proof (cases "w_env w = en")
      case True
      with q r Inr have "Q x" by (auto simp: yields_def)
      from f [OF this] have "inrun en P w1 (snd (f x w1))" by (simp add: keeps_def)
      with r Inr 1 show ?thesis by (auto simp: bnd_def intro: run.chain)
    qed (simp add: inrun_def)
  qed
qed

lemma yields_bnd:
  assumes "keeps (inrun en (\<lambda>_. True)) m" and "yields en P m" and "\<And>x. P x \<Longrightarrow> yields en Q (f x)"
  shows "yields en Q (bnd m f)"
  unfolding yields_def
proof (intro allI impI)
  fix w y w'
  assume w: "w_env w = en" and "bnd m f w = (Inr y, w')"
  then obtain x w1 where 1: "m w = (Inr x, w1)" "f x w1 = (Inr y, w')" by (auto simp: bnd_result)
  from keepsD [OF assms(1) 1(1)] w have "w_env w1 = en" by (simp add: inrun_def emits_def)
  moreover from assms(2) 1(1) w have "P x" by (auto simp: yields_def)
  ultimately show "Q y" using assms(3) [of x] 1(2) by (auto simp: yields_def)
qed

lemma yields_basic:
  "Q x \<Longrightarrow> yields en Q (ret x)" "yields en Q (fail e)"
  "(\<And>w. w_env w = en \<Longrightarrow> Q (f w)) \<Longrightarrow> yields en Q (asks f)" "yields en (\<lambda>_. True) m"
  by (auto simp: yields_def ret_def fail_def asks_def)

lemma yields_each:
  assumes "\<And>x. x \<in> set xs \<Longrightarrow> keeps (inrun en (\<lambda>_. True)) (f x)" and "\<And>x. x \<in> set xs \<Longrightarrow> yields en Q (f x)"
  shows "yields en (list_all Q) (each f xs)"
  using assms
proof (induction xs)
  case (Cons x xs)
  have xs: "keeps (inrun en (\<lambda>_. True)) (each f xs)" by (rule run.keeps_each) (simp add: Cons.prems)
  have ys: "yields en (list_all Q) (each f xs)" by (rule Cons.IH) (simp_all add: Cons.prems)
  have "yields en (list_all Q) (bnd (each f xs) (\<lambda>ys. ret (y # ys)))" if "Q y" for y
    by (rule yields_bnd [OF xs ys]) (simp add: yields_basic that)
  then show ?case
    unfolding each.simps by (intro yields_bnd [where P = Q]) (simp_all add: Cons.prems)
qed (simp add: yields_basic)

lemma yields_attempt:
  "yields en Q m \<Longrightarrow> yields en (\<lambda>r. case r of Inl _ \<Rightarrow> True | Inr x \<Rightarrow> Q x) (attempt m)"
  by (auto simp: yields_def split: sum.split)

lemma run_any: "keeps (emits (\<lambda>_. True)) m \<Longrightarrow> keeps (inrun en (\<lambda>_. True)) m"
  by (rule run_emits)

text \<open>The instances a command gets have valid names.\<close>

definition named :: "inst \<Rightarrow> bool" where
  "named i \<longleftrightarrow> valid_name (i_name i)"

lemma load_named: "names_ok en \<Longrightarrow> yields en named (load s n)"
  by (auto simp: yields_def load_def names_ok_def named_def bnd_def attempt_def read_file_def fs_call_def ret_def
      fail_def asks_def log_event_def split: if_splits prod.splits sum.splits option.splits)

lemma migrate_named: "named i \<Longrightarrow> yields en named (migrate s i)"
  by (auto simp: yields_def migrate_alt named_def op_results split: if_splits)

lemma load_instance_named: "names_ok en \<Longrightarrow> yields en named (load_instance s n)"
  unfolding load_instance_def
  by (rule yields_bnd [OF run_any load_named migrate_named]) (auto intro: frame_intros)

lemma load_entries_named: "names_ok en \<Longrightarrow> yields en (list_all named) (load_entries s es)"
proof (induction s es rule: load_entries.induct)
  case (2 s name dir es)
  have any: "keeps (emits (\<lambda>_. True)) (load_entries s es)" by (rule emits_load_entries) simp_all
  have "yields en (list_all named) (bnd (load s name) (\<lambda>i. bnd (load_entries s es) (\<lambda>l. ret (i # l))))"
    if "yields en (list_all named) (load_entries s es)"
    by (rule yields_bnd [OF run_any load_named], rule frame_intros, simp, rule 2,
        rule yields_bnd [OF run_any [OF any] that], simp add: yields_basic)
  then show ?case
    using 2 by (auto intro!: yields_bnd [OF run_any, where P = "\<lambda>_. True"] frame_intros yields_basic split: sum.split)
qed (simp add: yields_basic)

lemma list_store_named:
  assumes "names_ok en"
  shows "yields en (list_all named) (list_store s)"
  unfolding list_store_def
  by (rule yields_bnd [OF run_any, where P = "\<lambda>_. True"], intro frame_intros, simp, rule yields_basic)
    (auto split: sum.split intro!: yields_basic yields_bnd [OF run_any load_entries_named [OF assms]] emits_load_entries
      simp: list_all_iff)

lemma list_instances_named: "names_ok en \<Longrightarrow> yields en (list_all named) (list_instances s)"
  unfolding list_instances_def
  by (rule yields_bnd [OF run_any list_store_named], intro frame_intros)
    (auto intro!: yields_each run_any emits_migrate migrate_named simp: list_all_iff)

text \<open>The store a command works on.\<close>

lemma config_root_env: "config_root w = (fst (config_root \<lparr>w_fs = [], w_hist = [], w_clock = 0, w_env = w_env w\<rparr>), w)"
  by (simp add: config_root_def by_os_def darwin_config_root_def linux_config_root_def home_dir_def getenv_def bnd_def
      asks_def ret_def fail_def split: os.split option.split)

definition its_store :: "env \<Rightarrow> store \<Rightarrow> bool" where
  "its_store en s \<longleftrightarrow> config_dir en = Some (s_root s) \<and> s_run s = run_dir"

lemma config_root_yields: "yields en (\<lambda>r. config_dir en = Some r) config_root"
  unfolding yields_def config_dir_def using config_root_env by (metis fst_conv sum.simps(6))

lemma new_env_yields: "yields en (its_store en) new_env"
  unfolding new_env_def
  by (rule yields_bnd [OF run_any config_root_yields], rule emits_config_root)
    (auto simp: yields_def thn_result its_store_def)

subsection \<open>What the parts may do\<close>

lemma run_paths:
  assumes "valid_name (i_name i)"
  shows "path_join [run_dir, i_name i @ ''.sock''] = run_dir @ ''/'' @ i_name i @ ''.sock''"
    and "path_join [run_dir, i_name i @ ''.pid''] = run_dir @ ''/'' @ i_name i @ ''.pid''"
    and "path_dir (path_join [run_dir, i_name i @ ''.sock'']) = run_dir"
proof -
  have c: "path_parts run_dir = [''multibird'', ''run'', ''var'']" "is_rooted run_dir" "clean run_dir = run_dir"
    by code_simp+
  have pl: "plain_elem (i_name i @ ''.sock'')" "plain_elem (i_name i @ ''.pid'')"
    by (rule valid_name_plain [OF assms])+
  show "path_join [run_dir, i_name i @ ''.sock''] = run_dir @ ''/'' @ i_name i @ ''.sock''"
    by (simp add: path_join2 [OF pl(1)] c(1,2) render_path_def) (simp add: run_dir_def)
  show "path_join [run_dir, i_name i @ ''.pid''] = run_dir @ ''/'' @ i_name i @ ''.pid''"
    by (simp add: path_join2 [OF pl(2)] c(1,2) render_path_def) (simp add: run_dir_def)
  show "path_dir (path_join [run_dir, i_name i @ ''.sock'']) = run_dir"
    unfolding path_dir_join [OF pl(1)] c(3) ..
qed

lemma owned_instance_file:
  assumes "config_dir en = Some root" and "valid_name (i_name i)"
    and "q \<in> set (owned_paths (derive_params i root run_dir))"
  shows "instance_file en q"
  using assms unfolding instance_file_def owned_paths_def
  by (auto simp: run_paths [OF assms(2)] below_join)

lemma looks_program: "looks e \<Longrightarrow> program_event en c e"
  by (auto simp: looks_def program_event_def only_asks_def split: event.splits fs_op.splits
      intro!: exI [where x = "''x''"])

lemma inspects_program: "inspects e \<Longrightarrow> program_event en c e"
  by (auto simp: inspects_def program_event_def stock_listing_def intro: looks_program [unfolded program_event_def]
      intro!: exI [where x = "''x''"])

lemma own_program:
  assumes "its_store en s" and "named i" and "own_event s i e"
  shows "program_event en c e"
proof -
  have v: "valid_name (i_name i)" "i_name i \<noteq> []" using assms(2) by (auto simp: named_def)
  have p: "store_params s i = derive_params i (s_root s) run_dir" and r: "config_dir en = Some (s_root s)"
    using assms(1) by (simp_all add: its_store_def store_params_def)
  note sock = run_paths [OF v(1)]
  show ?thesis
  proof (cases e)
    case (EvFs f)
    show ?thesis
    proof (cases "f = OpMkdirAll (path_dir (p_socket_path (store_params s i))) 493")
      case True
      then show ?thesis by (simp add: program_event_def EvFs p sock(3) program_file_def)
    next
      case False
      with assms(3) have "set (written_paths f) \<subseteq> set (owned_paths (derive_params i (s_root s) run_dir))"
        by (simp add: own_event_def EvFs Let_def p)
      then have "instance_file en q" if "q \<in> set (written_paths f)" for q
        using v r that by (auto intro: owned_instance_file)
      then show ?thesis by (auto simp: program_event_def EvFs program_file_def)
    qed
  next
    case (EvExec argv script)
    with assms(3) v(2) show ?thesis by (auto simp: own_event_def program_event_def Let_def)
  next
    case (EvSpawn bin args environ)
    with assms(3) v(1) r show ?thesis by (auto simp: own_event_def program_event_def Let_def p)
  next
    case (EvRpc sck q)
    with assms(3) v(1) show ?thesis by (auto simp: own_event_def program_event_def Let_def p sock)
  qed (use assms(3) in \<open>auto simp: own_event_def program_event_def Let_def\<close>)
qed

text \<open>Frames for a command.\<close>

abbreviation runs_within :: "env \<Rightarrow> command \<Rightarrow> 'a op \<Rightarrow> bool" where
  "runs_within en c m \<equiv> keeps (inrun en (program_event en c)) m"

lemma within_emits: "keeps (emits (program_event en c)) m \<Longrightarrow> runs_within en c m"
  by (rule run_emits)

lemma within_looks: "keeps (emits looks) m \<Longrightarrow> runs_within en c m"
  by (rule within_emits, erule keeps_mono) (rule looks_program)

lemma within_own:
  "its_store en s \<Longrightarrow> named i \<Longrightarrow> keeps (emits (own_event s i)) m \<Longrightarrow> runs_within en c m"
  by (rule within_emits, erule keeps_mono) (rule own_program)

lemma program_says [simp]:
  "program_event en c (EvWarn t)" "program_event en c (EvPrint t)" "program_event en c (EvError t)"
  "program_event en c (EvOut t)" "program_event en c (EvSleep d)" "program_event en c EvIfaces"
  "program_event en c (EvKill pid sig)" "program_event en c (EvFs (OpRead q))"
  "program_event en c (EvFs (OpStat q))" "program_event en c (EvFs (OpReadDir q))"
  "program_event en c (EvFs (OpClose q))"
  by (simp_all add: program_event_def)

lemma within_says:
  "runs_within en c (warnf t)" "runs_within en c (printf t)" "runs_within en c (errorf t)"
  "runs_within en c (write_out t)" "runs_within en c now"
  by (rule within_emits, intro frame_intros; simp)+

lemma within_new_env: "runs_within en c new_env"
  unfolding new_env_def
proof (rule run_bnd [OF within_emits config_root_yields])
  show "keeps (emits (program_event en c)) config_root" by (rule emits_config_root)
  show "runs_within en c (thn (wrap (''creating config root '' @ root) (mkdir_all root 448))
      (ret \<lparr>s_root = root, s_run = run_dir\<rparr>))" if "config_dir en = Some root" for root
    by (rule within_emits, intro frame_intros) (simp add: program_event_def program_file_def that)
qed

lemma within_save: "its_store en s \<Longrightarrow> named i \<Longrightarrow> runs_within en c (save s i)"
  by (rule within_own [OF _ _ own_save]) simp_all

lemma within_migrate: "its_store en s \<Longrightarrow> named i \<Longrightarrow> runs_within en c (migrate s i)"
  unfolding migrate_alt
  by (auto intro!: run.combinators within_save simp: named_def)

lemma within_load: "runs_within en c (load s n)"
  by (rule within_emits, intro frame_intros) simp

lemma within_list: "runs_within en c (list_store s)"
  by (rule within_emits, intro frame_intros) simp_all

lemma within_load_instance:
  assumes "names_ok en" and "its_store en s"
  shows "runs_within en c (load_instance s n)"
  unfolding load_instance_def
  by (rule run_bnd [OF within_load load_named [OF assms(1)] within_migrate [OF assms(2)]])

lemma within_list_instances:
  assumes "names_ok en" and "its_store en s"
  shows "runs_within en c (list_instances s)"
  unfolding list_instances_def
  by (rule run_bnd [OF within_list list_store_named [OF assms(1)]])
    (auto intro!: run.keeps_each within_migrate assms simp: list_all_iff)

subsection \<open>What the commands may do\<close>

text \<open>A command makes its environment, then works on its store.\<close>

lemma within_store:
  "(\<And>s. its_store en s \<Longrightarrow> runs_within en c (f s)) \<Longrightarrow> runs_within en c (bnd new_env f)"
  by (rule run_bnd [OF within_new_env new_env_yields])

lemma within_instance:
  assumes "names_ok en" and "its_store en s" and "\<And>i. named i \<Longrightarrow> runs_within en c (f i)"
  shows "runs_within en c (bnd (load_instance s n) f)"
  by (rule run_bnd [OF within_load_instance [OF assms(1,2)] load_instance_named [OF assms(1)] assms(3)])

lemma within_targets:
  assumes "names_ok en" and "its_store en s" and f: "\<And>l. list_all named l \<Longrightarrow> runs_within en c (f l)"
  shows "runs_within en c (bnd (targets s args all) f)" and "runs_within en c (bnd (instances_for s args) f)"
proof -
  note ls = run_bnd [OF within_list_instances [OF assms(1,2)] list_instances_named [OF assms(1)]]
  note ld = within_instance [OF assms(1,2)]
  show "runs_within en c (bnd (targets s args all) f)"
    unfolding targets_def by (auto simp: bnd_assoc intro!: ls ld f run.keeps_fail)
  show "runs_within en c (bnd (instances_for s args) f)"
    unfolding instances_for_def by (auto simp: bnd_assoc intro!: ls ld f)
qed

lemma within_caught: "runs_within en c m \<Longrightarrow> runs_within en c (caught m)"
  unfolding caught_def by (intro run.combinators)

lemmas within_intros = run.combinators within_says within_caught

lemma within_lifecycle:
  assumes "its_store en s" and "named i"
  shows "runs_within en c (up s i strict)" "runs_within en c (down s i)" "runs_within en c (remove_instance s i purge)"
    "runs_within en c (nuke_instance s i)" "runs_within en c (status_one s i)" "runs_within en c (set_instance s i ch)"
    "runs_within en c (dns_sync s i)" "runs_within en c (peers_one s i)" "runs_within en c (logs s i tail following polls)"
proof -
  have v: "valid_name (i_name i)" using assms(2) by (simp add: named_def)
  note own = within_own [OF assms]
  show "runs_within en c (up s i strict)" "runs_within en c (down s i)" "runs_within en c (remove_instance s i purge)"
    "runs_within en c (nuke_instance s i)" "runs_within en c (status_one s i)" "runs_within en c (set_instance s i ch)"
    by (rule own; rule own_up own_down own_remove own_nuke own_status own_set; fact v)+
  show "runs_within en c (dns_sync s i)"
    by (rule own, unfold dns_sync_def Let_def) (intro frame_intros own_ops v)
  show "runs_within en c (peers_one s i)" by (rule within_looks [OF peers_one_looks])
  show "runs_within en c (logs s i tail following polls)"
    by (rule within_emits, unfold logs_def Let_def) (intro frame_intros; simp)
qed

lemma within_up_each: "its_store en s \<Longrightarrow> list_all named l \<Longrightarrow> runs_within en c (up_each s strict all l)"
  by (induction l) (auto intro!: within_intros within_lifecycle)

lemma within_sync_each: "its_store en s \<Longrightarrow> list_all named l \<Longrightarrow> runs_within en c (sync_each s l)"
  by (induction l) (auto intro!: within_intros within_lifecycle)

lemma within_each:
  "list_all named l \<Longrightarrow> (\<And>i. named i \<Longrightarrow> runs_within en c (f i)) \<Longrightarrow> runs_within en c (each f l)"
  by (rule run.keeps_each) (simp add: list_all_iff)

lemma within_sweep:
  "[] \<notin> set owners \<Longrightarrow> runs_within en c (sweep known owners)"
  by (rule within_emits [OF emits_sweep]) (simp add: program_event_def, metis)

lemma owners_named: "yields en (\<lambda>l. [] \<notin> set l) list_host_dns_owners"
  by (auto simp: yields_def list_host_dns_owners_def by_os_def op_results owners_from_keys_def split: os.splits)

lemma within_owners: "runs_within en c list_host_dns_owners"
  by (rule within_emits, intro frame_intros) (auto simp: program_event_def intro: exI [where x = "''x''"])

lemma within_strays:
  assumes "names_ok en" and "its_store en s"
  shows "runs_within en c (dns_cleanup_strays s)"
  unfolding dns_cleanup_strays_def
  by (rule run_bnd [OF run.keeps_attempt [OF within_owners] yields_attempt [OF owners_named]])
    (auto split: sum.split intro!: within_intros within_list_instances [OF assms] within_sweep)

lemma within_add:
  assumes "its_store en s"
  shows "runs_within en c (add s i)"
proof (cases "valid_name (i_name i)")
  case True
  then show ?thesis
    unfolding add_def next_index_def Let_def
    by (auto intro!: within_intros within_load within_list within_save assms simp: named_def)
qed (simp add: add_def run.keeps_fail)

lemma within_units:
  assumes "valid_name n \<or> c = CmdUninstall n"
  shows "runs_within en c (install n bin root)" "runs_within en c (install_dns_watch n bin root)"
    "runs_within en c (uninstall n)" "runs_within en c (uninstall_dns_watch n)"
proof -
  have x [simp]: "program_event en c (EvExec argv [])" for argv
    by (auto simp: program_event_def intro: exI [where x = "''x''"])
  have f [simp]: "q \<in> set (unit_files n) \<Longrightarrow> program_event en c (EvFs (OpWriteFile q m))"
    "q \<in> set (unit_files n) \<Longrightarrow> program_event en c (EvFs (OpRemove q))" for q m
    using assms by (auto simp: program_event_def program_file_def)
  note defs = install_def install_dns_watch_def uninstall_def uninstall_dns_watch_def
    linux_install_def linux_install_dns_watch_def linux_uninstall_def linux_uninstall_dns_watch_def
    darwin_install_def darwin_install_dns_watch_def darwin_uninstall_def darwin_uninstall_dns_watch_def
    install_systemd_def install_launchd_def uninstall_systemd_def uninstall_launchd_def
    remove_if_there_def unless_missing_def
  note paths = systemd_unit_path_def systemd_dns_watch_unit_path_def launchd_plist_path_def launchd_label_def
    launchd_dns_watch_plist_path_def launchd_dns_watch_label_def
  show "runs_within en c (install n bin root)" "runs_within en c (install_dns_watch n bin root)"
    "runs_within en c (uninstall n)" "runs_within en c (uninstall_dns_watch n)"
    by (rule within_emits, unfold defs, intro frame_intros; simp add: unit_files_def paths)+
qed

lemma within_doctor:
  assumes "names_ok en" and "its_store en s"
  shows "runs_within en c (doctor ord s)"
proof -
  have "runs_within en c (examine ord s root insts)" for root insts
    by (rule within_emits, rule keeps_mono [OF inspects_examine]) (rule inspects_program)
  moreover have "doctor ord s = bnd (attempt (list_instances s)) (\<lambda>r.
      examine ord s (case r of Inl e \<Rightarrow> [failed ''config root'' (err_text e)] | Inr _ \<Rightarrow> [])
        (case r of Inl _ \<Rightarrow> [] | Inr is \<Rightarrow> is))"
    by (simp add: doctor_def examine_def Let_def)
  ultimately show ?thesis by (auto intro!: within_intros within_list_instances [OF assms])
qed

lemma within_upgrade: "runs_within en (CmdUpgrade check force) (upgrade_cmd ver info check force)"
proof -
  let ?c = "CmdUpgrade check force"
  have http [simp]: "program_event en ?c (EvHttp url hs)" for url hs by (simp add: program_event_def)
  have "yields en (\<lambda>b. e_executable en = Some b) (executable t)" for t
    by (auto simp: yields_def executable_def split: option.splits)
  moreover have "runs_within en ?c (executable t)" for t
    by (rule within_emits, unfold executable_def, intro frame_intros)
  moreover have "runs_within en ?c (upgrade_tail ver info rel bin)" if "e_executable en = Some bin" for rel bin
  proof (rule within_emits)
    have f [simp]: "program_event en ?c (EvFs (OpWriteFile (bin @ ''.new'') m))"
      "program_event en ?c (EvFs (OpRename (bin @ ''.new'') bin))" "program_event en ?c (EvFs (OpRemove (bin @ ''.new'')))" for m
      using that by (auto simp: program_event_def program_file_def)
    have "keeps (emits (program_event en ?c)) (verified_binary rel os arch)" for os arch
      by (rule keeps_mono [OF emits_verified]) (auto simp: http_event_def)
    then show "keeps (emits (program_event en ?c)) (upgrade_tail ver info rel bin)"
      unfolding upgrade_tail_def apply_release_def replace_binary_def Let_def by (intro frame_intros) simp_all
  qed
  ultimately have "runs_within en ?c (bnd (executable t) (upgrade_tail ver info rel))" for t rel
    by (intro run_bnd [where Q = "\<lambda>b. e_executable en = Some b"])
  moreover have "runs_within en ?c latest_release" by (rule within_emits, intro frame_intros) simp
  ultimately show ?thesis
    unfolding upgrade_cmd_def
    by (intro run.keeps_bnd [of en "program_event en ?c" latest_release] run.keeps_if within_says run.keeps_fail)
qed

lemma within_commands:
  assumes "names_ok en"
  shows "runs_within en c (add_cmd n f)" "runs_within en c (up_cmd args all strict)" "runs_within en c (down_cmd args all)"
    "runs_within en c (status_cmd args json_out)" "runs_within en c (peers_cmd args json_out)" "runs_within en c list_cmd"
    "runs_within en c (remove_cmd n purge)" "runs_within en c (doctor_cmd ord strict json_out)"
    "runs_within en c (nuke_cmd n)" "runs_within en c (set_cmd n sf)" "runs_within en c (logs_cmd n following kb polls)"
    "runs_within en c (install_cmd n also)" "runs_within en c (dns_sync_cmd args all watch)"
proof -
  note st = within_store and inst = within_instance [OF assms] and tg = within_targets [OF assms]
  show "runs_within en c (add_cmd n f)"
    unfolding add_cmd_def Let_def by (auto intro!: run.keeps_fail st) (auto intro!: within_intros within_add split: option.split)
  show "runs_within en c (up_cmd args all strict)"
    unfolding up_cmd_def by (rule st, rule tg, assumption) (intro within_intros within_up_each)
  show "runs_within en c (down_cmd args all)"
    unfolding down_cmd_def by (rule st, rule tg, assumption) (intro within_intros within_each within_lifecycle)
  show "runs_within en c (status_cmd args json_out)"
    unfolding status_cmd_def status_all_def encode_def
    by (rule st, rule tg, assumption) (intro within_intros within_each within_lifecycle)
  show "runs_within en c (peers_cmd args json_out)"
    unfolding peers_cmd_def peers_def encode_def
    by (rule st, rule tg, assumption) (intro within_intros within_each within_lifecycle)
  show "runs_within en c list_cmd"
    unfolding list_cmd_def by (rule st) (intro within_intros within_list_instances [OF assms])
  show "runs_within en c (doctor_cmd ord strict json_out)"
    unfolding doctor_cmd_def Let_def encode_def by (rule st) (intro within_intros within_doctor [OF assms])
  show "runs_within en c (remove_cmd n purge)"
    unfolding remove_cmd_def by (rule st, rule inst, assumption) (intro within_intros within_lifecycle)
  show "runs_within en c (nuke_cmd n)"
    unfolding nuke_cmd_def by (rule st, rule inst, assumption) (intro within_intros within_lifecycle)
  show "runs_within en c (set_cmd n sf)"
    unfolding set_cmd_def by (rule st, rule inst, assumption) (intro within_intros within_lifecycle)
  show "runs_within en c (logs_cmd n following kb polls)"
    unfolding logs_cmd_def by (rule st, rule inst, assumption) (intro within_lifecycle)
  show "runs_within en c (install_cmd n also)"
    unfolding install_cmd_def executable_def
    by (rule st, rule inst, assumption) (intro within_intros within_units; simp add: named_def)
  show "runs_within en c (dns_sync_cmd args all watch)"
    unfolding dns_sync_cmd_def sweep_step_def
    by (rule st, rule tg, assumption) (intro within_intros within_sync_each within_strays [OF assms])
qed

lemma within_root:
  assumes "names_ok en"
  shows "runs_within en c (root_cmd ver info ord polls c)"
  by (cases c)
    (auto simp: root_cmd_def Let_def uninstall_cmd_def tui_run_def intro!: within_intros within_commands [OF assms] within_upgrade within_units)

text \<open>The instances a watch is started with have valid names too.\<close>

lemma within_any: "runs_within en c m \<Longrightarrow> keeps (inrun en (\<lambda>_. True)) m"
  by (auto simp: keeps_def inrun_def emits_def)

lemma targets_named:
  assumes "names_ok en" and "its_store en s"
  shows "yields en (list_all named) (targets s args all)"
    and "keeps (inrun en (\<lambda>_. True)) (targets s args all)"
proof -
  note any = within_any [OF within_list_instances [OF assms]] within_any [OF within_load_instance [OF assms]]
  show "yields en (list_all named) (targets s args all)"
    unfolding targets_def
    by (auto intro!: yields_basic yields_bnd [OF any(1) list_instances_named [OF assms(1)]]
        yields_bnd [OF any(2) load_instance_named [OF assms(1)]])
  show "keeps (inrun en (\<lambda>_. True)) (targets s args all)"
    unfolding targets_def by (auto intro!: run.combinators any)
qed

lemma watched_named:
  assumes "names_ok en"
  shows "yields en (\<lambda>r. \<forall>l. r = Some l \<longrightarrow> list_all named l) (root_cmd ver info ord polls c)"
proof -
  have "yields en (\<lambda>r. \<forall>l. r = Some l \<longrightarrow> list_all named l) (dns_sync_cmd args all watch)" for args all watch
    unfolding dns_sync_cmd_def
  proof (rule yields_bnd [OF within_any [OF within_new_env] new_env_yields], rule yields_bnd [OF targets_named(2,1)])
    fix s l
    assume "list_all named l"
    then show "yields en (\<lambda>r. \<forall>l. r = Some l \<longrightarrow> list_all named l)
        (if watch then thn (printf ''watching daemon events; Ctrl-C to stop'') (ret (Some l))
         else bnd (sync_each s l) (\<lambda>bad. bnd (if args = [] then sweep_step s else ret 0) (\<lambda>swept.
              if bad + swept > 0 then fail (ErrMsg (utoa (bad + swept) @ '' sync step(s) failed'')) else ret None)))"
      by (auto simp: yields_def op_results split: if_splits)
  qed (use assms in simp_all)
  then show ?thesis
    by (cases c) (auto simp: root_cmd_def yields_def thn_result)
qed

lemma stock_key_unowned:
  assumes "has_prefix k ''State:/Network/Service/NetBird-''"
  shows "owner_of_key k = []"
proof -
  obtain t where "k = ''State:/Network/Service/NetBird-'' @ t"
    using assms by (metis append_take_drop_id has_prefix_def)
  then show ?thesis by (simp add: owner_of_key_def cut_prefix_def has_prefix_def dyn_store_prefix_def)
qed

subsection \<open>Properties\<close>

text \<open>A run of the program: the command, and the watch that it may end in, under every interleaving.\<close>

definition whole_run :: "string \<Rightarrow> (string \<times> string) list option \<Rightarrow> (string list \<Rightarrow> string list) \<Rightarrow> poll list \<Rightarrow>
    command \<Rightarrow> world \<Rightarrow> world \<Rightarrow> bool" where
  "whole_run ver info ord polls c w v \<longleftrightarrow>
     (let (r, w') = root_cmd ver info ord polls c w
      in v = w' \<or> (\<exists>insts s xs. r = Inr (Some insts) \<and> dns_watch s insts w' xs v))"

lemma whole_run_emits:
  assumes "names_ok (w_env w)" and "whole_run ver info ord polls c w v"
  shows "emits (program_event (w_env w) c) w v"
proof -
  obtain r w' where run: "root_cmd ver info ord polls c w = (r, w')" by (cases "root_cmd ver info ord polls c w")
  from keepsD [OF within_root [OF assms(1)] run] have e: "emits (program_event (w_env w) c) w w'"
    by (simp add: inrun_def)
  from assms(2) run consider "v = w'" | insts s xs where "r = Inr (Some insts)" "dns_watch s insts w' xs v"
    by (auto simp: whole_run_def)
  then show ?thesis
  proof cases
    case (2 insts s xs)
    from watched_named [OF assms(1), of ver info ord polls c] run 2(1) have "list_all named insts"
      unfolding yields_def by blast
    then have n: "\<forall>i \<in> set insts. valid_name (i_name i)" by (simp add: list_all_iff named_def)
    have "emits (watch_event (i_name ` set insts)) w' v" by (rule dns_watch_emits [OF 2(2)]) (use n in auto)
    moreover have "program_event (w_env w) c x" if "watch_event (i_name ` set insts) x" for x
    proof -
      have "\<forall>i \<in> set insts. i_name i \<noteq> []" using n by auto
      with that show ?thesis
        unfolding watch_event_def by (elim disjE exE conjE, elim looks_program) (auto simp: program_event_def)
    qed
    ultimately show ?thesis by (rule emits_trans [OF e emits_mono])
  qed (use e in simp)
qed



subsection \<open>Runs\<close>

text \<open>An instance that is running is brought up; the instance files carry valid names.\<close>

definition checked_world :: world where
  "checked_world = half_up\<lparr>w_env := (w_env half_up)\<lparr>e_toml_dec := (\<lambda>t. case example_dec t of
      Inl m \<Rightarrow> Inl m | Inr i \<Rightarrow> if valid_name (i_name i) then Inr i else Inl ''name'')\<rparr>\<rparr>"

lemma checked_names: "names_ok (w_env checked_world)" "quiet checked_world"
  by (auto simp: names_ok_def quiet_def checked_world_def half_up_def example_env_def split: sum.splits if_splits)

lemma command_run: "whole_run ver info ord polls c w (snd (root_cmd ver info ord polls c w))"
  by (simp add: whole_run_def split_beta)



end
